(* ===== verification/Xv6_Prelude.thy ===== *)
theory Xv6_Prelude
  imports Main "HOL-Library.Word"
begin

text \<open>
  The prelude of the xv6 development: machine types, the configuration constants of
  \<^verbatim>\<open>param.h\<close>, \<^verbatim>\<open>memlayout.h\<close> and \<^verbatim>\<open>mmu.h\<close>, the result type of kernel code that can
  panic, and the generic lemmas on lists, array scans and little-endian words that the
  component theories share.

  Conventions. \<^verbatim>\<open>uint\<close> is \<open>u32\<close> and \<^verbatim>\<open>uchar\<close>/\<^verbatim>\<open>char\<close> data is \<open>u8\<close>, both with the
  wrap-around of the machine. C \<^verbatim>\<open>int\<close> values are HOL integers, converted to and from
  machine words with \<open>word_of_int\<close> and \<open>sint\<close> where the code casts. Pointers into a
  kernel table are indices of the table; a null pointer is \<open>None\<close>.
\<close>

unbundle bit_operations_syntax

type_synonym u32 = "32 word"
type_synonym u16 = "16 word"
type_synonym u8 = "8 word"

named_theorems frame_simps "what an operation leaves unchanged"
named_theorems inv_intros "an operation keeps its component's invariant"

subsection \<open>Configuration constants\<close>

abbreviation (input) NPROC :: nat where "NPROC \<equiv> 64"
abbreviation (input) KSTACKSIZE :: u32 where "KSTACKSIZE \<equiv> 4096"
abbreviation (input) NCPU :: nat where "NCPU \<equiv> 8"
abbreviation (input) NOFILE :: nat where "NOFILE \<equiv> 16"
abbreviation (input) NFILE :: nat where "NFILE \<equiv> 100"
abbreviation (input) NINODE :: nat where "NINODE \<equiv> 50"
abbreviation (input) NDEV :: int where "NDEV \<equiv> 10"
abbreviation (input) ROOTDEV :: u32 where "ROOTDEV \<equiv> 1"
abbreviation (input) MAXARG :: nat where "MAXARG \<equiv> 32"
abbreviation (input) MAXOPBLOCKS :: nat where "MAXOPBLOCKS \<equiv> 10"
abbreviation (input) LOGSIZE :: nat where "LOGSIZE \<equiv> 30"
abbreviation (input) NBUF :: nat where "NBUF \<equiv> 30"
abbreviation (input) PGSIZE :: u32 where "PGSIZE \<equiv> 4096"
abbreviation (input) KERNBASE :: u32 where "KERNBASE \<equiv> 0x80000000"
abbreviation (input) PHYSTOP :: u32 where "PHYSTOP \<equiv> 0xE000000"

subsection \<open>Results of kernel code\<close>

text \<open>
  \<open>Panic m\<close> is a call of \<^verbatim>\<open>panic(m)\<close>, which never returns. \<open>Block\<close> is a run that reaches a
  \<^verbatim>\<open>sleep\<close> the sequential model does not continue past: another thread holds what the code
  waits for. \<open>Fault\<close> is an access outside the object the code means to access (a null
  pointer, an index outside every field of the structure).
\<close>

datatype kerr = Panic string | Block | Fault

type_synonym 'a kres = "kerr + 'a"

definition andThen :: "'e + 'a \<Rightarrow> ('a \<Rightarrow> 'e + 'b) \<Rightarrow> 'e + 'b" where
  "andThen m f = (case m of Inl e \<Rightarrow> Inl e | Inr x \<Rightarrow> f x)"

lemma andThen_Inr [simp]: "andThen (Inr x) f = f x"
  by (simp add: andThen_def)

lemma andThen_Inl [simp]: "andThen (Inl e) f = Inl e"
  by (simp add: andThen_def)

lemma andThen_eq_Inr [simp]: "andThen m f = Inr y \<longleftrightarrow> (\<exists>x. m = Inr x \<and> f x = Inr y)"
  by (cases m) auto

lemma andThen_eq_Inl:
  "andThen m f = Inl e \<longleftrightarrow> m = Inl e \<or> (\<exists>x. m = Inr x \<and> f x = Inl e)"
  by (cases m) auto

lemma andThen_assoc: "andThen (andThen m f) g = andThen m (\<lambda>x. andThen (f x) g)"
  by (cases m) auto

lemma andThen_cong [fundef_cong]:
  "m = m' \<Longrightarrow> (\<And>x. m' = Inr x \<Longrightarrow> f x = f' x) \<Longrightarrow> andThen m f = andThen m' f'"
  by (cases m') (auto simp: andThen_def)

text \<open>A computation that returns, with a result that satisfies \<open>P\<close>.\<close>

definition ok_with :: "'e + 'a \<Rightarrow> ('a \<Rightarrow> bool) \<Rightarrow> bool" where
  "ok_with r P = (case r of Inl e \<Rightarrow> False | Inr x \<Rightarrow> P x)"

lemma ok_withE: "ok_with r P \<Longrightarrow> (\<And>x. r = Inr x \<Longrightarrow> P x \<Longrightarrow> Q) \<Longrightarrow> Q"
  by (cases r) (auto simp: ok_with_def)

lemma ok_with_Inr [simp]: "ok_with (Inr x) P = P x"
  by (simp add: ok_with_def)

lemma ok_with_Inl [simp]: "\<not> ok_with (Inl e) P"
  by (simp add: ok_with_def)

definition guardK :: "bool \<Rightarrow> kerr \<Rightarrow> unit kres" where
  "guardK b e = (if b then Inr () else Inl e)"

lemma guardK_Inr [simp]: "guardK b e = Inr u \<longleftrightarrow> b"
  by (simp add: guardK_def)

lemma guardK_True [simp]: "guardK True e = Inr ()"
  by (simp add: guardK_def)

lemma guardK_False [simp]: "guardK False e = Inl e"
  by (simp add: guardK_def)

subsection \<open>Array scans\<close>

text \<open>
  A loop \<^verbatim>\<open>for(p = tab; p < &tab[N]; p++) if(P(p)) ...\<close> that stops at the first hit finds
  the least index whose entry satisfies the test.
\<close>

fun find_index :: "('a \<Rightarrow> bool) \<Rightarrow> 'a list \<Rightarrow> nat option" where
  "find_index P [] = None"
| "find_index P (x # xs) = (if P x then Some 0 else map_option Suc (find_index P xs))"

lemma find_index_None: "find_index P xs = None \<longleftrightarrow> (\<forall>x \<in> set xs. \<not> P x)"
  by (induction xs) auto

lemma find_index_SomeD:
  "find_index P xs = Some i \<Longrightarrow> i < length xs \<and> P (xs ! i) \<and> (\<forall>j < i. \<not> P (xs ! j))"
proof (induction xs arbitrary: i)
  case Nil
  then show ?case by simp
next
  case (Cons x xs)
  show ?case
  proof (cases "P x")
    case True
    with Cons.prems show ?thesis by simp
  next
    case False
    with Cons.prems obtain k where k: "find_index P xs = Some k" "i = Suc k"
      by auto
    from Cons.IH [OF k(1)] k(2) False show ?thesis
      by (auto simp: nth_Cons split: nat.splits)
  qed
qed

lemma find_index_SomeI:
  "i < length xs \<Longrightarrow> P (xs ! i) \<Longrightarrow> (\<And>j. j < i \<Longrightarrow> \<not> P (xs ! j)) \<Longrightarrow> find_index P xs = Some i"
proof (induction xs arbitrary: i)
  case Nil
  then show ?case by simp
next
  case (Cons x xs)
  show ?case
  proof (cases i)
    case 0
    with Cons.prems show ?thesis by simp
  next
    case (Suc k)
    from Cons.prems(3) [of 0] Suc have "\<not> P x" by simp
    moreover have "find_index P xs = Some k"
    proof (rule Cons.IH)
      show "k < length xs" "P (xs ! k)" using Cons.prems Suc by simp_all
      show "\<And>j. j < k \<Longrightarrow> \<not> P (xs ! j)" using Cons.prems(3) [of "Suc j" for j] Suc by force
    qed
    ultimately show ?thesis using Suc by simp
  qed
qed

lemma find_index_ex: "x \<in> set xs \<Longrightarrow> P x \<Longrightarrow> \<exists>i. find_index P xs = Some i"
  using find_index_None [of P xs] by (cases "find_index P xs") auto

lemma find_index_cong:
  "length xs = length ys \<Longrightarrow> (\<And>i. i < length xs \<Longrightarrow> P (xs ! i) = Q (ys ! i)) \<Longrightarrow>
    find_index P xs = find_index Q ys"
proof (induction xs ys rule: list_induct2)
  case Nil
  then show ?case by simp
next
  case (Cons x xs y ys)
  from Cons.prems [of 0] have "P x = Q y" by simp
  moreover have "find_index P xs = find_index Q ys"
    using Cons.IH Cons.prems [of "Suc i" for i] by force
  ultimately show ?case by simp
qed

subsection \<open>Lists\<close>

lemma nth_list_update_same [simp]: "i < length xs \<Longrightarrow> xs[i := x] ! i = x"
  by simp

lemma map_upd_notin: "i < length xs \<Longrightarrow> f x = f (xs ! i) \<Longrightarrow> map f (xs[i := x]) = map f xs"
  by (simp add: map_update list_update_same_conv)

lemma set_update_cases: "y \<in> set (xs[i := x]) \<Longrightarrow> y = x \<or> y \<in> set xs"
  by (meson in_set_conv_nth insertE set_update_subset_insert subset_iff)

lemma sum_list_update_int:
  "i < length xs \<Longrightarrow> sum_list (xs[i := (x :: int)]) = sum_list xs - xs ! i + x"
  by (induction xs arbitrary: i) (auto split: nat.splits)

lemma count_list_update:
  "i < length xs \<Longrightarrow>
    int (count_list (xs[i := x]) y) =
      int (count_list xs y) - (if xs ! i = y then 1 else 0) + (if x = y then 1 else 0)"
proof (induction xs arbitrary: i)
  case Nil
  then show ?case by simp
next
  case (Cons a xs)
  show ?case
  proof (cases i)
    case 0
    then show ?thesis by simp
  next
    case (Suc k)
    with Cons.prems Cons.IH [of k] show ?thesis by (simp split: if_splits)
  qed
qed

text \<open>Overwrite \<open>length ys\<close> elements of \<open>xs\<close> from position \<open>n\<close>, as \<^verbatim>\<open>memmove\<close> into a buffer does.\<close>

definition splice :: "nat \<Rightarrow> 'a list \<Rightarrow> 'a list \<Rightarrow> 'a list" where
  "splice n ys xs = take n xs @ ys @ drop (n + length ys) xs"

lemma length_splice [simp]: "n + length ys \<le> length xs \<Longrightarrow> length (splice n ys xs) = length xs"
  by (simp add: splice_def)

lemma nth_splice:
  "n + length ys \<le> length xs \<Longrightarrow> i < length xs \<Longrightarrow>
    splice n ys xs ! i = (if n \<le> i \<and> i < n + length ys then ys ! (i - n) else xs ! i)"
  by (auto simp: splice_def nth_append min_def)

lemma take_drop_splice [simp]:
  "n + length ys \<le> length xs \<Longrightarrow> take (length ys) (drop n (splice n ys xs)) = ys"
  by (simp add: splice_def)

lemma splice_Nil [simp]: "splice n [] xs = xs"
  by (simp add: splice_def)

subsection \<open>Little-endian words\<close>

definition byte_of :: "nat \<Rightarrow> u32 \<Rightarrow> u8" where
  "byte_of k w = ucast (drop_bit (8 * k) w)"

definition le32 :: "u8 \<Rightarrow> u8 \<Rightarrow> u8 \<Rightarrow> u8 \<Rightarrow> u32" where
  "le32 b0 b1 b2 b3 =
     ucast b0 OR push_bit 8 (ucast b1) OR push_bit 16 (ucast b2) OR push_bit 24 (ucast b3)"

lemma le32_byte_of [simp]: "le32 (byte_of 0 w) (byte_of 1 w) (byte_of 2 w) (byte_of 3 w) = w"
proof (rule bit_word_eqI)
  fix n assume n: "n < LENGTH(32)"
  then consider "n < 8" | "8 \<le> n" "n < 16" | "16 \<le> n" "n < 24" | "24 \<le> n" "n < 32"
    by fastforce
  then show "bit (le32 (byte_of 0 w) (byte_of 1 w) (byte_of 2 w) (byte_of 3 w)) n = bit w n"
    by cases (auto simp: le32_def byte_of_def bit_or_iff bit_push_bit_iff bit_ucast_iff
        bit_drop_bit_eq)
qed

lemmas le32_byte_of_Suc [simp] = le32_byte_of [unfolded One_nat_def]

text \<open>A 32-bit field at byte offset \<open>k\<close> of a block or structure held as a byte list.\<close>

definition get32 :: "u8 list \<Rightarrow> nat \<Rightarrow> u32" where
  "get32 bs k = le32 (bs ! k) (bs ! (k + 1)) (bs ! (k + 2)) (bs ! (k + 3))"

definition bytes32 :: "u32 \<Rightarrow> u8 list" where
  "bytes32 w = [byte_of 0 w, byte_of 1 w, byte_of 2 w, byte_of 3 w]"

definition put32 :: "u8 list \<Rightarrow> nat \<Rightarrow> u32 \<Rightarrow> u8 list" where
  "put32 bs k w = splice k (bytes32 w) bs"

lemma length_bytes32 [simp]: "length (bytes32 w) = 4"
  by (simp add: bytes32_def)

lemma length_put32 [simp]: "k + 4 \<le> length bs \<Longrightarrow> length (put32 bs k w) = length bs"
  by (simp add: put32_def)

lemma get32_put32_same [simp]: "k + 4 \<le> length bs \<Longrightarrow> get32 (put32 bs k w) k = w"
proof -
  assume "k + 4 \<le> length bs"
  then have "put32 bs k w ! (k + i) = bytes32 w ! i" if "i < 4" for i
    using that by (simp add: put32_def nth_splice)
  from this [of 0] this [of 1] this [of 2] this [of 3]
  show ?thesis
    using le32_byte_of [of w] by (simp add: get32_def bytes32_def eval_nat_numeral del: le32_byte_of)
qed

lemma get32_put32_other [simp]:
  "k + 4 \<le> length bs \<Longrightarrow> j + 4 \<le> length bs \<Longrightarrow> j + 4 \<le> k \<or> k + 4 \<le> j \<Longrightarrow>
    get32 (put32 bs k w) j = get32 bs j"
  by (auto simp: get32_def put32_def nth_splice)

subsection \<open>Signed reading of a machine word\<close>

lemma sint32: "sint (x :: u32) = (if uint x < 2 ^ 31 then uint x else uint x - 2 ^ 32)"
proof -
  have b: "bit (uint x) 31 \<longleftrightarrow> 2 ^ 31 \<le> uint x"
  proof -
    have lt: "uint x < 2 ^ 32" using uint_lt2p [of x] by simp
    have "bit (uint x) 31 \<longleftrightarrow> odd (uint x div 2 ^ 31)" by (simp add: bit_iff_odd)
    moreover have "uint x div 2 ^ 31 = (if 2 ^ 31 \<le> uint x then 1 else 0)"
      using lt uint_ge_0 [of x] by (auto simp: div_pos_pos_trivial intro: div_pos_geq) 
    ultimately show ?thesis by simp
  qed
  have "sint x = signed_take_bit 31 (uint x)" by (simp add: sint_uint)
  also have "\<dots> = uint x - 2 ^ 32 * of_bool (bit (uint x) 31)"
    using uint_lt2p [of x] signed_take_bit_eq_take_bit_minus [of 31 "uint x"] by (simp add: take_bit_int_eq_self uint_ge_0)
  finally show ?thesis using b by auto
qed

end
