(* ===== verification/CMem.thy ===== *)
theory CMem
  imports Xv6_Prelude
begin

text \<open>
  Byte memory and the C string library of the kernel, \<^verbatim>\<open>string.c\<close>, over it. Memory is a
  total map from 32-bit addresses to bytes; pointer arithmetic is word arithmetic and
  wraps. The loops of \<^verbatim>\<open>string.c\<close> count \<^verbatim>\<open>n\<close> down and are recursions on the count. The
  lemmas show the closed form of each routine: \<open>memset\<close> and \<open>memmove\<close> as block updates
  (overlapping regions included), \<open>strncpy\<close> and \<open>safestrcpy\<close> as what they leave in the
  destination, \<open>strncmp\<close> as a comparison of the two names.
\<close>

unbundle bit_operations_syntax

type_synonym memory = "u32 \<Rightarrow> u8"

subsection \<open>32-bit loads and stores\<close>

definition load32 :: "memory \<Rightarrow> u32 \<Rightarrow> u32" where
  "load32 m a = le32 (m a) (m (a + 1)) (m (a + 2)) (m (a + 3))"

definition store32 :: "memory \<Rightarrow> u32 \<Rightarrow> u32 \<Rightarrow> memory" where
  "store32 m a w =
     m(a := byte_of 0 w, a + 1 := byte_of 1 w, a + 2 := byte_of 2 w, a + 3 := byte_of 3 w)"

lemma add_numeral_neq:
  "(a :: u32) + 1 \<noteq> a" "a + 2 \<noteq> a" "a + 3 \<noteq> a" "a + 1 \<noteq> a + 2" "a + 1 \<noteq> a + 3"
  "a + 2 \<noteq> a + 3" "a \<noteq> a + 1" "a \<noteq> a + 2" "a \<noteq> a + 3" "a + 2 \<noteq> a + 1" "a + 3 \<noteq> a + 1"
  "a + 3 \<noteq> a + 2"
  by simp_all

lemma load32_store32_same [simp]: "load32 (store32 m a w) a = w"
  by (simp add: load32_def store32_def)

lemma store32_apply:
  "store32 m a w x = (if x - a < 4 then byte_of (unat (x - a)) w else m x)"
proof -
  consider "x = a" | "x = a + 1" | "x = a + 2" | "x = a + 3"
    | "x \<noteq> a" "x \<noteq> a + 1" "x \<noteq> a + 2" "x \<noteq> a + 3"
    by blast
  then show ?thesis
  proof cases
    case 5
    have "\<not> x - a < 4"
    proof
      assume "x - a < 4"
      then have "unat (x - a) < 4" by (simp add: word_less_nat_alt)
      then consider "unat (x - a) = 0" | "unat (x - a) = 1" | "unat (x - a) = 2" | "unat (x - a) = 3"
        by linarith
      then have "x - a = 0 \<or> x - a = 1 \<or> x - a = 2 \<or> x - a = 3"
        by cases (simp_all add: word_unat_eq_iff)
      with 5 show False by (auto simp: diff_eq_eq add.commute)
    qed
    with 5 show ?thesis by (simp add: store32_def)
  qed (simp_all add: store32_def)
qed

lemma store32_outside: "\<not> x - a < 4 \<Longrightarrow> store32 m a w x = m x"
  by (simp add: store32_apply)

lemma load32_cong:
  assumes "\<And>i. i < 4 \<Longrightarrow> m (a + i) = m' (a + i)"
  shows "load32 m a = load32 m' a"
  using assms [of 0] assms [of 1] assms [of 2] assms [of 3] by (simp add: load32_def)

subsection \<open>memset\<close>

text \<open>The string instructions of \<^verbatim>\<open>x86.h\<close>: store a byte, or a word, \<open>cnt\<close> times.\<close>

fun stosb :: "u32 \<Rightarrow> u8 \<Rightarrow> nat \<Rightarrow> memory \<Rightarrow> memory" where
  "stosb addr data 0 m = m"
| "stosb addr data (Suc cnt) m = stosb (addr + 1) data cnt (m(addr := data))"

fun stosl :: "u32 \<Rightarrow> u32 \<Rightarrow> nat \<Rightarrow> memory \<Rightarrow> memory" where
  "stosl addr data 0 m = m"
| "stosl addr data (Suc cnt) m = stosl (addr + 4) data cnt (store32 m addr data)"

definition memset :: "u32 \<Rightarrow> u32 \<Rightarrow> u32 \<Rightarrow> memory \<Rightarrow> memory" where
  "memset dst c n m =
     (if dst mod 4 = 0 \<and> n mod 4 = 0
      then let c' = c AND 0xFF
           in stosl dst (push_bit 24 c' OR push_bit 16 c' OR push_bit 8 c' OR c') (unat (n div 4)) m
      else stosb dst (ucast c) (unat n) m)"

lemma unat_pred: "(y :: u32) \<noteq> 0 \<Longrightarrow> unat (y - 1) = unat y - 1"
  by (simp add: unat_minus_one)

lemma stosb_apply: "stosb a d k m x = (if unat (x - a) < k then d else m x)"
proof (induction k arbitrary: a m)
  case 0
  then show ?case by simp
next
  case (Suc k)
  show ?case
  proof (cases "x = a")
    case True
    then show ?thesis unfolding stosb.simps Suc.IH by simp
  next
    case False
    then have "x - a \<noteq> 0" by simp
    then have "unat (x - a - 1) = unat (x - a) - 1" "0 < unat (x - a)"
      by (simp_all add: unat_pred unat_gt_0)
    then have "unat (x - (a + 1)) < k \<longleftrightarrow> unat (x - a) < Suc k"
      by (simp add: diff_diff_eq) linarith
    with False show ?thesis unfolding stosb.simps Suc.IH by simp
  qed
qed

lemma stosl_eq_stosb:
  assumes "byte_of 0 w = b" "byte_of 1 w = b" "byte_of 2 w = b" "byte_of 3 w = b"
  shows "stosl a w k m = stosb a b (4 * k) m"
proof (induction k arbitrary: a m)
  case 0
  then show ?case by simp
next
  case (Suc k)
  have four: "4 * Suc k = Suc (Suc (Suc (Suc (4 * k))))" by simp
  show ?case
    unfolding four stosb.simps stosl.simps Suc.IH store32_def assms by (simp add: add.assoc)
qed

lemma memset_word_bytes:
  fixes c :: u32
  assumes "k < 4"
  shows "byte_of k (push_bit 24 (c AND 0xFF) OR push_bit 16 (c AND 0xFF) OR push_bit 8 (c AND 0xFF)
    OR (c AND 0xFF)) = ucast c"
proof (rule bit_word_eqI)
  have ff: "c AND 0xFF = take_bit 8 c"
    by (simp add: take_bit_eq_mask mask_eq_exp_minus_1)
  fix n assume n: "n < LENGTH(8)"
  from assms consider "k = 0" | "k = 1" | "k = 2" | "k = 3" by linarith
  then show "bit (byte_of k (push_bit 24 (c AND 0xFF) OR push_bit 16 (c AND 0xFF)
      OR push_bit 8 (c AND 0xFF) OR (c AND 0xFF))) n = bit (ucast c :: u8) n"
    using n unfolding ff
    by cases (simp_all add: byte_of_def bit_ucast_iff bit_drop_bit_eq bit_or_iff
        bit_push_bit_iff bit_take_bit_iff)
qed

lemma memset_apply: "memset dst c n m x = (if x - dst < n then ucast c else m x)"
proof (cases "dst mod 4 = 0 \<and> n mod 4 = 0")
  case True
  have n4: "4 * unat (n div 4) = unat n"
  proof -
    from True have "unat n mod 4 = 0" by (simp add: word_unat_eq_iff unat_mod_distrib)
    then have "4 * (unat n div 4) = unat n" by auto
    then show ?thesis by (simp add: unat_div_distrib)
  qed
  have "memset dst c n m = stosb dst (ucast c) (4 * unat (n div 4)) m"
    using True unfolding memset_def Let_def
    by (simp only: if_True simp_thms) (rule stosl_eq_stosb; rule memset_word_bytes; simp)
  then show ?thesis by (simp add: n4 stosb_apply word_less_nat_alt)
next
  case False
  then have "memset dst c n m = stosb dst (ucast c) (unat n) m"
    by (simp only: memset_def if_False)
  then show ?thesis by (simp add: stosb_apply word_less_nat_alt)
qed

subsection \<open>memcmp and memmove\<close>

fun memcmp_loop :: "nat \<Rightarrow> u32 \<Rightarrow> u32 \<Rightarrow> memory \<Rightarrow> int" where
  "memcmp_loop 0 s1 s2 m = 0"
| "memcmp_loop (Suc n) s1 s2 m =
     (if m s1 \<noteq> m s2 then uint (m s1) - uint (m s2) else memcmp_loop n (s1 + 1) (s2 + 1) m)"

definition memcmp :: "u32 \<Rightarrow> u32 \<Rightarrow> u32 \<Rightarrow> memory \<Rightarrow> int" where
  "memcmp v1 v2 n m = memcmp_loop (unat n) v1 v2 m"

fun copy_up :: "nat \<Rightarrow> u32 \<Rightarrow> u32 \<Rightarrow> memory \<Rightarrow> memory" where
  "copy_up 0 d s m = m"
| "copy_up (Suc n) d s m = copy_up n (d + 1) (s + 1) (m(d := m s))"

fun copy_down :: "nat \<Rightarrow> u32 \<Rightarrow> u32 \<Rightarrow> memory \<Rightarrow> memory" where
  "copy_down 0 d s m = m"
| "copy_down (Suc n) d s m = copy_down n (d - 1) (s - 1) (m(d - 1 := m (s - 1)))"

definition memmove :: "u32 \<Rightarrow> u32 \<Rightarrow> u32 \<Rightarrow> memory \<Rightarrow> memory" where
  "memmove dst src n m =
     (if src < dst \<and> src + n > dst then copy_down (unat n) (dst + n) (src + n) m
      else copy_up (unat n) dst src m)"

definition memcpy :: "u32 \<Rightarrow> u32 \<Rightarrow> u32 \<Rightarrow> memory \<Rightarrow> memory" where
  "memcpy dst src n m = memmove dst src n m"

lemma memcmp_loop_0_iff:
  "memcmp_loop n s1 s2 m = 0 \<longleftrightarrow> (\<forall>i < n. m (s1 + of_nat i) = m (s2 + of_nat i))"
proof (induction n arbitrary: s1 s2)
  case 0
  then show ?case by simp
next
  case (Suc n)
  have "(\<forall>i < Suc n. m (s1 + of_nat i) = m (s2 + of_nat i)) \<longleftrightarrow>
    m s1 = m s2 \<and> (\<forall>i < n. m (s1 + 1 + of_nat i) = m (s2 + 1 + of_nat i))"
    by (auto simp: less_Suc_eq_0_disj add.assoc)
  then show ?case using Suc.IH by (auto simp: word_uint_eq_iff)
qed

lemma unat_Suc_word: "unat (a :: u32) + 1 < 2 ^ 32 \<Longrightarrow> unat (a + 1) = unat a + 1"
  by (simp add: unat_word_ariths)

lemma unat_offset:
  "unat (a :: u32) \<le> unat x \<Longrightarrow> unat s + (unat x - unat a) < 2 ^ 32 \<Longrightarrow>
    unat (s + (x - a)) = unat s + (unat x - unat a)"
  by (simp add: unat_word_ariths unat_sub word_le_nat_alt)

lemma copy_up_apply:
  assumes "unat d + n \<le> 2 ^ 32" "unat s + n \<le> 2 ^ 32"
    "unat d \<le> unat s \<or> unat s + n \<le> unat d"
  shows "copy_up n d s m x =
    (if unat d \<le> unat x \<and> unat x < unat d + n then m (s + (x - d)) else m x)"
  using assms
proof (induction n arbitrary: d s m)
  case 0
  then show ?case by auto
next
  case (Suc n)
  show ?case
  proof (cases n)
    case 0
    show ?thesis using 0 word_unat_eq_iff [of x d] by (cases "x = d") auto
  next
    case (Suc k)
    with Suc.prems have d1: "unat (d + 1) = unat d + 1" and s1: "unat (s + 1) = unat s + 1"
      by (simp_all add: unat_Suc_word)
    have ih: "copy_up n (d + 1) (s + 1) (m(d := m s)) x =
      (if unat d + 1 \<le> unat x \<and> unat x < unat d + 1 + n
       then (m(d := m s)) (s + (x - d)) else (m(d := m s)) x)"
      by (subst Suc.IH) (use Suc.prems d1 s1 in auto)
    show ?thesis
    proof (cases "unat d + 1 \<le> unat x \<and> unat x < unat d + 1 + n")
      case True
      then have off: "unat (s + (x - d)) = unat s + (unat x - unat d)"
        using Suc.prems by (intro unat_offset) auto
      have "s + (x - d) \<noteq> d"
      proof
        assume "s + (x - d) = d"
        with off have "unat d = unat s + (unat x - unat d)" by simp
        with Suc.prems(3) True show False by linarith
      qed
      with ih True show ?thesis by simp
    next
      case False
      show ?thesis
      proof (cases "x = d")
        case True
        with False ih show ?thesis by simp
      next
        case neq: False
        then have "unat x \<noteq> unat d" by (simp add: word_unat_eq_iff)
        with False have "\<not> (unat d \<le> unat x \<and> unat x < unat d + Suc n)" by linarith
        with False ih neq show ?thesis by auto
      qed
    qed
  qed
qed

lemma copy_down_apply:
  assumes "n \<le> unat d" "n \<le> unat s" "unat s \<le> unat d \<or> unat d + n \<le> unat s"
  shows "copy_down n d s m x =
    (if unat d - n \<le> unat x \<and> unat x < unat d then m (s + (x - d)) else m x)"
  using assms
proof (induction n arbitrary: d s m)
  case 0
  then show ?case by auto
next
  case (Suc n)
  then have d1: "unat (d - 1) = unat d - 1" and s1: "unat (s - 1) = unat s - 1"
    by (cases "d = 0"; cases "s = 0"; simp add: unat_pred)+
  have ih: "copy_down n (d - 1) (s - 1) (m(d - 1 := m (s - 1))) x =
    (if unat d - 1 - n \<le> unat x \<and> unat x < unat d - 1
     then (m(d - 1 := m (s - 1))) (s + (x - d)) else (m(d - 1 := m (s - 1))) x)"
    by (subst Suc.IH) (use Suc.prems d1 s1 in auto)
  show ?case
  proof (cases "unat d - 1 - n \<le> unat x \<and> unat x < unat d - 1")
    case True
    then have dx: "unat (d - x) = unat d - unat x"
      by (intro unat_sub) (auto simp: word_le_nat_alt)
    then have off: "unat (s - (d - x)) = unat s - (unat d - unat x)"
      using True Suc.prems by (subst unat_sub) (auto simp: word_le_nat_alt)
    have "s + (x - d) \<noteq> d - 1"
    proof
      assume "s + (x - d) = d - 1"
      then have "s - (d - x) = d - 1" by (simp add: algebra_simps)
      with off d1 have "unat d - 1 = unat s - (unat d - unat x)" by simp
      with Suc.prems True show False by linarith
    qed
    with ih True show ?thesis by auto
  next
    case False
    show ?thesis
    proof (cases "x = d - 1")
      case True
      with False ih d1 Suc.prems show ?thesis by auto
    next
      case neq: False
      then have "unat x \<noteq> unat d - 1" using d1 by (metis word_unat_eq_iff)
      with False have "\<not> (unat d - Suc n \<le> unat x \<and> unat x < unat d)" by linarith
      with False ih neq show ?thesis by auto
    qed
  qed
qed

lemma in_block_iff:
  "unat (a :: u32) + unat n \<le> 2 ^ 32 \<Longrightarrow>
    x - a < n \<longleftrightarrow> unat a \<le> unat x \<and> unat x < unat a + unat n"
proof -
  assume le: "unat a + unat n \<le> 2 ^ 32"
  show ?thesis
  proof (cases "a \<le> x")
    case True
    then have "unat (x - a) = unat x - unat a" by (rule unat_sub)
    moreover have "unat a \<le> unat x" using True by (simp add: word_le_nat_alt)
    ultimately show ?thesis by (auto simp: word_less_nat_alt)
  next
    case False
    then have lt: "unat x < unat a" by (simp add: word_le_nat_alt)
    then have "unat (x - a) = unat x + 2 ^ 32 - unat a"
      by (simp add: unat_sub_if')
    with lt le have "\<not> unat (x - a) < unat n" by linarith
    with lt show ?thesis by (simp add: word_less_nat_alt)
  qed
qed

lemma memmove_apply:
  assumes "unat dst + unat n < 2 ^ 32" "unat src + unat n < 2 ^ 32"
  shows "memmove dst src n m x = (if x - dst < n then m (src + (x - dst)) else m x)"
proof -
  have src_n: "unat (src + n) = unat src + unat n"
    and dst_n: "unat (dst + n) = unat dst + unat n"
    using assms by (simp_all add: unat_word_ariths)
  have block: "x - dst < n \<longleftrightarrow> unat dst \<le> unat x \<and> unat x < unat dst + unat n"
    using assms by (intro in_block_iff) simp
  show ?thesis
  proof (cases "src < dst \<and> src + n > dst")
    case True
    then have lt: "unat src < unat dst" "unat dst < unat src + unat n"
      using src_n by (simp_all add: word_less_nat_alt)
    have "copy_down (unat n) (dst + n) (src + n) m x =
      (if unat dst \<le> unat x \<and> unat x < unat dst + unat n
       then m (src + n + (x - (dst + n))) else m x)"
      using lt src_n dst_n by (subst copy_down_apply) auto
    moreover have "src + n + (x - (dst + n)) = src + (x - dst)" by (simp add: algebra_simps)
    ultimately show ?thesis
      using True block by (simp add: memmove_def)
  next
    case False
    then have "unat dst \<le> unat src \<or> unat src + unat n \<le> unat dst"
      using src_n by (auto simp: word_less_nat_alt not_less)
    then have "copy_up (unat n) dst src m x =
      (if unat dst \<le> unat x \<and> unat x < unat dst + unat n then m (src + (x - dst)) else m x)"
      using assms by (intro copy_up_apply) auto
    moreover have "memmove dst src n m = copy_up (unat n) dst src m"
      using False by (simp only: memmove_def if_False)
    ultimately show ?thesis using block by simp
  qed
qed

subsection \<open>String routines\<close>

fun strncmp_loop :: "nat \<Rightarrow> u32 \<Rightarrow> u32 \<Rightarrow> memory \<Rightarrow> int" where
  "strncmp_loop 0 p q m = 0"
| "strncmp_loop (Suc n) p q m =
     (if m p \<noteq> 0 \<and> m p = m q then strncmp_loop n (p + 1) (q + 1) m
      else uint (m p) - uint (m q))"

definition strncmp :: "u32 \<Rightarrow> u32 \<Rightarrow> u32 \<Rightarrow> memory \<Rightarrow> int" where
  "strncmp p q n m = strncmp_loop (unat n) p q m"

text \<open>First loop of \<open>strncpy\<close>: copies up to and including the NUL; returns what is left of \<^verbatim>\<open>n\<close>.\<close>

fun strncpy_copy :: "nat \<Rightarrow> u32 \<Rightarrow> u32 \<Rightarrow> memory \<Rightarrow> nat \<times> u32 \<times> memory" where
  "strncpy_copy 0 s t m = (0, s, m)"
| "strncpy_copy (Suc n) s t m =
     (if m t \<noteq> 0 then strncpy_copy n (s + 1) (t + 1) (m(s := m t))
      else (n, s + 1, m(s := m t)))"

definition strncpy :: "u32 \<Rightarrow> u32 \<Rightarrow> int \<Rightarrow> memory \<Rightarrow> memory" where
  "strncpy s t n m = (let (k, s', m') = strncpy_copy (nat n) s t m in stosb s' 0 k m')"

fun safestrcpy_copy :: "nat \<Rightarrow> u32 \<Rightarrow> u32 \<Rightarrow> memory \<Rightarrow> u32 \<times> memory" where
  "safestrcpy_copy 0 s t m = (s, m)"
| "safestrcpy_copy (Suc n) s t m =
     (if m t \<noteq> 0 then safestrcpy_copy n (s + 1) (t + 1) (m(s := m t))
      else (s + 1, m(s := m t)))"

definition safestrcpy :: "u32 \<Rightarrow> u32 \<Rightarrow> int \<Rightarrow> memory \<Rightarrow> memory" where
  "safestrcpy s t n m =
     (if n \<le> 0 then m
      else let (s', m') = safestrcpy_copy (nat n - 1) s t m in m'(s' := 0))"

partial_function (option) strlen_loop :: "u32 \<Rightarrow> memory \<Rightarrow> int \<Rightarrow> int option" where
  "strlen_loop s m n =
     (if m (s + word_of_int n) \<noteq> 0 then strlen_loop s m (n + 1) else Some n)"

definition strlen :: "u32 \<Rightarrow> memory \<Rightarrow> int option" where
  "strlen s m = strlen_loop s m 0"

text \<open>
  The bytes of an array in memory, the name an array of \<open>n\<close> chars holds (up to its first
  NUL), and \<open>strncmp\<close> on arrays held by value. An array read past its end reads NUL; the
  callers' arrays are at least \<open>n\<close> long or hold a NUL.
\<close>

definition bytes_at :: "memory \<Rightarrow> u32 \<Rightarrow> nat \<Rightarrow> u8 list" where
  "bytes_at m p n = map (\<lambda>i. m (p + of_nat i)) [0..<n]"

definition cname :: "nat \<Rightarrow> u8 list \<Rightarrow> u8 list" where
  "cname n xs = takeWhile (\<lambda>c. c \<noteq> 0) (take n xs)"

definition cdef :: "u8 list \<Rightarrow> u8" where
  "cdef xs = (case xs of [] \<Rightarrow> 0 | x # _ \<Rightarrow> x)"

fun strncmp_l :: "nat \<Rightarrow> u8 list \<Rightarrow> u8 list \<Rightarrow> int" where
  "strncmp_l 0 p q = 0"
| "strncmp_l (Suc n) p q =
     (if cdef p \<noteq> 0 \<and> cdef p = cdef q then strncmp_l n (tl p) (tl q)
      else uint (cdef p) - uint (cdef q))"

lemma length_bytes_at [simp]: "length (bytes_at m p n) = n"
  by (simp add: bytes_at_def)

lemma bytes_at_0 [simp]: "bytes_at m p 0 = []"
  by (simp add: bytes_at_def)

lemma bytes_at_Suc: "bytes_at m p (Suc n) = m p # bytes_at m (p + 1) n"
  by (simp add: bytes_at_def upt_conv_Cons map_Suc_upt [symmetric] add.assoc del: upt_Suc)

lemma nth_bytes_at [simp]: "i < n \<Longrightarrow> bytes_at m p n ! i = m (p + of_nat i)"
  by (simp add: bytes_at_def)

lemma bytes_at_cong:
  "(\<And>i. i < n \<Longrightarrow> m (p + of_nat i) = m' (p + of_nat i)) \<Longrightarrow> bytes_at m p n = bytes_at m' p n"
  by (simp add: bytes_at_def)

lemma strncmp_by_value: "strncmp p q n m = strncmp_l (unat n) (bytes_at m p (unat n)) (bytes_at m q (unat n))"
proof -
  have "strncmp_loop k p q m = strncmp_l k (bytes_at m p k) (bytes_at m q k)" for k
    by (induction k arbitrary: p q) (simp_all add: bytes_at_Suc cdef_def)
  then show ?thesis by (simp add: strncmp_def)
qed

lemma strncmp_l_0_iff: "strncmp_l n p q = 0 \<longleftrightarrow> cname n p = cname n q"
proof (induction n arbitrary: p q)
  case 0
  then show ?case by (simp add: cname_def)
next
  case (Suc n)
  show ?case
    by (cases p; cases q) (auto simp: Suc.IH cname_def cdef_def word_uint_eq_iff)
qed

lemma strncmp_zero_iff:
  "strncmp p q n m = 0 \<longleftrightarrow> cname (unat n) (bytes_at m p (unat n)) = cname (unat n) (bytes_at m q (unat n))"
  by (simp add: strncmp_by_value strncmp_l_0_iff)

lemma strncpy_outside:
  "\<not> unat (x - s) < n \<Longrightarrow> n \<le> 2 ^ 32 \<Longrightarrow>
    (let (k, s', m') = strncpy_copy n s t m in stosb s' 0 k m') x = m x"
proof (induction n arbitrary: s t m)
  case 0
  then show ?case by simp
next
  case (Suc n)
  then have xs: "x \<noteq> s" by auto
  then have "unat (x - s - 1) = unat (x - s) - 1" by (simp add: unat_pred)
  then have "\<not> unat (x - (s + 1)) < n" using Suc.prems by (simp add: diff_diff_eq)
  with Suc xs show ?case by (auto simp: stosb_apply Let_def)
qed

lemma unat_pred_self: "unat ((s :: u32) - (s + 1)) = 2 ^ 32 - 1"
  using unat_sub_if' [of s "s + 1"] unat_sub_if' [of 0 "1 :: u32"] by simp

lemma strncpy_bytes:
  assumes "n \<le> 2 ^ 31" "\<And>i j. i < nat n \<Longrightarrow> j < nat n \<Longrightarrow> s + of_nat i \<noteq> t + of_nat j"
  shows "bytes_at (strncpy s t n m) s (nat n) =
    (let c = cname (nat n) (bytes_at m t (nat n)) in c @ replicate (nat n - length c) 0)"
proof -
  have "bytes_at (let (k, s', m') = strncpy_copy n s t m in stosb s' 0 k m') s n =
    (let c = cname n (bytes_at m t n) in c @ replicate (n - length c) 0)"
    if "n \<le> 2 ^ 31" "\<And>i j. i < n \<Longrightarrow> j < n \<Longrightarrow> s + of_nat i \<noteq> t + of_nat j" for n
    using that
  proof (induction n arbitrary: s t m)
    case 0
    then show ?case by (simp add: cname_def)
  next
    case (Suc n)
    let ?m = "m(s := m t)"
    have lt: "\<not> unat (s - (s + 1)) < n" using Suc.prems unat_pred_self [of s] by simp
    have src: "bytes_at ?m (t + 1) n = bytes_at m (t + 1) n"
    proof (rule bytes_at_cong)
      fix i assume "i < n"
      then show "?m (t + 1 + of_nat i) = m (t + 1 + of_nat i)"
        using Suc.prems(2) [of 0 "Suc i"] by (simp add: add.assoc)
    qed
    show ?case
    proof (cases "m t = 0")
      case True
      have "bytes_at (stosb (s + 1) 0 n ?m) (s + 1) n = replicate n 0"
        by (rule nth_equalityI) (use Suc.prems(1) in \<open>auto simp: stosb_apply unat_of_nat\<close>)
      moreover have "stosb (s + 1) 0 n ?m s = 0"
        using True lt by (simp only: stosb_apply fun_upd_same if_False)
      ultimately show ?thesis
        using True by (simp add: bytes_at_Suc cname_def)
    next
      case False
      have "bytes_at (let (k, s', m') = strncpy_copy n (s + 1) (t + 1) ?m in stosb s' 0 k m') (s + 1) n
        = (let c = cname n (bytes_at m (t + 1) n) in c @ replicate (n - length c) 0)"
        unfolding src [symmetric]
      proof (rule Suc.IH)
        show "n \<le> 2 ^ 31" using Suc.prems(1) by simp
        fix i j assume "i < n" "j < n"
        then show "s + 1 + of_nat i \<noteq> t + 1 + of_nat j"
          using Suc.prems(2) [of "Suc i" "Suc j"] by (simp add: add.assoc)
      qed
      moreover have "(let (k, s', m') = strncpy_copy n (s + 1) (t + 1) ?m in stosb s' 0 k m') s = m t"
        using strncpy_outside [OF lt] Suc.prems(1) by simp
      ultimately show ?thesis
        using False by (simp add: bytes_at_Suc cname_def Let_def)
    qed
  qed
  from this [of "nat n"] assms show ?thesis by (simp add: strncpy_def)
qed

lemma safestrcpy_copy_bytes:
  assumes "n < 2 ^ 31" "\<And>i j. i \<le> n \<Longrightarrow> j \<le> n \<Longrightarrow> s + of_nat i \<noteq> t + of_nat j"
    "safestrcpy_copy n s t m = (s', m')"
  shows "bytes_at m' s (length (cname n (bytes_at m t n))) = cname n (bytes_at m t n) \<and>
    (s' = s + of_nat (length (cname n (bytes_at m t n))) \<or>
     s' = s + of_nat (Suc (length (cname n (bytes_at m t n)))) \<and>
     m' (s + of_nat (length (cname n (bytes_at m t n)))) = 0) \<and>
    (\<forall>x. \<not> unat (x - s) < n \<longrightarrow> m' x = m x)"
  using assms
proof (induction n arbitrary: s t m)
  case 0
  then show ?case by (simp add: cname_def)
next
  case (Suc n)
  let ?m = "m(s := m t)"
  have out: "\<not> unat (x - (s + 1)) < n" "x \<noteq> s" if "\<not> unat (x - s) < Suc n" for x
  proof -
    show xs: "x \<noteq> s" using that by auto
    then have "unat (x - s - 1) = unat (x - s) - 1" by (simp add: unat_pred)
    then show "\<not> unat (x - (s + 1)) < n" using that by (simp add: diff_diff_eq)
  qed
  show ?case
  proof (cases "m t = 0")
    case True
    with Suc.prems(3) out show ?thesis by (auto simp: bytes_at_Suc cname_def)
  next
    case False
    let ?c = "cname n (bytes_at m (t + 1) n)"
    have src: "bytes_at ?m (t + 1) n = bytes_at m (t + 1) n"
    proof (rule bytes_at_cong)
      fix i assume "i < n"
      then show "?m (t + 1 + of_nat i) = m (t + 1 + of_nat i)"
        using Suc.prems(2) [of 0 "Suc i"] by (simp add: add.assoc)
    qed
    have ne: "s + 1 + of_nat i \<noteq> t + 1 + of_nat j" if "i \<le> n" "j \<le> n" for i j
      using Suc.prems(2) [of "Suc i" "Suc j"] that by (simp add: add.assoc)
    have rec: "safestrcpy_copy n (s + 1) (t + 1) ?m = (s', m')"
      using Suc.prems(3) False by simp
    have "n < 2 ^ 31" using Suc.prems(1) by simp
    note ih = Suc.IH [OF this ne rec, unfolded src]
    have "m' s = m t"
      using ih unat_pred_self [of s] Suc.prems(1) by auto
    moreover have "cname (Suc n) (bytes_at m t (Suc n)) = m t # ?c"
      using False by (simp add: bytes_at_Suc cname_def)
    ultimately show ?thesis
      using ih out by (auto simp: bytes_at_Suc add.assoc)
  qed
qed

lemma safestrcpy_string:
  assumes "0 < n" "n < 2 ^ 31"
    "\<And>i j. i < nat n \<Longrightarrow> j < nat n \<Longrightarrow> s + of_nat i \<noteq> t + of_nat j"
  shows "cname (nat n) (bytes_at (safestrcpy s t n m) s (nat n)) =
    cname (nat n - 1) (bytes_at m t (nat n - 1))"
proof -
  obtain k where k: "nat n = Suc k" using assms(1) by (metis Suc_pred' zero_less_nat_eq)
  obtain s' m' where eq: "safestrcpy_copy k s t m = (s', m')" by fastforce
  let ?c = "cname k (bytes_at m t k)"
  have lenc: "length ?c \<le> k"
    using length_takeWhile_le [of "\<lambda>c. c \<noteq> 0" "bytes_at m t k"] by (simp add: cname_def)
  have k31: "k < 2 ^ 31" using assms(1,2) k by (simp add: nat_eq_iff)
  have fact: "bytes_at m' s (length ?c) = ?c \<and>
    (s' = s + of_nat (length ?c) \<or> s' = s + of_nat (Suc (length ?c)) \<and> m' (s + of_nat (length ?c)) = 0)"
    using safestrcpy_copy_bytes [OF k31 _ eq] assms(3) k by (auto simp: less_Suc_eq_le)
  let ?r = "m'(s' := 0)"
  have nz: "\<forall>x \<in> set ?c. x \<noteq> 0"
    by (auto simp: cname_def dest: set_takeWhileD)
  have keep: "?r (s + of_nat i) = m' (s + of_nat i)" if "i < length ?c" for i
  proof -
    have "s + of_nat i \<noteq> s + (of_nat j :: u32)" if "i < j" "j \<le> Suc k" for j
    proof -
      from that k31 have "unat (of_nat i :: u32) = i" "unat (of_nat j :: u32) = j"
        by (simp_all add: unat_of_nat)
      with that show ?thesis by (metis add_left_cancel less_irrefl)
    qed
    from this [of "length ?c"] this [of "Suc (length ?c)"] that lenc fact show ?thesis by auto
  qed
  have pre: "bytes_at ?r s (length ?c) = ?c"
    using keep fact by (metis (no_types, lifting) bytes_at_cong)
  have zero: "?r (s + of_nat (length ?c)) = 0" using fact by auto
  have split: "bytes_at ?r s (Suc k) = ?c @ 0 # drop (Suc (length ?c)) (bytes_at ?r s (Suc k))"
  proof -
    have lt: "length ?c < length (bytes_at ?r s (Suc k))" using lenc by simp
    have "take (length ?c) (bytes_at ?r s (Suc k)) = bytes_at ?r s (length ?c)"
      using lenc by (intro nth_equalityI) auto
    then show ?thesis
      using id_take_nth_drop [OF lt] pre zero lenc by simp
  qed
  have "cname (Suc k) (bytes_at ?r s (Suc k)) = takeWhile (\<lambda>c. c \<noteq> 0) (bytes_at ?r s (Suc k))"
    by (simp add: cname_def)
  also have "\<dots> = ?c"
    using nz by (subst split) (simp add: takeWhile_append2)
  finally have "cname (Suc k) (bytes_at ?r s (Suc k)) = ?c" .
  then show ?thesis using k eq assms(1) by (simp add: safestrcpy_def)
qed

lemma strlen_first_nul:
  assumes "m (s + of_nat k) = 0" "\<And>i. i < k \<Longrightarrow> m (s + of_nat i) \<noteq> 0"
  shows "strlen s m = Some (int k)"
proof -
  have "strlen_loop s m (int i) = Some (int k)" if "i \<le> k" for i
    using that
  proof (induction rule: inc_induct)
    case base
    show ?case using assms(1) by (subst strlen_loop.simps) simp
  next
    case (step i)
    have "m (s + word_of_int (int i)) \<noteq> 0" using assms(2) [OF step.hyps(2)] by simp
    then have "strlen_loop s m (int i) = strlen_loop s m (int (Suc i))"
      by (subst strlen_loop.simps) (simp add: add.commute)
    with step.IH show ?case by simp
  qed
  from this [of 0] show ?thesis by (simp add: strlen_def)
qed

text \<open>C2: \<^verbatim>\<open>memmove\<close> copies correctly whatever the overlap. For blocks that do not run past the
  end of the address space, the destination afterwards holds the bytes the source held before,
  also when the two blocks overlap in either direction, and no other byte changes.\<close>

theorem memmove_correct:
  assumes "unat dst + unat n < 2 ^ 32" "unat src + unat n < 2 ^ 32"
  shows "bytes_at (memmove dst src n m) dst (unat n) = bytes_at m src (unat n) \<and>
    (\<forall>x. \<not> x - dst < n \<longrightarrow> memmove dst src n m x = m x)"
proof -
  have "memmove dst src n m (dst + of_nat i) = m (src + of_nat i)" if "i < unat n" for i
  proof -
    have "i < 2 ^ 32" using that unsigned_less [where 'a = nat and w = n] by simp
    then have "of_nat i < n" using that by (simp add: word_less_nat_alt unat_of_nat)
    then show ?thesis by (simp add: memmove_apply [OF assms])
  qed
  then show ?thesis
    by (auto intro: nth_equalityI simp: memmove_apply [OF assms])
qed

theorem memmove_correct_witness:
  "bytes_at (memmove 0x1002 0x1000 4 ucast) 0x1002 (unat (4 :: u32)) = bytes_at ucast 0x1000 4"
  using memmove_correct [of "0x1002" 4 "0x1000" ucast] by simp

end
