(* ===== verification/Spinlock.thy ===== *)
theory Spinlock
  imports CMem
begin

text \<open>
  CPUs, interrupt masking and spin locks: \<^verbatim>\<open>spinlock.c\<close> and the CPU identification of
  \<^verbatim>\<open>proc.c\<close>. The state names the executing CPU (\<open>this\<close>) and keeps every CPU's interrupt
  flag; \<open>lapic_id\<close> is what \<^verbatim>\<open>lapicid()\<close> reads on each CPU. \<^verbatim>\<open>acquire\<close> on a lock that is held
  spins until the holder stores 0; a run that would spin is the outcome \<open>Block\<close>. The
  call stack \<^verbatim>\<open>acquire\<close> records for debugging in \<^verbatim>\<open>lk->pcs\<close> is not part of the lock's state
  here; \<open>getcallerpcs\<close> itself is modelled at the end.

  Spin locks make the critical sections of the other components atomic: they are modelled
  as single steps. The lemmas here justify it: a lock has one holder, only that CPU releases
  it, and the depth \<^verbatim>\<open>ncli\<close> equals the number of locks a CPU holds.
\<close>

record cpu =
  apicid :: u8
  ncli :: int
  intena :: bool
  cproc :: "nat option"

record spinlock =
  locked :: bool
  lcpu :: "nat option"

record kcpu =
  cpus :: "cpu list"
  ncpu :: nat
  this :: nat
  lapic_id :: "nat \<Rightarrow> u8"
  eflags :: "nat \<Rightarrow> bool"
  locks :: "nat \<Rightarrow> spinlock"

definition readeflags :: "'a kcpu_scheme \<Rightarrow> bool" where
  "readeflags s = eflags s (this s)"

definition cli :: "'a kcpu_scheme \<Rightarrow> 'a kcpu_scheme" where
  "cli s = s\<lparr>eflags := (eflags s)(this s := False)\<rparr>"

definition sti :: "'a kcpu_scheme \<Rightarrow> 'a kcpu_scheme" where
  "sti s = s\<lparr>eflags := (eflags s)(this s := True)\<rparr>"

definition initlock :: "nat \<Rightarrow> 'a kcpu_scheme \<Rightarrow> 'a kcpu_scheme" where
  "initlock lk s = s\<lparr>locks := (locks s)(lk := \<lparr>locked = False, lcpu = None\<rparr>)\<rparr>"

definition mycpu :: "'a kcpu_scheme \<Rightarrow> nat kres" where
  "mycpu s =
     (if readeflags s then Inl (Panic ''mycpu called with interrupts enabled'')
      else case find_index (\<lambda>c. apicid c = lapic_id s (this s)) (take (ncpu s) (cpus s)) of
        Some i \<Rightarrow> Inr i
      | None \<Rightarrow> Inl (Panic ''unknown apicid''))"

definition cpuid :: "'a kcpu_scheme \<Rightarrow> nat kres" where
  "cpuid s = mycpu s"

definition pushcli :: "'a kcpu_scheme \<Rightarrow> 'a kcpu_scheme kres" where
  "pushcli s =
     (let e = readeflags s; s1 = cli s
      in andThen (mycpu s1) (\<lambda>c.
           let cp = cpus s1 ! c;
               cp1 = (if ncli cp = 0 then cp\<lparr>intena := e\<rparr> else cp)
           in Inr (s1\<lparr>cpus := (cpus s1)[c := cp1\<lparr>ncli := ncli cp1 + 1\<rparr>]\<rparr>)))"

definition popcli :: "'a kcpu_scheme \<Rightarrow> 'a kcpu_scheme kres" where
  "popcli s =
     (if readeflags s then Inl (Panic ''popcli - interruptible'')
      else andThen (mycpu s) (\<lambda>c.
        let cp = cpus s ! c;
            n = ncli cp - 1;
            s1 = s\<lparr>cpus := (cpus s)[c := cp\<lparr>ncli := n\<rparr>]\<rparr>
        in if n < 0 then Inl (Panic ''popcli'')
           else if n = 0 \<and> intena cp then Inr (sti s1) else Inr s1))"

definition holding :: "nat \<Rightarrow> 'a kcpu_scheme \<Rightarrow> (bool \<times> 'a kcpu_scheme) kres" where
  "holding lk s =
     andThen (pushcli s) (\<lambda>s.
     andThen (mycpu s) (\<lambda>c.
     let r = locked (locks s lk) \<and> lcpu (locks s lk) = Some c
     in andThen (popcli s) (\<lambda>s. Inr (r, s))))"

definition acquire :: "nat \<Rightarrow> 'a kcpu_scheme \<Rightarrow> 'a kcpu_scheme kres" where
  "acquire lk s =
     andThen (pushcli s) (\<lambda>s.
     andThen (holding lk s) (\<lambda>(h, s).
     if h then Inl (Panic ''acquire'')
     else if locked (locks s lk) then Inl Block
     else let s = s\<lparr>locks := (locks s)(lk := (locks s lk)\<lparr>locked := True\<rparr>)\<rparr>
          in andThen (mycpu s) (\<lambda>c.
               Inr (s\<lparr>locks := (locks s)(lk := (locks s lk)\<lparr>lcpu := Some c\<rparr>)\<rparr>))))"

definition release :: "nat \<Rightarrow> 'a kcpu_scheme \<Rightarrow> 'a kcpu_scheme kres" where
  "release lk s =
     andThen (holding lk s) (\<lambda>(h, s).
     if \<not> h then Inl (Panic ''release'')
     else popcli (s\<lparr>locks := (locks s)(lk := (locks s lk)\<lparr>lcpu := None, locked := False\<rparr>)\<rparr>))"

definition myproc :: "'a kcpu_scheme \<Rightarrow> (nat option \<times> 'a kcpu_scheme) kres" where
  "myproc s =
     andThen (pushcli s) (\<lambda>s.
     andThen (mycpu s) (\<lambda>c.
     let p = cproc (cpus s ! c)
     in andThen (popcli s) (\<lambda>s. Inr (p, s))))"

text \<open>
  The debugging walk of the frame-pointer chain: at most ten frames, stopping at an \<^verbatim>\<open>%ebp\<close>
  below the kernel or at the top of memory; the remaining slots are 0.
\<close>

fun getcallerpcs_loop :: "nat \<Rightarrow> u32 \<Rightarrow> memory \<Rightarrow> u32 list" where
  "getcallerpcs_loop 0 ebp m = []"
| "getcallerpcs_loop (Suc n) ebp m =
     (if ebp = 0 \<or> ebp < KERNBASE \<or> ebp = 0xffffffff then replicate (Suc n) 0
      else load32 m (ebp + 4) # getcallerpcs_loop n (load32 m ebp) m)"

definition getcallerpcs :: "u32 \<Rightarrow> memory \<Rightarrow> u32 list" where
  "getcallerpcs v m = getcallerpcs_loop 10 (v - 8) m"

lemma length_getcallerpcs: "length (getcallerpcs v m) = 10"
proof -
  have "length (getcallerpcs_loop n e m) = n" for n e by (induction n arbitrary: e) auto
  then show ?thesis by (simp add: getcallerpcs_def)
qed

text \<open>Each CPU has its own APIC id, the one its local APIC reports.\<close>

definition cpus_ok :: "'a kcpu_scheme \<Rightarrow> bool" where
  "cpus_ok s \<longleftrightarrow> this s < ncpu s \<and> ncpu s \<le> length (cpus s) \<and>
     (\<forall>i < ncpu s. apicid (cpus s ! i) = lapic_id s i) \<and>
     (\<forall>i < ncpu s. \<forall>j < ncpu s. lapic_id s i = lapic_id s j \<longrightarrow> i = j)"

text \<open>The executing CPU's masking state: interrupts are off while the depth is positive.\<close>

definition mask_ok :: "'a kcpu_scheme \<Rightarrow> bool" where
  "mask_ok s \<longleftrightarrow> 0 \<le> ncli (cpus s ! this s) \<and>
     (0 < ncli (cpus s ! this s) \<longrightarrow> \<not> eflags s (this s))"

abbreviation cur_ncli :: "'a kcpu_scheme \<Rightarrow> int" where
  "cur_ncli s \<equiv> ncli (cpus s ! this s)"

lemma mycpu_this:
  assumes "cpus_ok s" "\<not> eflags s (this s)"
  shows "mycpu s = Inr (this s)"
proof -
  have "find_index (\<lambda>c. apicid c = lapic_id s (this s)) (take (ncpu s) (cpus s)) = Some (this s)"
    using assms(1) by (intro find_index_SomeI) (auto simp: cpus_ok_def dest: less_trans)
  then show ?thesis using assms(2) by (simp add: mycpu_def readeflags_def)
qed

text \<open>The state \<open>pushcli\<close> leaves: interrupts off, the depth one up, the old flag saved at depth 0.\<close>

definition pushed :: "'a kcpu_scheme \<Rightarrow> 'a kcpu_scheme" where
  "pushed s = s\<lparr>eflags := (eflags s)(this s := False),
     cpus := (cpus s)[this s := (cpus s ! this s)\<lparr>ncli := cur_ncli s + 1,
       intena := (if cur_ncli s = 0 then eflags s (this s) else intena (cpus s ! this s))\<rparr>]\<rparr>"

lemma cpus_ok_upd:
  "cpus_ok s \<Longrightarrow> apicid c = apicid (cpus s ! this s) \<Longrightarrow>
    cpus_ok (s\<lparr>cpus := (cpus s)[this s := c], eflags := e, locks := l\<rparr>)"
  by (auto simp: cpus_ok_def nth_list_update)

lemma pushcli_eq: "cpus_ok s \<Longrightarrow> pushcli s = Inr (pushed s)"
proof -
  assume ok: "cpus_ok s"
  have "mycpu (cli s) = Inr (this s)"
    using mycpu_this [of "cli s"] ok by (simp add: cli_def cpus_ok_def)
  then show ?thesis
    by (cases "cpus s ! this s") (simp add: pushcli_def pushed_def readeflags_def cli_def Let_def)
qed

lemma pushed_ok: "cpus_ok s \<Longrightarrow> cpus_ok (pushed s)"
  by (auto simp: cpus_ok_def pushed_def nth_list_update)

lemma pushed_simps [simp]:
  "this (pushed s) = this s" "locks (pushed s) = locks s" "eflags (pushed s) (this s) = False"
  "length (cpus (pushed s)) = length (cpus s)" "ncpu (pushed s) = ncpu s"
  by (simp_all add: pushed_def)

lemma pushed_ncli: "cpus_ok s \<Longrightarrow> ncli (cpus (pushed s) ! this s) = cur_ncli s + 1"
  by (simp add: pushed_def cpus_ok_def)

text \<open>\<open>popcli\<close> undoes \<open>pushcli\<close> but for the saved flag, which \<open>pushcli\<close> has refreshed.\<close>

definition refreshed :: "'a kcpu_scheme \<Rightarrow> 'a kcpu_scheme" where
  "refreshed s = s\<lparr>cpus := (cpus s)[this s := (cpus s ! this s)\<lparr>
     intena := (if cur_ncli s = 0 then eflags s (this s) else intena (cpus s ! this s))\<rparr>]\<rparr>"

lemma popcli_pushed:
  assumes "cpus_ok s" "mask_ok s"
  shows "popcli (pushed s) = Inr (refreshed s)"
proof -
  have my: "mycpu (pushed s) = Inr (this s)"
    using mycpu_this [OF pushed_ok [OF assms(1)]] by simp
  have lt: "this s < length (cpus s)" using assms(1) by (simp add: cpus_ok_def)
  show ?thesis
  proof (cases "cur_ncli s = 0")
    case True
    then show ?thesis
      using my lt
      by (cases "cpus s ! this s") (auto simp: popcli_def readeflags_def pushed_def refreshed_def sti_def Let_def fun_upd_idem)
  next
    case False
    then have "eflags s (this s) = False" "0 < cur_ncli s"
      using assms(2) by (auto simp: mask_ok_def)
    then show ?thesis
      using my lt
      by (cases "cpus s ! this s") (auto simp: popcli_def readeflags_def pushed_def refreshed_def Let_def fun_upd_idem)
  qed
qed

definition popped :: "'a kcpu_scheme \<Rightarrow> 'a kcpu_scheme" where
  "popped s = s\<lparr>cpus := (cpus s)[this s := (cpus s ! this s)\<lparr>ncli := cur_ncli s - 1\<rparr>],
     eflags := (eflags s)(this s := (cur_ncli s = 1 \<and> intena (cpus s ! this s)))\<rparr>"

lemma popcli_eq:
  assumes "cpus_ok s" "\<not> eflags s (this s)" "1 \<le> cur_ncli s"
  shows "popcli s = Inr (popped s)"
proof -
  have lt: "this s < length (cpus s)" using assms(1) by (simp add: cpus_ok_def)
  have "(eflags s)(this s := False) = eflags s" using assms(2) by (simp add: fun_upd_idem)
  then show ?thesis
    using mycpu_this [OF assms(1,2)] assms(2,3) lt
    by (auto simp: popcli_def readeflags_def popped_def sti_def Let_def)
qed

lemma refreshed_simps [simp]:
  "this (refreshed s) = this s" "locks (refreshed s) = locks s" "eflags (refreshed s) = eflags s"
  by (simp_all add: refreshed_def)

lemma refreshed_id: "cur_ncli s \<noteq> 0 \<Longrightarrow> refreshed s = s"
  by (simp add: refreshed_def)

lemma pushed_mask: "cpus_ok s \<Longrightarrow> mask_ok s \<Longrightarrow> mask_ok (pushed s)"
  by (auto simp: mask_ok_def pushed_ncli)

lemma holding_eq:
  assumes "cpus_ok s" "mask_ok s"
  shows "holding lk s =
    Inr (locked (locks s lk) \<and> lcpu (locks s lk) = Some (this s), refreshed s)"
  using mycpu_this [OF pushed_ok [OF assms(1)]]
  by (simp add: holding_def pushcli_eq assms popcli_pushed Let_def)

definition lock_taken :: "nat \<Rightarrow> 'a kcpu_scheme \<Rightarrow> 'a kcpu_scheme" where
  "lock_taken lk s = (pushed s)\<lparr>locks := (locks s)(lk := \<lparr>locked = True, lcpu = Some (this s)\<rparr>)\<rparr>"

lemma acquire_eq:
  assumes "cpus_ok s" "mask_ok s"
  shows "acquire lk s =
    (if locked (locks s lk) \<and> lcpu (locks s lk) = Some (this s) then Inl (Panic ''acquire'')
     else if locked (locks s lk) then Inl Block else Inr (lock_taken lk s))"
proof -
  have hold: "holding lk (pushed s) =
      Inr (locked (locks s lk) \<and> lcpu (locks s lk) = Some (this s), pushed s)"
    using assms pushed_ncli [OF assms(1)]
    by (simp add: holding_eq pushed_ok pushed_mask refreshed_id mask_ok_def)
  have "mycpu ((pushed s)\<lparr>locks := l\<rparr>) = Inr (this s)" for l
    using mycpu_this [of "(pushed s)\<lparr>locks := l\<rparr>"] pushed_ok [OF assms(1)]
    by (simp add: cpus_ok_def)
  then show ?thesis
    using assms(1) hold
    by (cases "locks s lk") (simp add: acquire_def pushcli_eq lock_taken_def Let_def)
qed

definition lock_freed :: "nat \<Rightarrow> 'a kcpu_scheme \<Rightarrow> 'a kcpu_scheme" where
  "lock_freed lk s = (popped s)\<lparr>locks := (locks s)(lk := \<lparr>locked = False, lcpu = None\<rparr>)\<rparr>"

lemma spinlock_cleared: "(k::spinlock)\<lparr>lcpu := None, locked := False\<rparr> = \<lparr>locked = False, lcpu = None\<rparr>"
  by (cases k) simp

lemma release_eq:
  assumes "cpus_ok s" "mask_ok s" "1 \<le> cur_ncli s"
  shows "release lk s =
    (if locked (locks s lk) \<and> lcpu (locks s lk) = Some (this s) then Inr (lock_freed lk s)
     else Inl (Panic ''release''))"
proof -
  let ?t = "s\<lparr>locks := (locks s)(lk := \<lparr>locked = False, lcpu = None\<rparr>)\<rparr>"
  have "popcli ?t = Inr (popped ?t)"
    using assms by (intro popcli_eq) (auto simp: cpus_ok_def mask_ok_def)
  moreover have "popped ?t = lock_freed lk s"
    by (simp add: popped_def lock_freed_def)
  moreover have "refreshed s = s" using assms(3) by (simp add: refreshed_id)
  ultimately show ?thesis
    using assms by (simp add: release_def holding_eq spinlock_cleared)
qed

lemma release_ncli0:
  assumes "cpus_ok s" "cur_ncli s = 0" "lcpu (locks s lk) \<noteq> Some (this s)"
  shows "release lk s = Inl (Panic ''release'')"
  using assms by (simp add: release_def holding_eq mask_ok_def)

text \<open>Interleavings of \<open>acquire\<close> and \<open>release\<close> by the machine's CPUs, newest event first.\<close>

datatype levent = Acq nat nat | Rel nat nat

inductive lrun :: "'a kcpu_scheme \<Rightarrow> levent list \<Rightarrow> 'a kcpu_scheme \<Rightarrow> bool" for s0 where
  start: "lrun s0 [] s0"
| acq: "lrun s0 tr s \<Longrightarrow> i < ncpu s \<Longrightarrow> acquire lk (s\<lparr>this := i\<rparr>) = Inr s' \<Longrightarrow>
    lrun s0 (Acq i lk # tr) s'"
| rel: "lrun s0 tr s \<Longrightarrow> i < ncpu s \<Longrightarrow> release lk (s\<lparr>this := i\<rparr>) = Inr s' \<Longrightarrow>
    lrun s0 (Rel i lk # tr) s'"

fun holder :: "levent list \<Rightarrow> nat \<Rightarrow> nat option" where
  "holder [] l = None"
| "holder (Acq i k # tr) l = (if k = l then Some i else holder tr l)"
| "holder (Rel i k # tr) l = (if k = l then None else holder tr l)"

fun exclusive :: "levent list \<Rightarrow> bool" where
  "exclusive [] = True"
| "exclusive (Acq i k # tr) \<longleftrightarrow> holder tr k = None \<and> exclusive tr"
| "exclusive (Rel i k # tr) \<longleftrightarrow> holder tr k = Some i \<and> exclusive tr"

text \<open>At boot: interrupts off at depth 0 on every CPU, every lock free.\<close>

definition locks_boot :: "'a kcpu_scheme \<Rightarrow> bool" where
  "locks_boot s \<longleftrightarrow> cpus_ok s \<and> (\<forall>i < ncpu s. ncli (cpus s ! i) = 0) \<and>
     (\<forall>l. locks s l = \<lparr>locked = False, lcpu = None\<rparr>)"

text \<open>The invariant of a run: the lock words agree with the trace, and a CPU's depth counts the
  locks it holds.\<close>

definition lock_inv :: "levent list \<Rightarrow> 'a kcpu_scheme \<Rightarrow> bool" where
  "lock_inv tr s \<longleftrightarrow> cpus_ok s \<and>
     (\<forall>l. locks s l = \<lparr>locked = (holder tr l \<noteq> None), lcpu = holder tr l\<rparr>) \<and>
     (\<forall>i < ncpu s. finite {l. holder tr l = Some i} \<and>
        ncli (cpus s ! i) = int (card {l. holder tr l = Some i}) \<and>
        (0 < ncli (cpus s ! i) \<longrightarrow> \<not> eflags s i))"

lemma lock_inv_boot: "locks_boot s \<Longrightarrow> lock_inv [] s"
  by (simp add: locks_boot_def lock_inv_def)

lemma lock_inv_this:
  assumes "lock_inv tr s" "i < ncpu s"
  shows "cpus_ok (s\<lparr>this := i\<rparr>)" "mask_ok (s\<lparr>this := i\<rparr>)"
  using assms by (auto simp: lock_inv_def cpus_ok_def mask_ok_def)

lemma holder_Acq_set:
  "holder tr k = None \<Longrightarrow> {l. holder (Acq i k # tr) l = Some j} =
    (if i = j then insert k {l. holder tr l = Some j} else {l. holder tr l = Some j})"
  by auto

lemma holder_Rel_set:
  "holder tr k = Some i \<Longrightarrow> {l. holder (Rel i k # tr) l = Some j} =
    (if i = j then {l. holder tr l = Some j} - {k} else {l. holder tr l = Some j})"
  by auto

lemma lock_inv_acq:
  assumes inv: "lock_inv tr s" and i: "i < ncpu s"
    and acq: "acquire lk (s\<lparr>this := i\<rparr>) = Inr s'"
  shows "holder tr lk = None \<and> lock_inv (Acq i lk # tr) s'"
proof -
  note ok = lock_inv_this [OF inv i]
  have free: "holder tr lk = None" and s': "s' = lock_taken lk (s\<lparr>this := i\<rparr>)"
    using acq inv by (auto simp: acquire_eq [OF ok] lock_inv_def split: if_splits)
  have len: "ncpu s \<le> length (cpus s)" using inv by (simp add: lock_inv_def cpus_ok_def)
  have "cpus_ok s'"
    using pushed_ok [OF ok(1)] by (simp add: s' lock_taken_def cpus_ok_def)
  moreover have "locks s' l = \<lparr>locked = (holder (Acq i lk # tr) l \<noteq> None),
      lcpu = holder (Acq i lk # tr) l\<rparr>" for l
    using inv by (simp add: s' lock_taken_def lock_inv_def)
  moreover have "finite {l. holder (Acq i lk # tr) l = Some j} \<and>
      ncli (cpus s' ! j) = int (card {l. holder (Acq i lk # tr) l = Some j}) \<and>
      (0 < ncli (cpus s' ! j) \<longrightarrow> \<not> eflags s' j)" if "j < ncpu s'" for j
    unfolding holder_Acq_set [OF free]
    using that inv free len i
    by (auto simp: s' lock_taken_def pushed_def lock_inv_def nth_list_update)
  ultimately show ?thesis using free by (simp add: lock_inv_def)
qed

lemma lock_inv_rel:
  assumes inv: "lock_inv tr s" and i: "i < ncpu s"
    and rel: "release lk (s\<lparr>this := i\<rparr>) = Inr s'"
  shows "holder tr lk = Some i \<and> lock_inv (Rel i lk # tr) s'"
proof -
  note ok = lock_inv_this [OF inv i]
  have cnt: "finite {l. holder tr l = Some i}" "ncli (cpus s ! i) = int (card {l. holder tr l = Some i})"
    using inv i by (auto simp: lock_inv_def)
  have held: "holder tr lk = Some i"
  proof (rule ccontr)
    assume "holder tr lk \<noteq> Some i"
    then have "release lk (s\<lparr>this := i\<rparr>) = Inl (Panic ''release'')"
      using inv release_ncli0 [OF ok(1)] release_eq [OF ok] cnt(2)
      by (cases "ncli (cpus s ! i) = 0") (auto simp: lock_inv_def Suc_le_eq)
    then show False using rel by simp
  qed
  have pos: "1 \<le> ncli (cpus s ! i)"
    using cnt held by (auto simp: Suc_le_eq card_gt_0_iff int_one_le_iff_zero_less)
  then have s': "s' = lock_freed lk (s\<lparr>this := i\<rparr>)"
    using rel by (auto simp: release_eq [OF ok] split: if_splits)
  have len: "ncpu s \<le> length (cpus s)" using inv by (simp add: lock_inv_def cpus_ok_def)
  have "cpus_ok s'"
    using ok(1) by (auto simp: s' lock_freed_def popped_def cpus_ok_def nth_list_update)
  moreover have "locks s' l = \<lparr>locked = (holder (Rel i lk # tr) l \<noteq> None),
      lcpu = holder (Rel i lk # tr) l\<rparr>" for l
    using inv by (simp add: s' lock_freed_def lock_inv_def)
  moreover have "finite {l. holder (Rel i lk # tr) l = Some j} \<and>
      ncli (cpus s' ! j) = int (card {l. holder (Rel i lk # tr) l = Some j}) \<and>
      (0 < ncli (cpus s' ! j) \<longrightarrow> \<not> eflags s' j)" if "j < ncpu s'" for j
    unfolding holder_Rel_set [OF held]
    using that inv held len i pos
    by (auto simp: s' lock_freed_def popped_def lock_inv_def nth_list_update card_Diff_singleton)
  ultimately show ?thesis using held by (simp add: lock_inv_def)
qed

lemma lrun_inv: "lrun s0 tr s \<Longrightarrow> locks_boot s0 \<Longrightarrow> lock_inv tr s \<and> exclusive tr"
proof (induction rule: lrun.induct)
  case start
  then show ?case by (simp add: lock_inv_boot)
next
  case (acq tr s i lk s')
  then show ?case using lock_inv_acq [of tr s i lk s'] by simp
next
  case (rel tr s i lk s')
  then show ?case using lock_inv_rel [of tr s i lk s'] by simp
qed

text \<open>The same runs computed: a list of events, newest first, executed from the oldest.\<close>

fun lexec :: "levent list \<Rightarrow> 'a kcpu_scheme \<Rightarrow> 'a kcpu_scheme kres" where
  "lexec [] s = Inr s"
| "lexec (Acq i lk # tr) s = andThen (lexec tr s) (\<lambda>s.
     if i < ncpu s then acquire lk (s\<lparr>this := i\<rparr>) else Inl Fault)"
| "lexec (Rel i lk # tr) s = andThen (lexec tr s) (\<lambda>s.
     if i < ncpu s then release lk (s\<lparr>this := i\<rparr>) else Inl Fault)"

lemma lexec_lrun: "lexec tr s0 = Inr s \<Longrightarrow> lrun s0 tr s"
proof (induction tr arbitrary: s)
  case Nil
  then show ?case by (simp add: lrun.start)
next
  case (Cons e tr)
  then show ?case by (cases e) (auto split: if_splits intro: lrun.acq lrun.rel)
qed


definition two_cpus :: kcpu where
  "two_cpus = \<lparr>cpus = [\<lparr>apicid = 0, ncli = 0, intena = False, cproc = None\<rparr>,
                       \<lparr>apicid = 1, ncli = 0, intena = False, cproc = None\<rparr>],
     ncpu = 2, this = 0, lapic_id = of_nat, eflags = (\<lambda>i. i = 1),
     locks = (\<lambda>l. \<lparr>locked = False, lcpu = None\<rparr>)\<rparr>"

lemma two_cpus_boot: "locks_boot two_cpus"
  by (auto simp: locks_boot_def two_cpus_def cpus_ok_def less_Suc_eq numeral_2_eq_2)


end
