(* ===== verification/Kalloc.thy ===== *)
theory Kalloc
  imports Spinlock
begin

text \<open>
  The physical page allocator \<^verbatim>\<open>kalloc.c\<close>. The free list is threaded through the free pages
  themselves: the first word of a free page is the address of the next one. The model keeps it
  there, in the byte memory, so that a write to a page that is still on the list would corrupt
  the list. \<open>chain\<close> relates the list head to the sequence of free pages. The lock of \<^verbatim>\<open>kmem\<close>
  makes each operation atomic; \<open>use_lock\<close> is kept as data only.
\<close>

record kmem = kcpu +
  mem :: memory
  kend :: u32
  freelist :: u32
  use_lock :: bool
  out :: "int list"

abbreviation (input) KMEM_LOCK :: nat where "KMEM_LOCK \<equiv> 0"

subsection \<open>Page arithmetic (\<^verbatim>\<open>mmu.h\<close>, \<^verbatim>\<open>memlayout.h\<close>)\<close>

definition PGROUNDUP :: "u32 \<Rightarrow> u32" where
  "PGROUNDUP sz = and (sz + PGSIZE - 1) (NOT (PGSIZE - 1))"

definition PGROUNDDOWN :: "u32 \<Rightarrow> u32" where
  "PGROUNDDOWN a = and a (NOT (PGSIZE - 1))"

definition V2P :: "u32 \<Rightarrow> u32" where
  "V2P a = a - KERNBASE"

definition P2V :: "u32 \<Rightarrow> u32" where
  "P2V a = a + KERNBASE"

lemma V2P_P2V [simp]: "V2P (P2V a) = a" "P2V (V2P a) = a"
  by (simp_all add: V2P_def P2V_def)

lemma mod_4096: "(a :: u32) mod 4096 = and a 0xFFF"
  using take_bit_eq_mod [of 12 a] take_bit_eq_mask [of 12 a] by (simp add: mask_eq_exp_minus_1)

lemma PGROUNDDOWN_alt: "PGROUNDDOWN a = a - a mod 4096"
proof -
  have "and a (NOT 0xFFF) + and a 0xFFF = or (and a (NOT 0xFFF)) (and a 0xFFF)"
    by (rule disjunctive_add) (auto simp: bit_simps)
  also have "\<dots> = a" by (rule bit_eqI) (auto simp: bit_simps)
  finally show ?thesis by (simp add: PGROUNDDOWN_def mod_4096 algebra_simps)
qed

lemma unat_PGROUNDDOWN: "unat (PGROUNDDOWN a) = unat a - unat a mod 4096"
proof -
  have "a mod 4096 \<le> a" by (simp add: word_le_nat_alt unat_mod)
  then show ?thesis by (simp add: PGROUNDDOWN_alt unat_sub unat_mod)
qed

lemma PGROUNDDOWN_aligned: "PGROUNDDOWN a mod 4096 = 0"
proof -
  have "unat (PGROUNDDOWN a) mod 4096 = 0"
    unfolding unat_PGROUNDDOWN by (simp add: minus_mod_eq_mult_div)
  then show ?thesis by (simp add: word_unat_eq_iff unat_mod)
qed

lemma PGROUNDDOWN_idem: "a mod 4096 = 0 \<Longrightarrow> PGROUNDDOWN a = a"
  by (simp add: PGROUNDDOWN_alt)

lemma PGROUNDUP_alt: "PGROUNDUP a = PGROUNDDOWN (a + 4095)"
  by (simp add: PGROUNDUP_def PGROUNDDOWN_def add.commute)

lemma PGROUNDUP_aligned: "PGROUNDUP a mod 4096 = 0"
  by (simp add: PGROUNDUP_alt PGROUNDDOWN_aligned)

lemma unat_PGROUNDUP:
  assumes "unat a + 4095 < 2 ^ 32"
  shows "unat (PGROUNDUP a) = (unat a + 4095) div 4096 * 4096"
proof -
  have "unat (a + 4095) = unat a + 4095" using assms by (simp add: unat_word_ariths)
  then show ?thesis by (simp add: PGROUNDUP_alt unat_PGROUNDDOWN minus_mod_eq_div_mult)
qed

subsection \<open>The allocator\<close>

text \<open>The pages \<^verbatim>\<open>kfree\<close> accepts: aligned, not part of the kernel image, below \<^verbatim>\<open>PHYSTOP\<close>.\<close>

definition page_ok :: "u32 \<Rightarrow> u32 \<Rightarrow> bool" where
  "page_ok e v \<longleftrightarrow> v mod PGSIZE = 0 \<and> e \<le> v \<and> V2P v < PHYSTOP"

definition kfree :: "u32 \<Rightarrow> 'a kmem_scheme \<Rightarrow> 'a kmem_scheme kres" where
  "kfree v s =
     (if v mod PGSIZE \<noteq> 0 \<or> v < kend s \<or> V2P v \<ge> PHYSTOP then Inl (Panic ''kfree'')
      else let m = memset v 1 PGSIZE (mem s)
           in Inr (s\<lparr>mem := store32 m v (freelist s), freelist := v\<rparr>))"

definition kalloc :: "'a kmem_scheme \<Rightarrow> u32 \<times> 'a kmem_scheme" where
  "kalloc s =
     (let r = freelist s
      in if r \<noteq> 0 then (r, s\<lparr>freelist := load32 (mem s) r\<rparr>) else (r, s))"

lemma kfree_page: "kfree v s = Inr s' \<Longrightarrow> page_ok (kend s) v"
  by (auto simp: kfree_def page_ok_def not_less not_le split: if_splits)

text \<open>The loop of \<^verbatim>\<open>freerange\<close> ends because \<^verbatim>\<open>kfree\<close> accepts only pages below \<^verbatim>\<open>PHYSTOP\<close>, far from
  the point where \<^verbatim>\<open>p += PGSIZE\<close> would wrap.\<close>

lemma page_ok_next: "page_ok e v \<Longrightarrow> unat (v + 4096) = unat v + 4096"
proof -
  assume "page_ok e v"
  then have "unat (v - 0x80000000) < 0xE000000"
    by (simp add: page_ok_def V2P_def word_less_nat_alt)
  then have "unat v < 0x8E000000"
    using unat_sub_if' [of v "0x80000000"] by (auto split: if_splits)
  then show ?thesis by (simp add: unat_word_ariths)
qed

function freerange_loop :: "u32 \<Rightarrow> u32 \<Rightarrow> 'a kmem_scheme \<Rightarrow> 'a kmem_scheme kres" where
  "freerange_loop p vend s =
     (if p + PGSIZE \<le> vend
      then andThen (kfree p s) (\<lambda>s. freerange_loop (p + PGSIZE) vend s)
      else Inr s)"
  by pat_completeness auto
termination
proof (relation "measure (\<lambda>(p, vend, s). 2 ^ 32 - unat p)")
  show "wf (measure (\<lambda>(p :: u32, vend :: u32, s :: 'a kmem_scheme). 2 ^ 32 - unat p))"
    by simp
next
  fix p vend :: u32 and s s' :: "'a kmem_scheme"
  assume "kfree p s = Inr s'"
  then have "unat (p + 4096) = unat p + 4096" by (rule page_ok_next [OF kfree_page])
  then show "((p + PGSIZE, vend, s'), (p, vend, s)) \<in> measure (\<lambda>(p, vend, s). 2 ^ 32 - unat p)"
    using unsigned_less [where 'a = nat and w = "p + 4096"] by simp
qed

declare freerange_loop.simps [simp del]

definition freerange :: "u32 \<Rightarrow> u32 \<Rightarrow> 'a kmem_scheme \<Rightarrow> 'a kmem_scheme kres" where
  "freerange vstart vend s = freerange_loop (PGROUNDUP vstart) vend s"

definition kinit1 :: "u32 \<Rightarrow> u32 \<Rightarrow> 'a kmem_scheme \<Rightarrow> 'a kmem_scheme kres" where
  "kinit1 vstart vend s = freerange vstart vend ((initlock KMEM_LOCK s)\<lparr>use_lock := False\<rparr>)"

definition kinit2 :: "u32 \<Rightarrow> u32 \<Rightarrow> 'a kmem_scheme \<Rightarrow> 'a kmem_scheme kres" where
  "kinit2 vstart vend s = andThen (freerange vstart vend s) (\<lambda>s. Inr (s\<lparr>use_lock := True\<rparr>))"

subsection \<open>The free list\<close>

fun chain :: "memory \<Rightarrow> u32 \<Rightarrow> u32 list \<Rightarrow> bool" where
  "chain m p [] = (p = 0)"
| "chain m p (q # qs) = (p = q \<and> q \<noteq> 0 \<and> chain m (load32 m q) qs)"

definition free_pages :: "'a kmem_scheme \<Rightarrow> u32 list \<Rightarrow> bool" where
  "free_pages s ps \<longleftrightarrow> 0 < kend s \<and> chain (mem s) (freelist s) ps \<and> distinct ps \<and>
     (\<forall>p \<in> set ps. page_ok (kend s) p)"

lemma chain_inj: "chain m p ps \<Longrightarrow> chain m p qs \<Longrightarrow> ps = qs"
proof (induction ps arbitrary: p qs)
  case Nil
  then show ?case by (cases qs) auto
next
  case (Cons x xs)
  then show ?case by (cases qs) auto
qed

lemma free_pages_unique: "free_pages s ps \<Longrightarrow> free_pages s qs \<Longrightarrow> ps = qs"
  by (auto simp: free_pages_def intro: chain_inj)

text \<open>Distinct pages do not overlap.\<close>

lemma page_div:
  assumes "v mod 4096 = (0 :: u32)" "x - v < 4096"
  shows "unat x div 4096 = unat v div 4096"
proof -
  have "unat v mod 4096 = 0" using assms(1) by (simp add: word_unat_eq_iff unat_mod)
  then obtain k where k: "unat v = 4096 * k" by (auto simp: mod_eq_0_iff_dvd)
  have "4096 * k < 2 ^ 32" using unsigned_less [where 'a = nat and w = v] k by simp
  then have "unat v + 4096 \<le> 2 ^ 32" using k by simp
  moreover have lt: "unat (x - v) < 4096" using assms(2) by (simp add: word_less_nat_alt)
  ultimately have "unat x = unat v + unat (x - v)"
    using unat_plus_if' [of v "x - v"] by simp
  then show ?thesis using k lt by simp
qed

lemma pages_disjoint:
  assumes "v mod 4096 = (0 :: u32)" "w mod 4096 = 0" "v \<noteq> w" "x - v < 4096"
  shows "\<not> x - w < 4096"
proof
  assume "x - w < 4096"
  with assms have "unat v div 4096 = unat w div 4096" using page_div by metis
  moreover have "unat v mod 4096 = 0" "unat w mod 4096 = 0"
    using assms(1,2) by (simp_all add: word_unat_eq_iff unat_mod)
  ultimately have "unat v = unat w" by (metis mod_mult_div_eq)
  with assms(3) show False by (simp add: word_unat_eq_iff)
qed

lemma in_page_word: "i < 4 \<Longrightarrow> (a + of_nat i) - a < (4096 :: u32)"
  by (simp add: word_less_nat_alt unat_of_nat)

lemma chain_cong:
  "(\<And>p x. p \<in> set ps \<Longrightarrow> x - p < 4096 \<Longrightarrow> m x = m' x) \<Longrightarrow> chain m q ps = chain m' q ps"
proof (induction ps arbitrary: q)
  case Nil
  then show ?case by simp
next
  case (Cons p ps)
  have "load32 m p = load32 m' p"
    by (rule load32_cong) (use Cons.prems [of p] in \<open>simp add: word_less_nat_alt\<close>)
  then show ?case using Cons by auto
qed

lemma kfree_mem:
  "kfree v s = Inr s' \<Longrightarrow> \<not> x - v < 4096 \<Longrightarrow> mem s' x = mem s x"
proof -
  assume s': "kfree v s = Inr s'" and x: "\<not> x - v < 4096"
  then have "\<not> x - v < 4" by (simp add: word_less_nat_alt)
  with s' x show ?thesis
    by (auto simp: kfree_def Let_def store32_outside memset_apply split: if_splits)
qed

lemma kfree_frame [frame_simps]:
  "kfree v s = Inr s' \<Longrightarrow> s' = s\<lparr>mem := mem s', freelist := v\<rparr>"
  by (auto simp: kfree_def Let_def split: if_splits)

lemma kfree_ok:
  assumes fp: "free_pages s ps" and v: "page_ok (kend s) v" "v \<notin> set ps"
  shows "\<exists>s'. kfree v s = Inr s' \<and> free_pages s' (v # ps) \<and> kend s' = kend s"
proof -
  let ?m = "store32 (memset v 1 4096 (mem s)) v (freelist s)"
  let ?s = "s\<lparr>mem := ?m, freelist := v\<rparr>"
  have eq: "kfree v s = Inr ?s"
    using v(1) by (auto simp: kfree_def page_ok_def Let_def)
  have "chain ?m (freelist s) ps = chain (mem s) (freelist s) ps"
  proof (rule chain_cong)
    fix p x assume p: "p \<in> set ps" and x: "x - p < 4096"
    then have "v \<noteq> p" "p mod 4096 = 0" "v mod 4096 = 0"
      using fp v by (auto simp: free_pages_def page_ok_def)
    then have "\<not> x - v < 4096" using pages_disjoint [of p v x] x by auto
    then show "?m x = mem s x" using kfree_mem [OF eq] by simp
  qed
  moreover have "v \<noteq> 0" using fp v(1) by (auto simp: free_pages_def page_ok_def)
  ultimately have "free_pages ?s (v # ps)"
    using fp v by (simp add: free_pages_def)
  with eq show ?thesis by simp
qed

lemma kalloc_empty: "free_pages s [] \<Longrightarrow> kalloc s = (0, s)"
  by (simp add: free_pages_def kalloc_def)

lemma kalloc_Cons:
  "free_pages s (p # ps) \<Longrightarrow> fst (kalloc s) = p \<and> free_pages (snd (kalloc s)) ps"
  by (simp add: free_pages_def kalloc_def Let_def)

lemma kalloc_frame [simp]:
  "mem (snd (kalloc s)) = mem s" "kend (snd (kalloc s)) = kend s" "out (snd (kalloc s)) = out s"
  by (simp_all add: kalloc_def Let_def)

lemma kalloc_more: "kmem.more (snd (kalloc s)) = kmem.more s"
  by (simp add: kalloc_def Let_def)

subsection \<open>The interface of the allocator\<close>

text \<open>
  What the users of the allocator (page tables, kernel stacks, pipes) rely on: the free pages
  are a set, allocation takes one page out and changes no memory, freeing puts one back and
  changes only that page. Its lemmas are about sequences of calls: \<open>n\<close> allocations in a row,
  and freeing a list of pages.
\<close>

primrec alloc_many :: "('s \<Rightarrow> u32 \<times> 's) \<Rightarrow> nat \<Rightarrow> 's \<Rightarrow> u32 list \<times> 's" where
  "alloc_many alloc 0 s = ([], s)"
| "alloc_many alloc (Suc n) s =
     (let (p, s1) = alloc s; (ps, s2) = alloc_many alloc n s1 in (p # ps, s2))"

primrec free_many :: "(u32 \<Rightarrow> 's \<Rightarrow> 's kres) \<Rightarrow> u32 list \<Rightarrow> 's \<Rightarrow> 's kres" where
  "free_many free [] s = Inr s"
| "free_many free (p # ps) s = andThen (free p s) (free_many free ps)"

locale page_allocator =
  fixes frees :: "'s \<Rightarrow> u32 set \<Rightarrow> bool"
    and usable :: "'s \<Rightarrow> u32 \<Rightarrow> bool"
    and mem_of :: "'s \<Rightarrow> memory"
    and alloc :: "'s \<Rightarrow> u32 \<times> 's"
    and free :: "u32 \<Rightarrow> 's \<Rightarrow> 's kres"
  assumes frees_unique: "frees s F \<Longrightarrow> frees s G \<Longrightarrow> F = G"
    and frees_usable: "frees s F \<Longrightarrow> p \<in> F \<Longrightarrow> usable s p \<and> p \<noteq> 0"
    and alloc_none: "frees s F \<Longrightarrow> fst (alloc s) = 0 \<longleftrightarrow> F = {}"
    and alloc_takes: "frees s F \<Longrightarrow> F \<noteq> {} \<Longrightarrow>
          fst (alloc s) \<in> F \<and> frees (snd (alloc s)) (F - {fst (alloc s)})"
    and alloc_fails: "frees s F \<Longrightarrow> F = {} \<Longrightarrow> snd (alloc s) = s"
    and alloc_mem: "mem_of (snd (alloc s)) = mem_of s"
    and alloc_usable: "usable (snd (alloc s)) = usable s"
    and free_puts: "frees s F \<Longrightarrow> usable s p \<Longrightarrow> p \<notin> F \<Longrightarrow>
          \<exists>s'. free p s = Inr s' \<and> frees s' (insert p F)"
    and free_mem: "free p s = Inr s' \<Longrightarrow> \<not> x - p < 4096 \<Longrightarrow> mem_of s' x = mem_of s x"
    and free_usable: "free p s = Inr s' \<Longrightarrow> usable s' = usable s"
begin

lemma alloc_many_distinct:
  "frees s F \<Longrightarrow> finite F \<Longrightarrow> n \<le> card F \<Longrightarrow> alloc_many alloc n s = (ps, s') \<Longrightarrow>
    length ps = n \<and> distinct ps \<and> set ps \<subseteq> F \<and> frees s' (F - set ps) \<and> mem_of s' = mem_of s \<and>
    usable s' = usable s"
proof (induction n arbitrary: s F ps s')
  case 0
  then show ?case by simp
next
  case (Suc n)
  obtain p s1 where a: "alloc s = (p, s1)" by fastforce
  obtain qs where q: "alloc_many alloc n s1 = (qs, s')" "ps = p # qs"
    using Suc.prems(4) a by (auto split: prod.splits)
  have ne: "F \<noteq> {}" using Suc.prems(3) by auto
  have p: "p \<in> F" "frees s1 (F - {p})"
    using alloc_takes [OF Suc.prems(1) ne] a by auto
  have "n \<le> card (F - {p})" using p(1) Suc.prems(2,3) by (simp add: card_Diff_singleton)
  from Suc.IH [OF p(2) _ this q(1)] Suc.prems(2)
  have ih: "length qs = n" "distinct qs" "set qs \<subseteq> F - {p}" "frees s' (F - {p} - set qs)"
      "mem_of s' = mem_of s1" "usable s' = usable s1"
    by auto
  have "F - set ps = F - {p} - set qs" using q(2) by auto
  then show ?case
    using ih p q alloc_mem [of s] alloc_usable [of s] a by auto
qed

lemma free_many_ok:
  "frees s F \<Longrightarrow> distinct ps \<Longrightarrow> set ps \<inter> F = {} \<Longrightarrow> \<forall>p \<in> set ps. usable s p \<Longrightarrow>
    \<exists>s'. free_many free ps s = Inr s' \<and> frees s' (set ps \<union> F)"
proof (induction ps arbitrary: s F)
  case Nil
  then show ?case by simp
next
  case (Cons p ps)
  then obtain s1 where s1: "free p s = Inr s1" "frees s1 (insert p F)"
    using free_puts [of s F p] by auto
  have "\<forall>q \<in> set ps. usable s1 q" using Cons.prems(4) free_usable [OF s1(1)] by simp
  then obtain s' where "free_many free ps s1 = Inr s' \<and> frees s' (set ps \<union> insert p F)"
    using Cons.IH [OF s1(2)] Cons.prems(2,3) by auto
  then show ?case using s1(1) by (auto simp: insert_commute)
qed

text \<open>Allocating and giving everything back restores the set of free pages: no leak.\<close>

lemma alloc_free_roundtrip:
  assumes "frees s F" "finite F" "n \<le> card F" "alloc_many alloc n s = (ps, s')"
  shows "\<exists>s''. free_many free ps s' = Inr s'' \<and> frees s'' F"
proof -
  note a = alloc_many_distinct [OF assms]
  have "\<forall>p \<in> set ps. usable s' p" using a frees_usable [OF assms(1)] by auto
  moreover have "set ps \<union> (F - set ps) = F" using a by auto
  ultimately show ?thesis
    using free_many_ok [of s' "F - set ps" ps] a by auto
qed

end

definition frees :: "'a kmem_scheme \<Rightarrow> u32 set \<Rightarrow> bool" where
  "frees s F \<longleftrightarrow> (\<exists>ps. free_pages s ps \<and> F = set ps)"

lemma kfree_kend: "kfree v s = Inr s' \<Longrightarrow> kend s' = kend s"
  by (auto simp: kfree_def Let_def split: if_splits)

interpretation pg: page_allocator frees "\<lambda>s. page_ok (kend s)" mem kalloc kfree
proof
  fix s :: "'a kmem_scheme" and F G p
  show "frees s F \<Longrightarrow> frees s G \<Longrightarrow> F = G"
    by (auto simp: frees_def dest: free_pages_unique)
  show "frees s F \<Longrightarrow> p \<in> F \<Longrightarrow> page_ok (kend s) p \<and> p \<noteq> 0"
    by (auto simp: frees_def free_pages_def page_ok_def)
  show "fst (kalloc s) = 0 \<longleftrightarrow> F = {}" if fr: "frees s F"
  proof -
    obtain ps where ps: "free_pages s ps" "F = set ps" using fr by (auto simp: frees_def)
    show ?thesis
    proof (cases ps)
      case Nil
      then show ?thesis using ps kalloc_empty [of s] by simp
    next
      case (Cons q qs)
      moreover have "q \<noteq> 0" using ps Cons by (auto simp: free_pages_def)
      ultimately show ?thesis using ps kalloc_Cons [of s q qs] by simp
    qed
  qed
  show "fst (kalloc s) \<in> F \<and> frees (snd (kalloc s)) (F - {fst (kalloc s)})"
    if fr: "frees s F" "F \<noteq> {}"
  proof -
    obtain rs where rs: "free_pages s rs" "F = set rs" using fr(1) by (auto simp: frees_def)
    then obtain q qs where "rs = q # qs" using fr(2) by (cases rs) auto
    then have ps: "free_pages s (q # qs)" "F = set (q # qs)" using rs by auto
    have "q \<notin> set qs" using ps(1) by (simp add: free_pages_def)
    then show ?thesis using kalloc_Cons [OF ps(1)] ps(2) by (auto simp: frees_def)
  qed
  show "snd (kalloc s) = s" if "frees s F" "F = {}"
    using that kalloc_empty [of s] by (auto simp: frees_def)
  show "\<exists>s'. kfree p s = Inr s' \<and> frees s' (insert p F)"
    if fr: "frees s F" "page_ok (kend s) p" "p \<notin> F"
  proof -
    obtain ps where "free_pages s ps" "F = set ps" using fr(1) by (auto simp: frees_def)
    then show ?thesis using kfree_ok [of s ps p] fr by (fastforce simp: frees_def)
  qed
qed (auto simp: kfree_mem kfree_kend)

subsection \<open>Initialisation\<close>

definition pages :: "u32 \<Rightarrow> nat \<Rightarrow> u32 list" where
  "pages p n = map (\<lambda>i. p + 4096 * of_nat i) [0..<n]"

lemma pages_0 [simp]: "pages p 0 = []"
  by (simp add: pages_def)

lemma pages_Suc: "pages p (Suc n) = p # pages (p + 4096) n"
  unfolding pages_def by (simp add: upt_conv_Cons map_Suc_upt [symmetric] algebra_simps del: upt_Suc)

lemma page_ok_kernel:
  assumes "0x80000000 \<le> e" "e \<le> p" "p mod 4096 = 0" "unat p < 0x8E000000"
  shows "page_ok e p"
proof -
  have le: "0x80000000 \<le> p" using assms by (meson order_trans)
  then have "unat (V2P p) = unat p - 0x80000000" by (simp add: V2P_def unat_sub)
  then show ?thesis using assms le by (simp add: page_ok_def word_less_nat_alt word_le_nat_alt)
qed

lemma aligned_next: "unat p + 4096 < 2 ^ 32 \<Longrightarrow> p mod 4096 = 0 \<Longrightarrow> (p + 4096) mod 4096 = (0 :: u32)"
  by (simp add: word_unat_eq_iff unat_mod unat_word_ariths)

lemma freerange_loop_ok:
  "free_pages s ps \<Longrightarrow> p mod 4096 = 0 \<Longrightarrow> 0x80000000 \<le> kend s \<Longrightarrow> kend s \<le> p \<Longrightarrow>
   unat vend \<le> 0x8E000000 \<Longrightarrow> unat p \<le> 0x8E000000 \<Longrightarrow>
   \<forall>q \<in> set ps. \<not> (unat p \<le> unat q \<and> unat q < unat vend) \<Longrightarrow>
   n = (unat vend - unat p) div 4096 \<Longrightarrow>
   \<exists>s'. freerange_loop p vend s = Inr s' \<and> free_pages s' (rev (pages p n) @ ps)"
proof (induction n arbitrary: s ps p)
  case 0
  have "unat (p + 4096) = unat p + 4096" using 0 by (simp add: unat_word_ariths)
  moreover have "unat vend - unat p < 4096" using 0 by (simp add: div_eq_0_iff)
  ultimately have "\<not> p + 4096 \<le> vend" by (simp add: word_le_nat_alt)
  then show ?case using 0 by (subst freerange_loop.simps) simp
next
  case (Suc n)
  have nxt: "unat (p + 4096) = unat p + 4096" using Suc.prems(6) by (simp add: unat_word_ariths)
  have room: "unat p + 4096 \<le> unat vend" using Suc.prems(8) by linarith
  have pok: "page_ok (kend s) p"
    using Suc.prems room by (intro page_ok_kernel) auto
  have fresh: "p \<notin> set ps" using Suc.prems(7) room by force
  from kfree_ok [OF Suc.prems(1) pok fresh] obtain s1 where
    s1: "kfree p s = Inr s1" "free_pages s1 (p # ps)" "kend s1 = kend s" by auto
  have "\<exists>s'. freerange_loop (p + 4096) vend s1 = Inr s' \<and>
      free_pages s' (rev (pages (p + 4096) n) @ (p # ps))"
  proof (rule Suc.IH)
    show "(p + 4096) mod 4096 = 0" using aligned_next Suc.prems(2,6) by simp
    show "kend s1 \<le> p + 4096" using Suc.prems(4) nxt s1(3) by (simp add: word_le_nat_alt)
    show "\<forall>q \<in> set (p # ps). \<not> (unat (p + 4096) \<le> unat q \<and> unat q < unat vend)"
      using Suc.prems(7) nxt by auto
    show "n = (unat vend - unat (p + 4096)) div 4096"
      using Suc.prems(8) nxt room by (simp add: le_div_geq)
  qed (use Suc.prems nxt room s1 in simp_all)
  then show ?case
    using s1(1) nxt room by (subst freerange_loop.simps) (simp add: pages_Suc word_le_nat_alt)
qed

text \<open>C5: the allocator starts with exactly the pages it was given. For a range between the end
  of the kernel image and \<^verbatim>\<open>PHYSTOP\<close> that holds no page already free, \<^verbatim>\<open>kinit1\<close> returns (its loop
  ends and no \<^verbatim>\<open>kfree\<close> panics) with every whole page of the range on the free list once, in front
  of the pages that were there.\<close>

theorem kinit1_frees_range:
  assumes "free_pages s ps" "0x80000000 \<le> kend s" "kend s \<le> PGROUNDUP vstart"
    "unat vstart + 4095 < 2 ^ 32" "unat (PGROUNDUP vstart) \<le> 0x8E000000" "unat vend \<le> 0x8E000000"
    "\<forall>q \<in> set ps. \<not> (unat (PGROUNDUP vstart) \<le> unat q \<and> unat q < unat vend)"
  shows "\<exists>s'. kinit1 vstart vend s = Inr s' \<and>
    free_pages s' (rev (pages (PGROUNDUP vstart) ((unat vend - unat (PGROUNDUP vstart)) div 4096)) @ ps)"
proof -
  let ?s = "(initlock KMEM_LOCK s)\<lparr>use_lock := False\<rparr>"
  have "free_pages ?s ps" "kend ?s = kend s"
    using assms(1) by (simp_all add: free_pages_def initlock_def)
  then show ?thesis
    using freerange_loop_ok [of ?s ps "PGROUNDUP vstart" vend] assms(2-) PGROUNDUP_aligned [of vstart]
    by (simp add: kinit1_def freerange_def)
qed

text \<open>A machine before \<^verbatim>\<open>kinit1\<close>: the kernel image ends at \<open>0x80115000\<close>, no page is free.\<close>

definition boot_mem :: kmem where
  "boot_mem = kcpu.extend two_cpus \<lparr>mem = (\<lambda>_. 0), kend = 0x80115000, freelist = 0,
     use_lock = False, out = []\<rparr>"

theorem kinit1_frees_range_witness:
  "\<exists>s'. kinit1 0x80115100 0x80119000 boot_mem = Inr s' \<and>
     free_pages s' [0x80118000, 0x80117000, 0x80116000]"
proof -
  have up: "PGROUNDUP 0x80115100 = 0x80116000" by code_simp
  have "free_pages boot_mem []" by (simp add: free_pages_def boot_mem_def kcpu.defs)
  moreover have "0x80000000 \<le> kend boot_mem \<and> kend boot_mem \<le> PGROUNDUP 0x80115100"
    by (simp add: up boot_mem_def kcpu.defs)
  ultimately show ?thesis
    using kinit1_frees_range [of boot_mem "[]" "0x80115100" "0x80119000"] up
    by (simp add: pages_def upt_rec)
qed

text \<open>C4: no page is handed out twice, none is lost, and freeing does not panic. From any state
  whose free list holds the pages \<open>F\<close>, a run of \<open>n\<close> allocations returns \<open>n\<close> different pages of
  \<open>F\<close> and writes no memory; giving them all back with \<^verbatim>\<open>kfree\<close> restores the set \<open>F\<close>.\<close>

theorem kalloc_kfree_roundtrip:
  assumes "frees s F" "n \<le> card F" "alloc_many kalloc n s = (ps, s')"
  shows "length ps = n \<and> distinct ps \<and> set ps \<subseteq> F \<and> frees s' (F - set ps) \<and> mem s' = mem s \<and>
    (\<exists>s''. free_many kfree ps s' = Inr s'' \<and> frees s'' F)"
proof -
  have "finite F" using assms(1) by (auto simp: frees_def)
  then show ?thesis
    using pg.alloc_many_distinct [OF assms(1) _ assms(2,3)]
      pg.alloc_free_roundtrip [OF assms(1) _ assms(2,3)] by auto
qed

theorem kalloc_kfree_roundtrip_witness:
  "\<exists>(s :: kmem) F. frees s F \<and> card F = 3 \<and> distinct (fst (alloc_many kalloc 2 s)) \<and>
     (\<exists>s''. free_many kfree (fst (alloc_many kalloc 2 s)) (snd (alloc_many kalloc 2 s)) = Inr s'' \<and>
       frees s'' F)"
proof -
  obtain s1 :: kmem where s1: "kfree 0x80116000 boot_mem = Inr s1" "free_pages s1 [0x80116000]"
      "kend s1 = 0x80115000"
    using kfree_ok [of boot_mem "[]" "0x80116000"]
    by (auto simp: free_pages_def boot_mem_def kcpu.defs page_ok_def V2P_def)
  obtain s2 :: kmem where s2: "free_pages s2 [0x80117000, 0x80116000]" "kend s2 = 0x80115000"
    using kfree_ok [OF s1(2), of "0x80117000"] s1(3) by (auto simp: page_ok_def V2P_def)
  obtain s3 :: kmem where s3: "free_pages s3 [0x80118000, 0x80117000, 0x80116000]"
    using kfree_ok [OF s2(1), of "0x80118000"] s2(2) by (auto simp: page_ok_def V2P_def)
  let ?F = "{0x80118000, 0x80117000, 0x80116000} :: u32 set"
  have "frees s3 ?F" using s3 by (auto simp: frees_def)
  moreover have "card ?F = 3" by simp
  ultimately have "frees s3 ?F \<and> card ?F = 3 \<and> distinct (fst (alloc_many kalloc 2 s3)) \<and>
     (\<exists>s''. free_many kfree (fst (alloc_many kalloc 2 s3)) (snd (alloc_many kalloc 2 s3)) = Inr s'' \<and>
       frees s'' ?F)"
    using kalloc_kfree_roundtrip [of s3 ?F 2 "fst (alloc_many kalloc 2 s3)" "snd (alloc_many kalloc 2 s3)"]
    by simp
  then show ?thesis by blast
qed

end
