(* ===== verification/Cprintf.thy ===== *)
theory Cprintf
  imports Kalloc
begin

text \<open>
  Kernel output: \<^verbatim>\<open>printint\<close> and \<^verbatim>\<open>cprintf\<close> of \<^verbatim>\<open>console.c\<close>. The field \<open>out\<close> of the state is the
  sequence of characters passed to \<^verbatim>\<open>consputc\<close>, as C \<^verbatim>\<open>int\<close>s (\<^verbatim>\<open>BACKSPACE\<close> is 256, not a byte).
  The variadic arguments are a list; reading past it, like writing past the 16 bytes of
  \<^verbatim>\<open>printint\<close>'s buffer, is \<open>Fault\<close>.
\<close>

datatype carg = CInt u32 | CStr "u8 list" | CNull

definition digit_char :: "u32 \<Rightarrow> int" where
  "digit_char d = of_char (''0123456789abcdef'' ! unat d)"

text \<open>The \<^verbatim>\<open>do ... while\<close> loop: digits least significant first, at most \<open>n\<close> of them.\<close>

fun printint_digits :: "nat \<Rightarrow> u32 \<Rightarrow> u32 \<Rightarrow> int list kres" where
  "printint_digits 0 x base = Inl Fault"
| "printint_digits (Suc n) x base =
     (if x div base = 0 then Inr [digit_char (x mod base)]
      else andThen (printint_digits n (x div base) base)
             (\<lambda>ds. Inr (digit_char (x mod base) # ds)))"

definition printint :: "u32 \<Rightarrow> u32 \<Rightarrow> bool \<Rightarrow> int list kres" where
  "printint xx base sign =
     (let neg = (sign \<and> sint xx < 0);
          x = (if neg then - xx else xx)
      in andThen (printint_digits 16 x base) (\<lambda>buf.
           let buf = (if neg then buf @ [of_char (CHR ''-'')] else buf)
           in if length buf \<le> 16 then Inr (rev buf) else Inl Fault))"

fun cprintf_out :: "string \<Rightarrow> carg list \<Rightarrow> int list kres" where
  "cprintf_out [] args = Inr []"
| "cprintf_out [c] args = (if c = CHR ''%'' then Inr [] else Inr [of_char c])"
| "cprintf_out (c # d # fmt) args =
     (if c \<noteq> CHR ''%'' then
        andThen (cprintf_out (d # fmt) args) (\<lambda>r. Inr (of_char c # r))
      else if d = CHR ''d'' then
        (case args of CInt x # as \<Rightarrow>
           andThen (printint x 10 True) (\<lambda>p.
           andThen (cprintf_out fmt as) (\<lambda>r. Inr (p @ r)))
         | _ \<Rightarrow> Inl Fault)
      else if d = CHR ''x'' \<or> d = CHR ''p'' then
        (case args of CInt x # as \<Rightarrow>
           andThen (printint x 16 False) (\<lambda>p.
           andThen (cprintf_out fmt as) (\<lambda>r. Inr (p @ r)))
         | _ \<Rightarrow> Inl Fault)
      else if d = CHR ''s'' then
        (case args of
           CStr b # as \<Rightarrow>
             andThen (cprintf_out fmt as)
               (\<lambda>r. Inr (map sint (takeWhile (\<lambda>c. c \<noteq> 0) b) @ r))
         | CNull # as \<Rightarrow> andThen (cprintf_out fmt as) (\<lambda>r. Inr (map of_char ''(null)'' @ r))
         | _ \<Rightarrow> Inl Fault)
      else if d = CHR ''%'' then
        andThen (cprintf_out fmt args) (\<lambda>r. Inr (of_char (CHR ''%'') # r))
      else andThen (cprintf_out fmt args) (\<lambda>r. Inr (of_char (CHR ''%'') # of_char d # r)))"

definition cprintf :: "string \<Rightarrow> carg list \<Rightarrow> 'a kmem_scheme \<Rightarrow> 'a kmem_scheme kres" where
  "cprintf fmt args s = andThen (cprintf_out fmt args) (\<lambda>r. Inr (s\<lparr>out := out s @ r\<rparr>))"

lemma cprintf_out_plain: "CHR ''%'' \<notin> set fmt \<Longrightarrow> cprintf_out fmt args = Inr (map of_char fmt)"
  by (induction fmt args rule: cprintf_out.induct) auto

lemma cprintf_plain:
  "CHR ''%'' \<notin> set fmt \<Longrightarrow> cprintf fmt args s = Inr (s\<lparr>out := out s @ map of_char fmt\<rparr>)"
  by (simp add: cprintf_def cprintf_out_plain)

lemma cprintf_frame [frame_simps]:
  "cprintf fmt args s = Inr s' \<Longrightarrow> s' = s\<lparr>out := out s'\<rparr>"
  by (auto simp: cprintf_def)

subsection \<open>The digits denote the number\<close>

text \<open>Reading a number back: the value of a digit character and of a digit string.\<close>

definition digit_val :: "int \<Rightarrow> nat" where
  "digit_val c = (if 48 \<le> c \<and> c \<le> 57 then nat (c - 48) else nat (c - 97) + 10)"

fun digits_val :: "nat \<Rightarrow> int list \<Rightarrow> nat" where
  "digits_val b [] = 0"
| "digits_val b (c # cs) = digit_val c * b ^ length cs + digits_val b cs"

lemma digits_val_snoc: "digits_val b (cs @ [c]) = digits_val b cs * b + digit_val c"
  by (induction cs) (auto simp: algebra_simps)

lemma digit_val_char: "unat d < 16 \<Longrightarrow> digit_val (digit_char d) = unat d"
proof -
  assume "unat d < 16"
  then have "unat d \<in> set [0..<16]" by simp
  then show ?thesis
    by (auto simp: digit_char_def digit_val_def upt_rec)
qed

lemma digit_char_range: "unat d < 16 \<Longrightarrow> digit_char d \<noteq> 45"
proof -
  assume "unat d < 16"
  then have "unat d \<in> set [0..<16]" by simp
  then show ?thesis by (auto simp: digit_char_def upt_rec)
qed

lemma printint_digits_ok:
  "2 \<le> unat base \<Longrightarrow> unat base \<le> 16 \<Longrightarrow> unat x < unat base ^ Suc n \<Longrightarrow>
    \<exists>ds. printint_digits (Suc n) x base = Inr ds \<and> digits_val (unat base) (rev ds) = unat x \<and>
      ds \<noteq> [] \<and> length ds \<le> Suc n \<and> (\<forall>d \<in> set ds. d \<noteq> 45)"
proof (induction n arbitrary: x)
  case 0
  then have d: "unat (x div base) = 0" and m: "x mod base = x"
    by (simp_all add: unat_div word_unat_eq_iff unat_mod)
  from d have "x div base = 0" by (simp add: word_unat_eq_iff)
  moreover have "unat x < 16" using 0 by simp
  ultimately show ?case using m by (auto simp: digit_val_char digit_char_range)
next
  case (Suc n)
  have lt: "unat (x mod base) < 16"
  proof -
    have "unat x mod unat base < unat base" using Suc.prems(1) by (intro mod_less_divisor) simp
    then show ?thesis using Suc.prems(2) by (simp add: unat_mod)
  qed
  show ?case
  proof (cases "x div base = 0")
    case True
    then have "unat x div unat base = 0" by (simp add: word_unat_eq_iff unat_div)
    then have "unat (x mod base) = unat x" using Suc.prems by (auto simp: unat_mod div_eq_0_iff)
    then show ?thesis using True lt by (auto simp: digit_val_char digit_char_range)
  next
    case False
    have "unat (x div base) < unat base ^ Suc n"
      using Suc.prems by (simp add: unat_div div_less_iff_less_mult algebra_simps)
    then obtain ds where ds: "printint_digits (Suc n) (x div base) base = Inr ds"
        "digits_val (unat base) (rev ds) = unat (x div base)" "ds \<noteq> []" "length ds \<le> Suc n"
        "\<forall>d \<in> set ds. d \<noteq> 45"
      using Suc.IH [OF Suc.prems(1,2)] by blast
    have "printint_digits (Suc (Suc n)) x base = Inr (digit_char (x mod base) # ds)"
      using False ds(1) by simp
    then show ?thesis
      using ds lt
      by (auto simp: digits_val_snoc digit_val_char digit_char_range unat_div unat_mod div_mult_mod_eq)
  qed
qed

text \<open>What a printed number means: an optional minus sign and digits in the base.\<close>

definition read_int :: "nat \<Rightarrow> int list \<Rightarrow> int" where
  "read_int b cs = (case cs of [] \<Rightarrow> 0
     | c # ds \<Rightarrow> if c = of_char (CHR ''-'') then - int (digits_val b ds) else int (digits_val b cs))"

lemma printint_total:
  assumes "base = 10 \<or> base = 16"
  shows "\<exists>cs. printint x base sign = Inr cs"
proof -
  let ?neg = "sign \<and> sint x < 0"
  let ?x = "if ?neg then - x else x"
  have b: "2 \<le> unat base" "unat base \<le> 16" "10 \<le> unat base" using assms by auto
  have "unat ?x < 10 ^ Suc 14" using unsigned_less [where 'a = nat and w = "?x"] by simp
  also have "\<dots> \<le> unat base ^ Suc 14" using b by (intro power_mono) auto
  finally obtain ds where ds: "printint_digits (Suc 14) ?x base = Inr ds" "length ds \<le> 15"
    using printint_digits_ok [OF b(1,2), of ?x 14] by auto
  have "printint_digits n y bb = Inr r \<Longrightarrow> printint_digits (n + k) y bb = Inr r" for n k y bb r
    by (induction n y bb arbitrary: r rule: printint_digits.induct) (auto split: if_splits)
  from this [OF ds(1), of 1] ds(2) show ?thesis by (simp add: printint_def Let_def)
qed

text \<open>C6: \<^verbatim>\<open>printint\<close> prints the number. In base 10 or 16 it never overruns its 16-byte buffer,
  and reading its output back gives the argument: the signed value, including the most negative
  one, when \<^verbatim>\<open>sign\<close> is set, the unsigned value otherwise.\<close>

theorem printint_roundtrip:
  assumes "base = 10 \<or> base = 16"
  shows "\<exists>cs. printint x base sign = Inr cs \<and> length cs \<le> 11 \<and>
    read_int (unat base) cs = (if sign then sint x else uint x)"
proof -
  let ?neg = "sign \<and> sint x < 0"
  let ?x = "if ?neg then - x else x"
  have b: "2 \<le> unat base" "unat base \<le> 16" "10 \<le> unat base" using assms by auto
  have "unat ?x < 10 ^ Suc 9" using unsigned_less [where 'a = nat and w = "?x"] by simp
  also have "\<dots> \<le> unat base ^ Suc 9" using b by (intro power_mono) auto
  finally obtain ds where ds9: "printint_digits (Suc 9) ?x base = Inr ds"
      "digits_val (unat base) (rev ds) = unat ?x" "ds \<noteq> []" "length ds \<le> 10"
      "\<forall>d \<in> set ds. d \<noteq> 45"
    using printint_digits_ok [OF b(1,2), of ?x 9] by auto
  have more: "printint_digits n y bb = Inr r \<Longrightarrow> printint_digits (n + k) y bb = Inr r" for n k y bb r
    by (induction n y bb arbitrary: r rule: printint_digits.induct) (auto split: if_splits)
  have ds: "printint_digits 16 ?x base = Inr ds"
    using more [OF ds9(1), of 6] by simp
  have neg: "int (unat (- x)) = - sint x" if "sint x < 0"
  proof -
    have "int (unat (- x)) = - uint x mod 2 ^ 32" by (simp add: uint_word_ariths(4))
    moreover have "2 ^ 31 \<le> uint x" "uint x < 2 ^ 32"
      using that uint_lt2p [of x] uint_ge_0 [of x] by (auto simp: sint32 split: if_splits)
    ultimately show ?thesis by (simp add: sint32 mod_pos_pos_trivial zmod_zminus1_eq_if)
  qed
  have pos: "int (unat x) = sint x" if "\<not> sint x < 0"
    using that uint_lt2p [of x] by (auto simp: sint32 split: if_splits)
  obtain e es where rv: "rev ds = e # es" "e \<in> set ds" using ds9(3)
    by (metis list.set_intros(1) neq_Nil_conv rev_is_Nil_conv set_rev)
  have "read_int (unat base) (rev ds) = int (unat ?x)"
    using rv ds9(2,5) by (auto simp: read_int_def)
  moreover have "read_int (unat base) (of_char (CHR ''-'') # rev ds) = - int (unat ?x)"
    using ds9(2) by (simp add: read_int_def)
  ultimately show ?thesis
    using ds ds9(4) neg pos by (auto simp: printint_def Let_def)
qed

theorem printint_roundtrip_witness:
  "\<exists>cs. printint 0x80000000 10 True = Inr cs \<and> length cs \<le> 11 \<and> read_int 10 cs = - 2147483648"
  using printint_roundtrip [of 10 "0x80000000" True] by (simp add: sint32)

end
