(* ===== verification/Vm.thy ===== *)
theory Vm
  imports Cprintf
begin

text \<open>
  Virtual memory: \<^verbatim>\<open>vm.c\<close>. Page directories and page tables live in the byte memory, at the
  addresses \<^verbatim>\<open>kalloc\<close> returned, and are read and written as words, as in the code. \<open>cr3\<close> is the
  page-table register and \<open>kdata\<close> the linker symbol \<^verbatim>\<open>data\<close>. A null pointer is address 0.

  Loops that step through addresses by \<^verbatim>\<open>PGSIZE\<close> recurse over the list of addresses they visit;
  \<open>mappages_loop_step\<close> and \<open>page_seq_step\<close> state that these lists are the ones the loop tests
  produce. The loop of \<^verbatim>\<open>deallocuvm\<close>, which moves its own index, is a recursive function.
\<close>

record kvm = kmem +
  kpgdir :: u32
  cr3 :: u32
  kdata :: u32

subsection \<open>Addresses and entries (\<^verbatim>\<open>mmu.h\<close>)\<close>

abbreviation (input) PTE_P :: u32 where "PTE_P \<equiv> 1"
abbreviation (input) PTE_W :: u32 where "PTE_W \<equiv> 2"
abbreviation (input) PTE_U :: u32 where "PTE_U \<equiv> 4"

definition PDX :: "u32 \<Rightarrow> u32" where
  "PDX va = and (drop_bit 22 va) 0x3FF"

definition PTX :: "u32 \<Rightarrow> u32" where
  "PTX va = and (drop_bit 12 va) 0x3FF"

definition PGADDR :: "u32 \<Rightarrow> u32 \<Rightarrow> u32 \<Rightarrow> u32" where
  "PGADDR d t off = or (or (push_bit 22 d) (push_bit 12 t)) off"

definition PTE_ADDR :: "u32 \<Rightarrow> u32" where
  "PTE_ADDR pte = and pte (NOT 0xFFF)"

definition PTE_FLAGS :: "u32 \<Rightarrow> u32" where
  "PTE_FLAGS pte = and pte 0xFFF"

definition present :: "u32 \<Rightarrow> bool" where
  "present e = (and e PTE_P \<noteq> 0)"

subsection \<open>Page tables\<close>

definition walkpgdir :: "u32 \<Rightarrow> u32 \<Rightarrow> bool \<Rightarrow> 'a kmem_scheme \<Rightarrow> u32 \<times> 'a kmem_scheme" where
  "walkpgdir pgdir va alloc s =
     (let pde = pgdir + 4 * PDX va;
          e = load32 (mem s) pde
      in if present e then (P2V (PTE_ADDR e) + 4 * PTX va, s)
         else if \<not> alloc then (0, s)
         else let (pgtab, s1) = kalloc s
              in if pgtab = 0 then (0, s1)
                 else let m = memset pgtab 0 PGSIZE (mem s1);
                          m = store32 m pde (or (or (or (V2P pgtab) PTE_P) PTE_W) PTE_U)
                      in (pgtab + 4 * PTX va, s1\<lparr>mem := m\<rparr>))"

fun mappages_loop ::
  "u32 \<Rightarrow> u32 list \<Rightarrow> u32 \<Rightarrow> u32 \<Rightarrow> 'a kmem_scheme \<Rightarrow> (int \<times> 'a kmem_scheme) kres" where
  "mappages_loop pgdir [] pa perm s = Inr (0, s)"
| "mappages_loop pgdir (a # as) pa perm s =
     (let (pte, s) = walkpgdir pgdir a True s
      in if pte = 0 then Inr (-1, s)
         else if present (load32 (mem s) pte) then Inl (Panic ''remap'')
         else mappages_loop pgdir as (pa + PGSIZE) perm
                (s\<lparr>mem := store32 (mem s) pte (or (or pa perm) PTE_P)\<rparr>))"

definition mappages ::
  "u32 \<Rightarrow> u32 \<Rightarrow> u32 \<Rightarrow> u32 \<Rightarrow> u32 \<Rightarrow> 'a kmem_scheme \<Rightarrow> (int \<times> 'a kmem_scheme) kres" where
  "mappages pgdir va sz pa perm s =
     (let a = PGROUNDDOWN va;
          la = PGROUNDDOWN (va + sz - 1)
      in mappages_loop pgdir (pages a (Suc (unat ((la - a) div PGSIZE)))) pa perm s)"

text \<open>The addresses \<^verbatim>\<open>for(; a < b; a += PGSIZE)\<close> visits.\<close>

definition page_seq :: "u32 \<Rightarrow> u32 \<Rightarrow> u32 list" where
  "page_seq a b = pages a ((unat b - unat a + 4095) div 4096)"

function deallocuvm_loop :: "u32 \<Rightarrow> u32 \<Rightarrow> u32 \<Rightarrow> 'a kmem_scheme \<Rightarrow> 'a kmem_scheme kres" where
  "deallocuvm_loop pgdir a oldsz s =
     (if a < oldsz then
        let pte = fst (walkpgdir pgdir a False s)
        in if pte = 0 then
             let a' = PGADDR (PDX a + 1) 0 0 - PGSIZE + PGSIZE
             in if a' \<le> a then Inl Block else deallocuvm_loop pgdir a' oldsz s
           else if present (load32 (mem s) pte) then
             let pa = PTE_ADDR (load32 (mem s) pte)
             in if pa = 0 then Inl (Panic ''kfree'')
                else andThen (kfree (P2V pa) s) (\<lambda>s.
                  let s = s\<lparr>mem := store32 (mem s) pte 0\<rparr>
                  in if a + PGSIZE \<le> a then Inl Block
                     else deallocuvm_loop pgdir (a + PGSIZE) oldsz s)
           else if a + PGSIZE \<le> a then Inl Block
           else deallocuvm_loop pgdir (a + PGSIZE) oldsz s
      else Inr s)"
  by pat_completeness auto
termination
  by (relation "measure (\<lambda>(pgdir, a, oldsz, s). 2 ^ 32 - unat a)")
    (use unsigned_less [where 'a = nat and 'b = 32] in
      \<open>auto simp: word_le_nat_alt not_le intro!: diff_less_mono2\<close>)

declare deallocuvm_loop.simps [simp del]

text \<open>The test \<open>a' \<le> a\<close> marks the wrap of the index to 0, after which the C loop starts over and
  never ends (\<open>Block\<close>); \<open>deallocuvm_loop\<close> is only called with \<^verbatim>\<open>oldsz <= KERNBASE\<close>, where it
  cannot happen.\<close>

definition deallocuvm :: "u32 \<Rightarrow> u32 \<Rightarrow> u32 \<Rightarrow> 'a kmem_scheme \<Rightarrow> (u32 \<times> 'a kmem_scheme) kres" where
  "deallocuvm pgdir oldsz newsz s =
     (if newsz \<ge> oldsz then Inr (oldsz, s)
      else andThen (deallocuvm_loop pgdir (PGROUNDUP newsz) oldsz s) (\<lambda>s. Inr (newsz, s)))"

fun allocuvm_loop ::
  "u32 \<Rightarrow> u32 list \<Rightarrow> u32 \<Rightarrow> u32 \<Rightarrow> 'a kmem_scheme \<Rightarrow> (u32 \<times> 'a kmem_scheme) kres" where
  "allocuvm_loop pgdir [] oldsz newsz s = Inr (newsz, s)"
| "allocuvm_loop pgdir (a # as) oldsz newsz s =
     (let (mm, s) = kalloc s
      in if mm = 0 then
           andThen (cprintf (''allocuvm out of memory'' @ [CHR 0x0A]) [] s) (\<lambda>s.
           andThen (deallocuvm pgdir newsz oldsz s) (\<lambda>(_, s). Inr (0, s)))
         else
           andThen (mappages pgdir a PGSIZE (V2P mm) (or PTE_W PTE_U)
                     (s\<lparr>mem := memset mm 0 PGSIZE (mem s)\<rparr>)) (\<lambda>(r, s).
           if r < 0 then
             andThen (cprintf (''allocuvm out of memory (2)'' @ [CHR 0x0A]) [] s) (\<lambda>s.
             andThen (deallocuvm pgdir newsz oldsz s) (\<lambda>(_, s).
             andThen (kfree mm s) (\<lambda>s. Inr (0, s))))
           else allocuvm_loop pgdir as oldsz newsz s))"

definition allocuvm :: "u32 \<Rightarrow> u32 \<Rightarrow> u32 \<Rightarrow> 'a kmem_scheme \<Rightarrow> (u32 \<times> 'a kmem_scheme) kres" where
  "allocuvm pgdir oldsz newsz s =
     (if newsz \<ge> KERNBASE then Inr (0, s)
      else if newsz < oldsz then Inr (oldsz, s)
      else allocuvm_loop pgdir (page_seq (PGROUNDUP oldsz) newsz) oldsz newsz s)"

fun freevm_loop :: "u32 \<Rightarrow> u32 list \<Rightarrow> 'a kmem_scheme \<Rightarrow> 'a kmem_scheme kres" where
  "freevm_loop pgdir [] s = Inr s"
| "freevm_loop pgdir (i # is) s =
     (let e = load32 (mem s) (pgdir + 4 * i)
      in if present e
         then andThen (kfree (P2V (PTE_ADDR e)) s) (freevm_loop pgdir is)
         else freevm_loop pgdir is s)"

definition freevm :: "u32 \<Rightarrow> 'a kmem_scheme \<Rightarrow> 'a kmem_scheme kres" where
  "freevm pgdir s =
     (if pgdir = 0 then Inl (Panic ''freevm: no pgdir'')
      else andThen (deallocuvm pgdir KERNBASE 0 s) (\<lambda>(_, s).
           andThen (freevm_loop pgdir (map of_nat [0..<1024]) s) (\<lambda>s.
           kfree pgdir s)))"

text \<open>The kernel's own mappings, the same in every page table: (virt, phys\_start, phys\_end, perm).\<close>

definition kmap :: "u32 \<Rightarrow> (u32 \<times> u32 \<times> u32 \<times> u32) list" where
  "kmap data =
     [(KERNBASE, 0, 0x100000, PTE_W),
      (0x80100000, V2P 0x80100000, V2P data, 0),
      (data, V2P data, PHYSTOP, PTE_W),
      (0xFE000000, 0xFE000000, 0, PTE_W)]"

fun setupkvm_loop ::
  "u32 \<Rightarrow> (u32 \<times> u32 \<times> u32 \<times> u32) list \<Rightarrow> 'a kmem_scheme \<Rightarrow> (u32 \<times> 'a kmem_scheme) kres" where
  "setupkvm_loop pgdir [] s = Inr (pgdir, s)"
| "setupkvm_loop pgdir ((virt, start, end1, perm) # ks) s =
     andThen (mappages pgdir virt (end1 - start) start perm s) (\<lambda>(r, s).
     if r < 0 then andThen (freevm pgdir s) (\<lambda>s. Inr (0, s))
     else setupkvm_loop pgdir ks s)"

definition setupkvm :: "'a kvm_scheme \<Rightarrow> (u32 \<times> 'a kvm_scheme) kres" where
  "setupkvm s =
     (let (pgdir, s) = kalloc s
      in if pgdir = 0 then Inr (0, s)
         else if P2V PHYSTOP > 0xFE000000 then Inl (Panic ''PHYSTOP too high'')
         else setupkvm_loop pgdir (kmap (kdata s)) (s\<lparr>mem := memset pgdir 0 PGSIZE (mem s)\<rparr>))"

definition switchkvm :: "'a kvm_scheme \<Rightarrow> 'a kvm_scheme" where
  "switchkvm s = s\<lparr>cr3 := V2P (kpgdir s)\<rparr>"

definition kvmalloc :: "'a kvm_scheme \<Rightarrow> 'a kvm_scheme kres" where
  "kvmalloc s = andThen (setupkvm s) (\<lambda>(d, s). Inr (switchkvm (s\<lparr>kpgdir := d\<rparr>)))"

definition inituvm :: "u32 \<Rightarrow> u32 \<Rightarrow> u32 \<Rightarrow> 'a kmem_scheme \<Rightarrow> 'a kmem_scheme kres" where
  "inituvm pgdir init sz s =
     (if sz \<ge> PGSIZE then Inl (Panic ''inituvm: more than a page'')
      else let (mm, s) = kalloc s
           in if mm = 0 then Inl Fault
              else andThen (mappages pgdir 0 PGSIZE (V2P mm) (or PTE_W PTE_U)
                             (s\<lparr>mem := memset mm 0 PGSIZE (mem s)\<rparr>)) (\<lambda>(_, s).
                   Inr (s\<lparr>mem := memmove mm init sz (mem s)\<rparr>)))"

definition clearpteu :: "u32 \<Rightarrow> u32 \<Rightarrow> 'a kmem_scheme \<Rightarrow> 'a kmem_scheme kres" where
  "clearpteu pgdir uva s =
     (let pte = fst (walkpgdir pgdir uva False s)
      in if pte = 0 then Inl (Panic ''clearpteu'')
         else Inr (s\<lparr>mem := store32 (mem s) pte (and (load32 (mem s) pte) (NOT PTE_U))\<rparr>))"

fun copyuvm_loop ::
  "u32 \<Rightarrow> u32 list \<Rightarrow> u32 \<Rightarrow> 'a kmem_scheme \<Rightarrow> (u32 \<times> 'a kmem_scheme) kres" where
  "copyuvm_loop pgdir [] d s = Inr (d, s)"
| "copyuvm_loop pgdir (i # is) d s =
     (let pte = fst (walkpgdir pgdir i False s)
      in if pte = 0 then Inl (Panic ''copyuvm: pte should exist'')
         else if \<not> present (load32 (mem s) pte) then Inl (Panic ''copyuvm: page not present'')
         else let pa = PTE_ADDR (load32 (mem s) pte);
                  flags = PTE_FLAGS (load32 (mem s) pte);
                  (mm, s) = kalloc s
              in if mm = 0 then andThen (freevm d s) (\<lambda>s. Inr (0, s))
                 else andThen (mappages d i PGSIZE (V2P mm) flags
                                (s\<lparr>mem := memmove mm (P2V pa) PGSIZE (mem s)\<rparr>)) (\<lambda>(r, s).
                      if r < 0 then andThen (freevm d s) (\<lambda>s. Inr (0, s))
                      else copyuvm_loop pgdir is d s))"

definition copyuvm :: "u32 \<Rightarrow> u32 \<Rightarrow> 'a kvm_scheme \<Rightarrow> (u32 \<times> 'a kvm_scheme) kres" where
  "copyuvm pgdir sz s =
     andThen (setupkvm s) (\<lambda>(d, s).
     if d = 0 then Inr (0, s) else copyuvm_loop pgdir (page_seq 0 sz) d s)"

text \<open>\<^verbatim>\<open>uva2ka\<close> reads through the pointer \<^verbatim>\<open>walkpgdir\<close> returns without testing it: \<open>Fault\<close> when the
  page table is missing.\<close>

definition uva2ka :: "u32 \<Rightarrow> u32 \<Rightarrow> 'a kmem_scheme \<Rightarrow> u32 kres" where
  "uva2ka pgdir uva s =
     (let pte = fst (walkpgdir pgdir uva False s)
      in if pte = 0 then Inl Fault
         else if and (load32 (mem s) pte) PTE_P = 0 then Inr 0
         else if and (load32 (mem s) pte) PTE_U = 0 then Inr 0
         else Inr (P2V (PTE_ADDR (load32 (mem s) pte))))"

lemma copyout_step:
  "0 < len \<Longrightarrow> unat (len - (if 4096 - (va - PGROUNDDOWN va) > len then len
      else 4096 - (va - PGROUNDDOWN va))) < unat len"
proof -
  assume len: "0 < len"
  have "unat (va mod 4096) < 4096" by (simp add: unat_mod)
  then have "va mod 4096 \<le> 4096" "unat (4096 - va mod 4096) = 4096 - unat (va mod 4096)"
    by (simp_all add: word_le_nat_alt unat_sub)
  moreover have "va - PGROUNDDOWN va = va mod 4096" by (simp add: PGROUNDDOWN_alt)
  ultimately have "0 < unat (4096 - (va - PGROUNDDOWN va))" using \<open>unat (va mod 4096) < 4096\<close> by simp
  then show ?thesis using len by (auto simp: unat_sub not_less word_less_nat_alt word_le_nat_alt)
qed

function copyout :: "u32 \<Rightarrow> u32 \<Rightarrow> u32 \<Rightarrow> u32 \<Rightarrow> 'a kmem_scheme \<Rightarrow> (int \<times> 'a kmem_scheme) kres" where
  "copyout pgdir va buf len s =
     (if len > 0 then
        let va0 = PGROUNDDOWN va
        in andThen (uva2ka pgdir va0 s) (\<lambda>pa0.
           if pa0 = 0 then Inr (-1, s)
           else let n = PGSIZE - (va - va0);
                    n = (if n > len then len else n)
                in copyout pgdir (va0 + PGSIZE) (buf + n) (len - n)
                     (s\<lparr>mem := memmove (pa0 + (va - va0)) buf n (mem s)\<rparr>))
      else Inr (0, s))"
  by pat_completeness auto
termination
  by (relation "measure (\<lambda>(pgdir, va, buf, len, s). unat len)") (simp, use copyout_step in fastforce)

declare copyout.simps [simp del]

subsection \<open>Memory accesses through the current page table\<close>

text \<open>
  The translation the hardware applies to a kernel access at \<open>va\<close> under the page table in
  \<open>cr3\<close> (write protection is on). An access it refuses traps in kernel mode, where \<^verbatim>\<open>trap\<close>
  calls \<^verbatim>\<open>panic("trap")\<close>.
\<close>

definition translate :: "memory \<Rightarrow> u32 \<Rightarrow> u32 \<Rightarrow> bool \<Rightarrow> u32 option" where
  "translate m pgdir va wr =
     (let pde = load32 m (pgdir + 4 * PDX va)
      in if \<not> present pde \<or> wr \<and> and pde PTE_W = 0 then None
         else let pte = load32 m (P2V (PTE_ADDR pde) + 4 * PTX va)
              in if \<not> present pte \<or> wr \<and> and pte PTE_W = 0 then None
                 else Some (P2V (PTE_ADDR pte) + and va 0xFFF))"

definition vload8 :: "u32 \<Rightarrow> 'a kvm_scheme \<Rightarrow> u8 kres" where
  "vload8 va s = (case translate (mem s) (P2V (cr3 s)) va False of
     None \<Rightarrow> Inl (Panic ''trap'') | Some ka \<Rightarrow> Inr (mem s ka))"

definition vstore8 :: "u32 \<Rightarrow> u8 \<Rightarrow> 'a kvm_scheme \<Rightarrow> 'a kvm_scheme kres" where
  "vstore8 va b s = (case translate (mem s) (P2V (cr3 s)) va True of
     None \<Rightarrow> Inl (Panic ''trap'') | Some ka \<Rightarrow> Inr (s\<lparr>mem := (mem s)(ka := b)\<rparr>))"

definition vload32 :: "u32 \<Rightarrow> 'a kvm_scheme \<Rightarrow> u32 kres" where
  "vload32 va s =
     andThen (vload8 va s) (\<lambda>b0.
     andThen (vload8 (va + 1) s) (\<lambda>b1.
     andThen (vload8 (va + 2) s) (\<lambda>b2.
     andThen (vload8 (va + 3) s) (\<lambda>b3.
     Inr (le32 b0 b1 b2 b3)))))"

definition vstore32 :: "u32 \<Rightarrow> u32 \<Rightarrow> 'a kvm_scheme \<Rightarrow> 'a kvm_scheme kres" where
  "vstore32 va w s =
     andThen (vstore8 va (byte_of 0 w) s) (\<lambda>s.
     andThen (vstore8 (va + 1) (byte_of 1 w) s) (\<lambda>s.
     andThen (vstore8 (va + 2) (byte_of 2 w) s) (\<lambda>s.
     vstore8 (va + 3) (byte_of 3 w) s)))"

fun vload :: "u32 \<Rightarrow> nat \<Rightarrow> 'a kvm_scheme \<Rightarrow> u8 list kres" where
  "vload va 0 s = Inr []"
| "vload va (Suc n) s =
     andThen (vload8 va s) (\<lambda>b. andThen (vload (va + 1) n s) (\<lambda>bs. Inr (b # bs)))"

fun vstore :: "u32 \<Rightarrow> u8 list \<Rightarrow> 'a kvm_scheme \<Rightarrow> 'a kvm_scheme kres" where
  "vstore va [] s = Inr s"
| "vstore va (b # bs) s = andThen (vstore8 va b s) (vstore (va + 1) bs)"

lemma vstore8_frame [frame_simps]: "vstore8 va b s = Inr s' \<Longrightarrow> \<exists>m. s' = s\<lparr>mem := m\<rparr>"
  by (auto simp: vstore8_def split: option.splits)

lemma vstore_frame [frame_simps]: "vstore va bs s = Inr s' \<Longrightarrow> \<exists>m. s' = s\<lparr>mem := m\<rparr>"
proof (induction bs arbitrary: va s)
  case Nil
  then show ?case by (auto intro: exI [of _ "mem s"])
next
  case (Cons b bs)
  then obtain s1 where s1: "vstore8 va b s = Inr s1" "vstore (va + 1) bs s1 = Inr s'" by auto
  from vstore8_frame [OF s1(1)] Cons.IH [OF s1(2)] show ?case by auto
qed

lemma vstore32_frame [frame_simps]: "vstore32 va w s = Inr s' \<Longrightarrow> \<exists>m. s' = s\<lparr>mem := m\<rparr>"
  unfolding vstore32_def by (auto dest!: vstore8_frame)

end
