(* ===== verification/AddrSpace.thy ===== *)
theory AddrSpace
  imports Vm
begin

text \<open>
  Address spaces: what the page tables in memory denote, and what the operations of \<open>Vm\<close> do to
  it. \<open>pte_at\<close> reads the entry for a virtual address as the hardware does; \<open>pt_ok\<close> says that a
  page directory and its page tables are separate usable pages; \<open>vm_inv\<close> adds that none of them
  is free. Over these, \<^verbatim>\<open>walkpgdir\<close> and \<^verbatim>\<open>mappages\<close> have a functional specification.
\<close>

subsection \<open>Words of pages\<close>

lemma unat_page_word:
  assumes "p mod 4096 = (0 :: u32)" "i < 1024"
  shows "unat (p + 4 * i) = unat p + 4 * unat i"
proof -
  have "unat p mod 4096 = 0" using assms(1) by (simp add: word_unat_eq_iff unat_mod)
  then obtain k where k: "unat p = 4096 * k" by (auto simp: mod_eq_0_iff_dvd)
  have "4096 * k < 2 ^ 32" using unsigned_less [where 'a = nat and w = p] k by simp
  then have "unat p + 4096 \<le> 2 ^ 32" using k by simp
  moreover have "unat i < 1024" using assms(2) by (simp add: word_less_nat_alt)
  ultimately show ?thesis by (simp add: unat_word_ariths)
qed

lemma in_page_iff:
  assumes "p mod 4096 = (0 :: u32)"
  shows "x - p < 4096 \<longleftrightarrow> PGROUNDDOWN x = p"
proof
  assume "x - p < 4096"
  with assms have "unat x div 4096 = unat p div 4096" by (rule page_div)
  moreover have "unat p mod 4096 = 0" using assms by (simp add: word_unat_eq_iff unat_mod)
  ultimately show "PGROUNDDOWN x = p"
    by (simp add: word_unat_eq_iff unat_PGROUNDDOWN minus_mod_eq_mult_div)
      (metis dvd_mult_div_cancel mod_eq_0_iff_dvd)
next
  assume "PGROUNDDOWN x = p"
  then have "x - p = x mod 4096" by (simp add: PGROUNDDOWN_alt flip: \<open>PGROUNDDOWN x = p\<close>)
  then show "x - p < 4096" by (simp add: word_less_nat_alt unat_mod)
qed

lemma PGROUNDDOWN_page_word:
  assumes "p mod 4096 = 0" "i < 1024" "k < 4"
  shows "PGROUNDDOWN (p + 4 * i + k) = p"
proof -
  have "unat i < 1024" "unat k < 4" using assms by (simp_all add: word_less_nat_alt)
  then have "unat (4 * i + k) = 4 * unat i + unat k" by (simp add: unat_word_ariths)
  then have "4 * i + k < 4096"
    using \<open>unat i < 1024\<close> \<open>unat k < 4\<close> by (simp add: word_less_nat_alt)
  moreover have "(p + 4 * i + k) - p = 4 * i + k" by simp
  ultimately show ?thesis using in_page_iff [OF assms(1), of "p + 4 * i + k"] by simp
qed

lemma load32_page_cong:
  assumes "p mod 4096 = 0" "i < 1024" "\<And>x. PGROUNDDOWN x = p \<Longrightarrow> m x = m' x"
  shows "load32 m (p + 4 * i) = load32 m' (p + 4 * i)"
  using assms PGROUNDDOWN_page_word by (intro load32_cong) (simp add: PGROUNDDOWN_page_word)

lemma store32_page_outside:
  assumes "p mod 4096 = 0" "i < 1024" "PGROUNDDOWN x \<noteq> p"
  shows "store32 m (p + 4 * i) w x = m x"
proof (rule store32_outside, rule notI)
  assume "x - (p + 4 * i) < 4"
  then have "PGROUNDDOWN (p + 4 * i + (x - (p + 4 * i))) = p"
    using PGROUNDDOWN_page_word [OF assms(1,2)] by blast
  with assms(3) show False by simp
qed

lemma load32_store32_page:
  assumes "p mod 4096 = 0" "i < 1024" "q mod 4096 = 0" "j < 1024"
  shows "load32 (store32 m (p + 4 * i) w) (q + 4 * j) =
    (if p = q \<and> i = j then w else load32 m (q + 4 * j))"
proof (cases "p = q")
  case True
  have "store32 m (p + 4 * i) w (p + 4 * j + k) = m (p + 4 * j + k)" if "i \<noteq> j" "k < 4" for k
  proof (rule store32_outside, rule notI)
    assume "p + 4 * j + k - (p + 4 * i) < 4"
    moreover have "p + 4 * j + k - (p + 4 * i) = 4 * j + k - 4 * i" by (simp add: algebra_simps)
    ultimately have lt: "unat (4 * j + k - 4 * i) < 4" by (simp add: word_less_nat_alt)
    have "unat i < 1024" "unat j < 1024" "unat k < 4"
      using assms(2,4) that by (simp_all add: word_less_nat_alt)
    then have "unat (4 * j + k) = 4 * unat j + unat k" "unat (4 * i) = 4 * unat i"
      by (simp_all add: unat_word_ariths)
    moreover have "unat i \<noteq> unat j" using that(1) by (simp add: word_unat_eq_iff)
    ultimately show False
      using lt unat_sub_if' [of "4 * j + k" "4 * i"] \<open>unat i < 1024\<close> \<open>unat j < 1024\<close> \<open>unat k < 4\<close>
      by (simp split: if_splits)
  qed
  then show ?thesis using True by (auto intro: load32_cong)
next
  case False
  then have "load32 (store32 m (p + 4 * i) w) (q + 4 * j) = load32 m (q + 4 * j)"
    by (intro load32_page_cong [OF assms(3,4)] store32_page_outside [OF assms(1,2)]) simp
  then show ?thesis using False by simp
qed

lemma memset_page:
  "p mod 4096 = 0 \<Longrightarrow> memset p c 4096 m x = (if PGROUNDDOWN x = p then ucast c else m x)"
  by (simp add: memset_apply in_page_iff)

lemma load32_memset_page:
  assumes "p mod 4096 = 0" "q mod 4096 = 0" "j < 1024"
  shows "load32 (memset p 0 4096 m) (q + 4 * j) = (if p = q then 0 else load32 m (q + 4 * j))"
proof (cases "p = q")
  case True
  have "load32 (memset p 0 4096 m) (q + 4 * j) = load32 (\<lambda>_. 0) (q + 4 * j)"
    using assms True by (intro load32_page_cong) (simp_all add: memset_page)
  then show ?thesis using True by (simp add: load32_def le32_def)
next
  case False
  then have "load32 (memset p 0 4096 m) (q + 4 * j) = load32 m (q + 4 * j)"
    by (intro load32_page_cong [OF assms(2,3)]) (simp add: memset_page [OF assms(1)])
  then show ?thesis using False by simp
qed

subsection \<open>Virtual page numbers\<close>

lemma PDX_bits: "PDX va = take_bit 10 (drop_bit 22 va)" and PTX_bits: "PTX va = take_bit 10 (drop_bit 12 va)"
  by (simp_all add: PDX_def PTX_def take_bit_eq_mask mask_eq_exp_minus_1)

lemma PGROUNDDOWN_bits: "PGROUNDDOWN a = and a (NOT (mask 12))"
  by (simp add: PGROUNDDOWN_def mask_eq_exp_minus_1)

lemma PTE_ADDR_bits: "PTE_ADDR a = and a (NOT (mask 12))"
  by (simp add: PTE_ADDR_def mask_eq_exp_minus_1)

lemma PTE_FLAGS_bits: "PTE_FLAGS a = take_bit 12 a"
  by (simp add: PTE_FLAGS_def take_bit_eq_mask mask_eq_exp_minus_1)

lemma take_bit_10_less: "take_bit 10 (x :: u32) < 1024"
  using take_bit_nat_less_exp [of 10 "unat x"] by (simp add: word_less_nat_alt unsigned_take_bit_eq)

lemma PDX_less [simp]: "PDX va < 1024" and PTX_less [simp]: "PTX va < 1024"
  by (simp_all add: PDX_bits PTX_bits take_bit_10_less)

lemma page_of_index:
  "PGROUNDDOWN va = or (push_bit 22 (PDX va)) (push_bit 12 (PTX va))"
  unfolding PGROUNDDOWN_bits PDX_bits PTX_bits
  by (rule bit_word_eqI) (auto simp: bit_simps)

lemma PDX_page: "PDX (PGROUNDDOWN va) = PDX va" and PTX_page: "PTX (PGROUNDDOWN va) = PTX va"
  unfolding PGROUNDDOWN_bits PDX_bits PTX_bits
  by (rule bit_word_eqI; auto simp: bit_simps)+

lemma same_page_iff: "PGROUNDDOWN a = PGROUNDDOWN b \<longleftrightarrow> PDX a = PDX b \<and> PTX a = PTX b"
  by (metis PDX_page PTX_page page_of_index)

lemma PTE_ADDR_aligned: "PTE_ADDR e mod 4096 = 0"
  using PGROUNDDOWN_aligned [of e] by (simp add: PTE_ADDR_bits PGROUNDDOWN_bits)

lemma aligned_bits: "(a :: u32) mod 4096 = 0 \<longleftrightarrow> (\<forall>n < 12. \<not> bit a n)"
proof -
  have "a mod 4096 = take_bit 12 a" using take_bit_eq_mod [of 12 a] by simp
  then show ?thesis by (auto simp: bit_eq_iff bit_simps)
qed

lemma aligned_add:
  assumes "(a :: u32) mod 4096 = 0"
  shows "(a + b) mod 4096 = b mod 4096"
proof -
  have "4096 dvd unat a" using assms by (simp add: word_unat_eq_iff unat_mod mod_eq_0_iff_dvd)
  then obtain k where k: "unat a = 4096 * k" by blast
  have "unat (a + b) mod 4096 = (unat a + unat b) mod 4096"
    by (simp add: unat_word_ariths mod_mod_cancel)
  also have "\<dots> = unat b mod 4096" by (simp add: k)
  finally show ?thesis by (simp add: word_unat_eq_iff unat_mod)
qed

lemma aligned_minus: "(a :: u32) mod 4096 = 0 \<Longrightarrow> l mod 4096 = 0 \<Longrightarrow> (l - a) mod 4096 = 0"
  using aligned_add [of a "l - a"] by simp

lemma V2P_aligned: "a mod 4096 = 0 \<Longrightarrow> V2P a mod 4096 = 0"
  and P2V_aligned: "a mod 4096 = 0 \<Longrightarrow> P2V a mod 4096 = 0"
proof -
  have "(0x80000000 :: u32) mod 4096 = 0" by (simp add: word_unat_eq_iff unat_mod)
  then show "a mod 4096 = 0 \<Longrightarrow> V2P a mod 4096 = 0" "a mod 4096 = 0 \<Longrightarrow> P2V a mod 4096 = 0"
    unfolding V2P_def P2V_def using aligned_minus aligned_add by metis+
qed

lemma PTE_ADDR_or:
  assumes "a mod 4096 = 0" "f < 4096"
  shows "PTE_ADDR (or a f) = a" "PTE_FLAGS (or a f) = f"
proof -
  have "f = take_bit 12 f"
    using assms(2) take_bit_nat_eq_self [of "unat f" 12]
    by (simp add: word_unat_eq_iff unsigned_take_bit_eq word_less_nat_alt)
  then have f: "bit f n \<Longrightarrow> n < 12" for n by (metis bit_take_bit_iff)
  show "PTE_ADDR (or a f) = a" "PTE_FLAGS (or a f) = f"
    using assms(1) f unfolding PTE_ADDR_bits PTE_FLAGS_bits aligned_bits
    by (auto intro!: bit_word_eqI simp: bit_simps)
qed

lemma present_iff: "present e \<longleftrightarrow> bit e 0"
  by (simp add: present_def and_one_eq bit_0 odd_iff_mod_2_eq_one mod2_eq_if)

lemma present_or [simp]: "present (or e 1)"
  by (simp add: present_iff bit_simps)

lemma not_present_0 [simp]: "\<not> present 0"
  by (simp add: present_def)

subsection \<open>What the page tables denote\<close>

definition pde_p :: "memory \<Rightarrow> u32 \<Rightarrow> u32 \<Rightarrow> bool" where
  "pde_p m pgdir d = present (load32 m (pgdir + 4 * d))"

definition ptab :: "memory \<Rightarrow> u32 \<Rightarrow> u32 \<Rightarrow> u32" where
  "ptab m pgdir d = P2V (PTE_ADDR (load32 m (pgdir + 4 * d)))"

definition pte_addr :: "memory \<Rightarrow> u32 \<Rightarrow> u32 \<Rightarrow> u32" where
  "pte_addr m pgdir va = ptab m pgdir (PDX va) + 4 * PTX va"

text \<open>The entry the hardware finds for a virtual address; 0 where the page table is missing.\<close>

definition pte_at :: "memory \<Rightarrow> u32 \<Rightarrow> u32 \<Rightarrow> u32" where
  "pte_at m pgdir va =
     (if pde_p m pgdir (PDX va) then load32 m (pte_addr m pgdir va) else 0)"

definition tables :: "memory \<Rightarrow> u32 \<Rightarrow> u32 set" where
  "tables m pgdir = insert pgdir {ptab m pgdir d | d. d < 1024 \<and> pde_p m pgdir d}"

definition pt_ok :: "u32 \<Rightarrow> memory \<Rightarrow> u32 \<Rightarrow> bool" where
  "pt_ok e m pgdir \<longleftrightarrow> 0 < e \<and> page_ok e pgdir \<and>
     (\<forall>d < 1024. pde_p m pgdir d \<longrightarrow> page_ok e (ptab m pgdir d) \<and> ptab m pgdir d \<noteq> pgdir) \<and>
     (\<forall>d < 1024. \<forall>d' < 1024. pde_p m pgdir d \<and> pde_p m pgdir d' \<and>
        ptab m pgdir d = ptab m pgdir d' \<longrightarrow> d = d')"

definition vm_inv :: "'a kmem_scheme \<Rightarrow> u32 \<Rightarrow> u32 set \<Rightarrow> bool" where
  "vm_inv s pgdir F \<longleftrightarrow> frees s F \<and> pt_ok (kend s) (mem s) pgdir \<and> F \<inter> tables (mem s) pgdir = {}"

lemma page_ok_aligned: "page_ok e p \<Longrightarrow> p mod 4096 = 0"
  by (simp add: page_ok_def)

lemma pt_okD:
  assumes "pt_ok e m pgdir"
  shows "0 < e" "pgdir mod 4096 = 0" "page_ok e pgdir"
    "d < 1024 \<Longrightarrow> pde_p m pgdir d \<Longrightarrow> page_ok e (ptab m pgdir d)"
    "d < 1024 \<Longrightarrow> pde_p m pgdir d \<Longrightarrow> ptab m pgdir d mod 4096 = 0"
    "d < 1024 \<Longrightarrow> pde_p m pgdir d \<Longrightarrow> ptab m pgdir d \<noteq> pgdir"
    "d < 1024 \<Longrightarrow> pde_p m pgdir d \<Longrightarrow> d' < 1024 \<Longrightarrow> pde_p m pgdir d' \<Longrightarrow>
      ptab m pgdir d = ptab m pgdir d' \<Longrightarrow> d = d'"
  using assms unfolding pt_ok_def by (blast dest: page_ok_aligned)+

lemma page_word_nonzero:
  assumes "0 < e" "page_ok e p" "i < 1024"
  shows "p + 4 * i \<noteq> 0"
proof -
  have "0 < unat p" using assms(1,2) by (auto simp: page_ok_def word_less_nat_alt word_le_nat_alt)
  then have "unat (p + 4 * i) \<noteq> 0"
    using unat_page_word [OF page_ok_aligned [OF assms(2)] assms(3)] by simp
  then show ?thesis by (simp add: word_unat_eq_iff)
qed

lemma pte_addr_nonzero:
  "pt_ok e m pgdir \<Longrightarrow> pde_p m pgdir (PDX va) \<Longrightarrow> pte_addr m pgdir va \<noteq> 0"
  unfolding pte_addr_def by (meson PDX_less PTX_less page_word_nonzero pt_okD(1,4))

lemma tables_aligned: "pt_ok e m pgdir \<Longrightarrow> t \<in> tables m pgdir \<Longrightarrow> t mod 4096 = 0 \<and> page_ok e t"
  unfolding tables_def using pt_okD by auto

lemma tables_ptab [simp]: "d < 1024 \<Longrightarrow> pde_p m pgdir d \<Longrightarrow> ptab m pgdir d \<in> tables m pgdir"
  by (auto simp: tables_def)

lemma tables_pgdir [simp]: "pgdir \<in> tables m pgdir"
  by (simp add: tables_def)

text \<open>The tables depend only on their own pages.\<close>

lemma tables_eqI:
  assumes "\<And>d. d < 1024 \<Longrightarrow> pde_p m' pgdir d = pde_p m pgdir d"
    "\<And>d. d < 1024 \<Longrightarrow> ptab m' pgdir d = ptab m pgdir d"
  shows "tables m' pgdir = tables m pgdir" "pt_ok e m' pgdir = pt_ok e m pgdir"
proof -
  show "tables m' pgdir = tables m pgdir" using assms unfolding tables_def by metis
  show "pt_ok e m' pgdir = pt_ok e m pgdir" using assms unfolding pt_ok_def by auto
qed

lemma tables_cong:
  assumes ok: "pt_ok e m pgdir" and eq: "\<And>x. PGROUNDDOWN x \<in> tables m pgdir \<Longrightarrow> m' x = m x"
  shows "d < 1024 \<Longrightarrow> pde_p m' pgdir d = pde_p m pgdir d"
    "d < 1024 \<Longrightarrow> ptab m' pgdir d = ptab m pgdir d"
    "pte_at m' pgdir va = pte_at m pgdir va"
    "tables m' pgdir = tables m pgdir" "pt_ok e m' pgdir" "pte_addr m' pgdir va = pte_addr m pgdir va"
proof -
  have w: "load32 m' (t + 4 * i) = load32 m (t + 4 * i)" if "t \<in> tables m pgdir" "i < 1024" for t i
  proof (rule load32_page_cong)
    show "t mod 4096 = 0" using tables_aligned [OF ok that(1)] by simp
    show "m' x = m x" if "PGROUNDDOWN x = t" for x
      using eq [of x] that \<open>t \<in> tables m pgdir\<close> by simp
  qed (rule that(2))
  have p: "pde_p m' pgdir d = pde_p m pgdir d" if "d < 1024" for d
    using w [OF tables_pgdir that] by (simp add: pde_p_def)
  have t: "ptab m' pgdir d = ptab m pgdir d" if "d < 1024" for d
    using w [OF tables_pgdir that] by (simp add: ptab_def)
  show "pte_at m' pgdir va = pte_at m pgdir va"
    using p t w by (simp add: pte_at_def pte_addr_def)
  show "d < 1024 \<Longrightarrow> pde_p m' pgdir d = pde_p m pgdir d"
    "d < 1024 \<Longrightarrow> ptab m' pgdir d = ptab m pgdir d" "pte_addr m' pgdir va = pte_addr m pgdir va"
    using p t by (simp_all add: pte_addr_def)
  show "tables m' pgdir = tables m pgdir" "pt_ok e m' pgdir"
    using tables_eqI(1) [of m' pgdir m] tables_eqI(2) [of m' pgdir m e] p t ok by simp_all
qed

text \<open>Writing one entry changes one mapping.\<close>

lemma set_pte:
  fixes w :: u32
  assumes ok: "pt_ok e m pgdir" and p: "pde_p m pgdir (PDX va)"
  defines "m' \<equiv> store32 m (pte_addr m pgdir va) w"
  shows "pte_at m' pgdir va' = (if PGROUNDDOWN va' = PGROUNDDOWN va then w else pte_at m pgdir va')"
    "tables m' pgdir = tables m pgdir" "pt_ok e m' pgdir"
    "PGROUNDDOWN x \<notin> tables m pgdir \<Longrightarrow> m' x = m x"
proof -
  note o = pt_okD [OF ok]
  have al: "ptab m pgdir (PDX va) mod 4096 = 0" "ptab m pgdir (PDX va) \<noteq> pgdir" using o p by simp_all
  have dir: "load32 m' (pgdir + 4 * d) = load32 m (pgdir + 4 * d)" if "d < 1024" for d
    using load32_store32_page [OF al(1) PTX_less o(2) that] al(2) by (simp add: m'_def pte_addr_def)
  have pd: "pde_p m' pgdir d = pde_p m pgdir d" "ptab m' pgdir d = ptab m pgdir d" if "d < 1024" for d
    using dir [OF that] by (simp_all add: pde_p_def ptab_def)
  show "tables m' pgdir = tables m pgdir" "pt_ok e m' pgdir"
    using tables_eqI(1) [of m' pgdir m] tables_eqI(2) [of m' pgdir m e] pd ok by simp_all
  show "pte_at m' pgdir va' = (if PGROUNDDOWN va' = PGROUNDDOWN va then w else pte_at m pgdir va')"
  proof (cases "pde_p m pgdir (PDX va')")
    case True
    have "load32 m' (ptab m pgdir (PDX va') + 4 * PTX va') =
        (if ptab m pgdir (PDX va) = ptab m pgdir (PDX va') \<and> PTX va = PTX va' then w
         else load32 m (ptab m pgdir (PDX va') + 4 * PTX va'))"
      unfolding m'_def pte_addr_def
      using load32_store32_page [OF al(1) PTX_less o(5) PTX_less] True by simp
    moreover have "ptab m pgdir (PDX va) = ptab m pgdir (PDX va') \<longleftrightarrow> PDX va = PDX va'"
      using o(7) [OF PDX_less p PDX_less True] by auto
    ultimately show ?thesis
      using True pd by (auto simp: pte_at_def pte_addr_def same_page_iff)
  next
    case False
    then have "PGROUNDDOWN va' \<noteq> PGROUNDDOWN va" using p by (auto simp: same_page_iff)
    then show ?thesis using False pd by (simp add: pte_at_def)
  qed
  show "m' x = m x" if "PGROUNDDOWN x \<notin> tables m pgdir"
  proof -
    have "PGROUNDDOWN x \<noteq> ptab m pgdir (PDX va)" using that p by auto
    then show ?thesis
      unfolding m'_def pte_addr_def by (rule store32_page_outside [OF al(1) PTX_less])
  qed
qed

text \<open>A new, empty page table changes no mapping.\<close>

lemma V2P_flags:
  assumes "t mod 4096 = 0"
  shows "PTE_ADDR (or (or (or (V2P t) 1) 2) 4) = V2P t" "present (or (or (or (V2P t) 1) 2) 4)"
proof -
  have "or (or (or (V2P t) 1) 2) 4 = or (V2P t) 7" by (simp add: or.assoc)
  then show "PTE_ADDR (or (or (or (V2P t) 1) 2) 4) = V2P t"
    using PTE_ADDR_or(1) [OF V2P_aligned [OF assms], of 7] by simp
  show "present (or (or (or (V2P t) 1) 2) 4)" by (simp add: present_iff bit_simps)
qed

lemma add_table:
  assumes ok: "pt_ok e m pgdir" and np: "\<not> pde_p m pgdir d0" and d0: "d0 < 1024"
    and t: "page_ok e t" "t \<notin> tables m pgdir"
  defines "m' \<equiv> store32 (memset t 0 4096 m) (pgdir + 4 * d0) (or (or (or (V2P t) 1) 2) 4)"
  shows "pde_p m' pgdir d0" "ptab m' pgdir d0 = t"
    "pte_at m' pgdir va = pte_at m pgdir va"
    "tables m' pgdir = insert t (tables m pgdir)" "pt_ok e m' pgdir"
    "PGROUNDDOWN x \<notin> insert t (tables m pgdir) \<Longrightarrow> m' x = m x"
proof -
  note o = pt_okD [OF ok]
  have al: "t mod 4096 = 0" using t(1) by (rule page_ok_aligned)
  have ne: "t \<noteq> pgdir" using t(2) by auto
  have dir: "load32 m' (pgdir + 4 * d) =
      (if d = d0 then or (or (or (V2P t) 1) 2) 4 else load32 m (pgdir + 4 * d))" if "d < 1024" for d
    using that d0 o(2) al ne
    by (simp add: m'_def load32_store32_page load32_memset_page)
  have pd: "pde_p m' pgdir d = (d = d0 \<or> pde_p m pgdir d)"
    "ptab m' pgdir d = (if d = d0 then t else ptab m pgdir d)" if "d < 1024" for d
    using dir [OF that] V2P_flags [OF al] by (simp_all add: pde_p_def ptab_def)
  show "pde_p m' pgdir d0" "ptab m' pgdir d0 = t" using pd [OF d0] by simp_all
  show "tables m' pgdir = insert t (tables m pgdir)"
  proof -
    have "{ptab m' pgdir d | d. d < 1024 \<and> pde_p m' pgdir d} =
        insert t {ptab m pgdir d | d. d < 1024 \<and> pde_p m pgdir d}"
      using pd d0 np by (auto, metis, metis)
    then show ?thesis by (auto simp: tables_def)
  qed
  have old: "ptab m pgdir d \<noteq> t" if "d < 1024" "pde_p m pgdir d" for d
    using t(2) tables_ptab [OF that] by auto
  show "pt_ok e m' pgdir"
    unfolding pt_ok_def using o(1,3) pd t(1) ne o(4,6,7) old by auto metis+
  have tab: "load32 m' (q + 4 * i) = load32 m (q + 4 * i)"
    if "q mod 4096 = 0" "i < 1024" "q \<noteq> t" "q \<noteq> pgdir" for q i
    using that al d0 o(2) by (simp add: m'_def load32_store32_page load32_memset_page)
  have new: "load32 m' (t + 4 * i) = 0" if "i < 1024" for i
    using that al d0 o(2) ne by (simp add: m'_def load32_store32_page load32_memset_page)
  show "pte_at m' pgdir va = pte_at m pgdir va"
  proof (cases "PDX va = d0")
    case True
    then show ?thesis using pd [OF d0] np new by (simp add: pte_at_def pte_addr_def)
  next
    case False
    then show ?thesis
      using pd [OF PDX_less] tab [OF o(5) PTX_less old o(6)] by (simp add: pte_at_def pte_addr_def)
  qed
  show "m' x = m x" if "PGROUNDDOWN x \<notin> insert t (tables m pgdir)"
    using that al d0 o(2) by (simp add: m'_def store32_page_outside memset_page tables_def)
qed

subsection \<open>walkpgdir\<close>

lemma frees_write:
  assumes "frees s F" "\<And>x. PGROUNDDOWN x \<in> F \<Longrightarrow> m x = mem s x"
  shows "frees (s\<lparr>mem := m\<rparr>) F"
proof -
  obtain ps where ps: "free_pages s ps" "F = set ps" using assms(1) by (auto simp: frees_def)
  have "chain m (freelist s) ps = chain (mem s) (freelist s) ps"
  proof (rule chain_cong)
    fix p x assume p: "p \<in> set ps" "x - p < 4096"
    then have "p mod 4096 = 0" using ps(1) by (simp add: free_pages_def page_ok_def)
    then show "m x = mem s x" using p assms(2) ps(2) by (simp add: in_page_iff)
  qed
  then show ?thesis using ps by (auto simp: frees_def free_pages_def)
qed

lemma frees_kend: "frees s F \<Longrightarrow> p \<in> F \<Longrightarrow> page_ok (kend s) p"
  using pg.frees_usable by blast

text \<open>\<open>s'\<close> extends the tables of \<open>pgdir\<close> in \<open>s\<close> with pages taken from the free pages \<open>F\<close>, and
  writes only tables.\<close>

definition vm_grow ::
  "'a kmem_scheme \<Rightarrow> 'a kmem_scheme \<Rightarrow> u32 \<Rightarrow> u32 set \<Rightarrow> u32 set \<Rightarrow> bool" where
  "vm_grow s s' pgdir F F' \<longleftrightarrow> vm_inv s' pgdir F' \<and> F' \<subseteq> F \<and>
     F' \<union> tables (mem s') pgdir = F \<union> tables (mem s) pgdir \<and>
     (\<forall>x. PGROUNDDOWN x \<notin> tables (mem s') pgdir \<longrightarrow> mem s' x = mem s x) \<and>
     (\<exists>m f. s' = s\<lparr>mem := m, freelist := f\<rparr>)"

lemma vm_grow_refl: "vm_inv s pgdir F \<Longrightarrow> vm_grow s s pgdir F F"
  unfolding vm_grow_def by (auto intro!: exI [of _ "mem s"] exI [of _ "freelist s"])

lemma vm_grow_tables: "vm_grow s s' pgdir F F' \<Longrightarrow> vm_inv s pgdir F \<Longrightarrow>
    tables (mem s) pgdir \<subseteq> tables (mem s') pgdir"
  unfolding vm_grow_def vm_inv_def by blast

lemma vm_grow_trans:
  assumes "vm_inv s1 pgdir F1" "vm_grow s1 s2 pgdir F1 F2" "vm_grow s2 s3 pgdir F2 F3"
  shows "vm_grow s1 s3 pgdir F1 F3"
proof -
  have inv2: "vm_inv s2 pgdir F2" using assms(2) by (simp add: vm_grow_def)
  have "tables (mem s2) pgdir \<subseteq> tables (mem s3) pgdir"
    by (rule vm_grow_tables [OF assms(3) inv2])
  then show ?thesis
    using assms(2,3) unfolding vm_grow_def by (auto 0 3)
qed

lemma vm_grow_kend: "vm_grow s s' pgdir F F' \<Longrightarrow> kend s' = kend s"
  by (auto simp: vm_grow_def)

lemma walk_noalloc:
  "walkpgdir pgdir va False s =
    (if pde_p (mem s) pgdir (PDX va) then pte_addr (mem s) pgdir va else 0, s)"
  by (simp add: walkpgdir_def pde_p_def pte_addr_def ptab_def Let_def)

lemma walk_present:
  "pde_p (mem s) pgdir (PDX va) \<Longrightarrow> walkpgdir pgdir va al s = (pte_addr (mem s) pgdir va, s)"
  by (simp add: walkpgdir_def pde_p_def pte_addr_def ptab_def Let_def)

lemma walk_full:
  assumes "vm_inv s pgdir {}" "\<not> pde_p (mem s) pgdir (PDX va)"
  shows "walkpgdir pgdir va True s = (0, s)"
proof -
  have "fst (kalloc s) = 0" "snd (kalloc s) = s"
    using assms(1) pg.alloc_none [of s "{}"] pg.alloc_fails [of s "{}"] by (simp_all add: vm_inv_def)
  then have "kalloc s = (0, s)" by (metis prod.collapse)
  then show ?thesis using assms(2) by (simp add: walkpgdir_def pde_p_def Let_def)
qed

lemma walk_new:
  assumes inv: "vm_inv s pgdir F" and np: "\<not> pde_p (mem s) pgdir (PDX va)" and ne: "F \<noteq> {}"
    and w: "walkpgdir pgdir va True s = (pte, s')"
  shows "pde_p (mem s') pgdir (PDX va)" "pte = pte_addr (mem s') pgdir va"
    "pte_at (mem s') pgdir va' = pte_at (mem s) pgdir va'" "\<exists>F'. vm_grow s s' pgdir F F'"
proof -
  have fr: "frees s F" and ok: "pt_ok (kend s) (mem s) pgdir" and dis: "F \<inter> tables (mem s) pgdir = {}"
    using inv by (auto simp: vm_inv_def)
  obtain t s1 where k: "kalloc s = (t, s1)" by fastforce
  have tF: "t \<in> F" and fr1: "frees s1 (F - {t})" using pg.alloc_takes [OF fr ne] k by auto
  have t0: "t \<noteq> 0" and tok: "page_ok (kend s) t" using pg.frees_usable [OF fr tF] by auto
  have tn: "t \<notin> tables (mem s) pgdir" using tF dis by auto
  have s1: "mem s1 = mem s" "kend s1 = kend s" using kalloc_frame [of s] k by simp_all
  define m where "m = store32 (memset t 0 4096 (mem s)) (pgdir + 4 * PDX va) (or (or (or (V2P t) 1) 2) 4)"
  have pte: "pte = t + 4 * PTX va" and s': "s' = s1\<lparr>mem := m\<rparr>"
    using w np k t0 s1 by (auto simp: walkpgdir_def pde_p_def Let_def m_def)
  note at = add_table [OF ok np PDX_less tok tn, folded m_def]
  show "pde_p (mem s') pgdir (PDX va)" "pte = pte_addr (mem s') pgdir va"
    "pte_at (mem s') pgdir va' = pte_at (mem s) pgdir va'"
    using at pte by (simp_all add: s' pte_addr_def)
  have frs: "frees s' (F - {t})"
    unfolding s' using fr1
  proof (rule frees_write)
    fix x assume "PGROUNDDOWN x \<in> F - {t}"
    then show "m x = mem s1 x" using at(6) dis s1 by auto
  qed
  have fld: "\<exists>m f. s' = s\<lparr>mem := m, freelist := f\<rparr>"
  proof -
    obtain f where "s1 = s\<lparr>freelist := f\<rparr>" using k t0 by (auto simp: kalloc_def Let_def split: if_splits)
    then have "s' = s\<lparr>mem := m, freelist := f\<rparr>" unfolding s' by simp
    then show ?thesis by blast
  qed
  have tb: "tables (mem s') pgdir = insert t (tables (mem s) pgdir)"
    and oks: "pt_ok (kend s') (mem s') pgdir"
    using at(4,5) s1 by (simp_all add: s')
  have out: "mem s' x = mem s x" if "PGROUNDDOWN x \<notin> tables (mem s') pgdir" for x
    using that at(4,6) by (simp add: s')
  have "vm_inv s' pgdir (F - {t})" using frs oks dis tn by (auto simp: vm_inv_def tb)
  moreover have "F - {t} \<union> tables (mem s') pgdir = F \<union> tables (mem s) pgdir" using tF tb by auto
  ultimately have "vm_grow s s' pgdir F (F - {t})"
    unfolding vm_grow_def using out fld by simp
  then show "\<exists>F'. vm_grow s s' pgdir F F'" by blast
qed

lemma walk_alloc:
  assumes inv: "vm_inv s pgdir F" and w: "walkpgdir pgdir va True s = (pte, s')"
  shows "(pte = 0 \<and> s' = s \<and> F = {}) \<or>
    (pte \<noteq> 0 \<and> pde_p (mem s') pgdir (PDX va) \<and> pte = pte_addr (mem s') pgdir va \<and>
     (\<forall>va'. pte_at (mem s') pgdir va' = pte_at (mem s) pgdir va') \<and> (\<exists>F'. vm_grow s s' pgdir F F'))"
proof (cases "pde_p (mem s) pgdir (PDX va)")
  case True
  then have "pte = pte_addr (mem s) pgdir va" "s' = s" using w by (auto simp: walk_present)
  then show ?thesis
    using True inv pte_addr_nonzero [of "kend s" "mem s" pgdir va] vm_grow_refl [OF inv]
    by (auto simp: vm_inv_def)
next
  case np: False
  show ?thesis
  proof (cases "F = {}")
    case True
    then show ?thesis using walk_full [of s pgdir va] inv np w by auto
  next
    case False
    note n = walk_new [OF inv np False w]
    then have "pt_ok (kend s') (mem s') pgdir" by (auto simp: vm_grow_def vm_inv_def)
    then have "pte \<noteq> 0" using n(1,2) pte_addr_nonzero by auto
    then show ?thesis using n by auto
  qed
qed

subsection \<open>mappages\<close>

text \<open>The list of addresses is the one the loop visits: it stops at \<open>a == last\<close>.\<close>

lemma mappages_loop_step:
  assumes "a mod 4096 = (0 :: u32)" "l mod 4096 = 0"
  shows "pages a (Suc (unat ((l - a) div 4096))) =
    a # (if a = l then [] else pages (a + 4096) (Suc (unat ((l - (a + 4096)) div 4096))))"
proof (cases "a = l")
  case True
  then show ?thesis by (simp add: pages_Suc)
next
  case False
  define c where "c = l - a"
  have "c mod 4096 = 0" using aligned_minus [OF assms] by (simp add: c_def)
  then have "unat c mod 4096 = 0" by (simp add: word_unat_eq_iff unat_mod)
  moreover have "c \<noteq> 0" using False by (simp add: c_def)
  then have "0 < unat c" by (simp add: unat_gt_0)
  ultimately have "4096 \<le> unat c" by (metis mod_less not_le not_less_zero)
  then have "unat c div 4096 = Suc (unat (c - 4096) div 4096)"
    by (simp add: unat_sub word_le_nat_alt le_div_geq)
  moreover have "unat ((l - (a + 4096)) div 4096) = unat (c - 4096) div 4096"
    "unat ((l - a) div 4096) = unat c div 4096"
    by (simp_all add: c_def unat_div diff_diff_eq)
  ultimately show ?thesis using False by (simp only: pages_Suc if_False)
qed

lemma pte_at_page: "pte_at m pgdir (PGROUNDDOWN va) = pte_at m pgdir va"
  by (simp add: pte_at_def pte_addr_def PDX_page PTX_page)

lemma vm_set_pte:
  assumes inv: "vm_inv s pgdir F" and p: "pde_p (mem s) pgdir (PDX va)"
  shows "vm_grow s (s\<lparr>mem := store32 (mem s) (pte_addr (mem s) pgdir va) w\<rparr>) pgdir F F"
proof -
  let ?m = "store32 (mem s) (pte_addr (mem s) pgdir va) w"
  let ?s = "s\<lparr>mem := ?m\<rparr>"
  have fr: "frees s F" and ok: "pt_ok (kend s) (mem s) pgdir" and dis: "F \<inter> tables (mem s) pgdir = {}"
    using inv by (auto simp: vm_inv_def)
  note sp = set_pte [OF ok p, where w = w]
  have "frees ?s F"
    using fr
  proof (rule frees_write)
    fix x assume "PGROUNDDOWN x \<in> F"
    then have "PGROUNDDOWN x \<notin> tables (mem s) pgdir" using dis by auto
    then show "?m x = mem s x" by (rule sp(4))
  qed
  moreover have "\<exists>m f. ?s = s\<lparr>mem := m, freelist := f\<rparr>"
    by (rule exI [of _ ?m], rule exI [of _ "freelist s"]) simp
  ultimately show ?thesis
    unfolding vm_grow_def vm_inv_def using sp dis by simp
qed

lemma mappages_loop_ok:
  assumes "vm_inv s pgdir F" "distinct as" "\<forall>a \<in> set as. a mod 4096 = 0 \<and> \<not> present (pte_at (mem s) pgdir a)"
  shows "\<exists>r s' F'. mappages_loop pgdir as pa perm s = Inr (r, s') \<and> vm_grow s s' pgdir F F' \<and>
    (\<forall>va. PGROUNDDOWN va \<notin> set as \<longrightarrow> pte_at (mem s') pgdir va = pte_at (mem s) pgdir va) \<and>
    (r = 0 \<and> (\<forall>i < length as. pte_at (mem s') pgdir (as ! i) = or (or (pa + 4096 * of_nat i) perm) 1) \<or>
     r = -1 \<and> F' = {})"
  using assms
proof (induction as arbitrary: s F pa)
  case Nil
  then show ?case using vm_grow_refl by force
next
  case (Cons a as)
  obtain pte s1 where w: "walkpgdir pgdir a True s = (pte, s1)" by fastforce
  have al: "a mod 4096 = 0" and npr: "\<not> present (pte_at (mem s) pgdir a)" using Cons.prems by auto
  have pg: "PGROUNDDOWN a = a" using al by (rule PGROUNDDOWN_idem)
  from walk_alloc [OF Cons.prems(1) w] show ?case
  proof (elim disjE conjE exE)
    assume "pte = 0" "s1 = s" "F = {}"
    then show ?case
      using w vm_grow_refl [OF Cons.prems(1)] by (intro exI [of _ "-1"] exI [of _ s] exI [of _ F]) simp
  next
    fix F1
    assume p0: "pte \<noteq> 0" and pd: "pde_p (mem s1) pgdir (PDX a)" and pte: "pte = pte_addr (mem s1) pgdir a"
      and same: "\<forall>va'. pte_at (mem s1) pgdir va' = pte_at (mem s) pgdir va'"
      and g1: "vm_grow s s1 pgdir F F1"
    have inv1: "vm_inv s1 pgdir F1" using g1 by (simp add: vm_grow_def)
    have ok1: "pt_ok (kend s1) (mem s1) pgdir" using inv1 by (simp add: vm_inv_def)
    let ?w = "or (or pa perm) 1"
    define s2 where "s2 = s1\<lparr>mem := store32 (mem s1) pte ?w\<rparr>"
    have "load32 (mem s1) pte = pte_at (mem s1) pgdir a" using pd pte by (simp add: pte_at_def)
    then have np1: "\<not> present (load32 (mem s1) pte)" using npr same by simp
    have g2: "vm_grow s1 s2 pgdir F1 F1" unfolding s2_def pte by (rule vm_set_pte [OF inv1 pd])
    have at2: "pte_at (mem s2) pgdir va = (if PGROUNDDOWN va = a then ?w else pte_at (mem s) pgdir va)" for va
      using set_pte(1) [OF ok1 pd, of ?w va] same by (simp add: s2_def pte pg)
    have inv2: "vm_inv s2 pgdir F1" using g2 by (simp add: vm_grow_def)
    have "\<forall>b \<in> set as. b mod 4096 = 0 \<and> \<not> present (pte_at (mem s2) pgdir b)"
      using Cons.prems(2,3) by (auto simp: at2 PGROUNDDOWN_idem)
    from Cons.IH [OF inv2 _ this, of "pa + 4096"] Cons.prems(2) obtain r s' F' where
      ih: "mappages_loop pgdir as (pa + 4096) perm s2 = Inr (r, s')" "vm_grow s2 s' pgdir F1 F'"
        "\<forall>va. PGROUNDDOWN va \<notin> set as \<longrightarrow> pte_at (mem s') pgdir va = pte_at (mem s2) pgdir va"
        "r = 0 \<and> (\<forall>i < length as. pte_at (mem s') pgdir (as ! i) = or (or (pa + 4096 + 4096 * of_nat i) perm) 1) \<or>
         r = -1 \<and> F' = {}"
      by auto
    have "vm_grow s s' pgdir F F'"
      using vm_grow_trans Cons.prems(1) g1 g2 inv1 inv2 ih(2) by metis
    moreover have "mappages_loop pgdir (a # as) pa perm s = Inr (r, s')"
      using w p0 np1 ih(1) by (simp add: s2_def)
    moreover have "pte_at (mem s') pgdir va = pte_at (mem s) pgdir va"
      if "PGROUNDDOWN va \<notin> set (a # as)" for va
      using ih(3) at2 that by simp
    moreover have "pte_at (mem s') pgdir a = ?w"
      using ih(3) at2 [of a] Cons.prems(2) pg by simp
    ultimately show ?case
      using ih(4) by (intro exI [of _ r] exI [of _ s'] exI [of _ F'])
        (auto simp: nth_Cons algebra_simps split: nat.splits)
  qed
qed

lemma mappages_one:
  assumes "vm_inv s pgdir F" "a mod 4096 = 0" "\<not> present (pte_at (mem s) pgdir a)"
  shows "\<exists>r s' F'. mappages pgdir a 4096 pa perm s = Inr (r, s') \<and> vm_grow s s' pgdir F F' \<and>
    (\<forall>va. PGROUNDDOWN va \<noteq> a \<longrightarrow> pte_at (mem s') pgdir va = pte_at (mem s) pgdir va) \<and>
    (r = 0 \<and> pte_at (mem s') pgdir a = or (or pa perm) 1 \<or> r = -1 \<and> F' = {})"
proof -
  have "PGROUNDDOWN (a + 4095) = a"
    using in_page_iff [OF assms(2), of "a + 4095"] by (simp add: word_less_nat_alt)
  then have "mappages pgdir a 4096 pa perm s = mappages_loop pgdir [a] pa perm s"
    using assms(2) by (simp add: mappages_def PGROUNDDOWN_idem pages_def Let_def add.commute)
  then show ?thesis
    using mappages_loop_ok [OF assms(1), of "[a]" pa perm] assms(2,3) by simp
qed

text \<open>The pages a call of \<^verbatim>\<open>mappages\<close> covers.\<close>

definition map_range :: "u32 \<Rightarrow> u32 \<Rightarrow> u32 list" where
  "map_range va sz = (let a = PGROUNDDOWN va; la = PGROUNDDOWN (va + sz - 1)
     in pages a (Suc (unat ((la - a) div PGSIZE))))"

lemma pages_nth: "i < n \<Longrightarrow> pages p n ! i = p + 4096 * of_nat i"
  by (simp add: pages_def)

lemma length_pages [simp]: "length (pages p n) = n"
  by (simp add: pages_def)

lemma pages_aligned: "p mod 4096 = 0 \<Longrightarrow> a \<in> set (pages p n) \<Longrightarrow> a mod 4096 = 0"
proof -
  assume p: "p mod 4096 = 0" and "a \<in> set (pages p n)"
  then obtain i where a: "a = p + 4096 * of_nat i" by (auto simp: pages_def)
  have "(4096 * of_nat i :: u32) mod 4096 = 0"
    by (simp add: word_unat_eq_iff unat_mod unat_word_ariths mod_mod_cancel)
  then show ?thesis using aligned_add [OF p] a by simp
qed

lemma distinct_pages:
  assumes "n \<le> 2 ^ 20"
  shows "distinct (pages p n)"
proof -
  have "i = j" if "i < n" "j < n" "4096 * of_nat i = (4096 * of_nat j :: u32)" for i j
  proof -
    have "unat (4096 * of_nat k :: u32) = 4096 * k" if "k < n" for k
    proof -
      have "4096 * k < 2 ^ 32" using that assms by simp
      moreover have "(4096 * of_nat k :: u32) = of_nat (4096 * k)" by simp
      ultimately show ?thesis by (simp only: unat_of_nat) simp
    qed
    then have "4096 * i = 4096 * j" using that by metis
    then show ?thesis by simp
  qed
  then show ?thesis by (auto simp: pages_def distinct_map inj_on_def)
qed

text \<open>C3: \<^verbatim>\<open>mappages\<close> maps exactly the requested pages. On a page directory whose tables are
  separate allocated pages, for a range none of whose pages is mapped, it never panics. It
  writes page tables only, taking new ones from the free pages; every address outside the range
  keeps its mapping; on success the \<open>i\<close>-th page of the range maps to the \<open>i\<close>-th page from \<open>pa\<close>
  with the requested permissions; it fails only when no page is free.\<close>

theorem mappages_maps:
  assumes "vm_inv s pgdir F" "\<forall>a \<in> set (map_range va sz). \<not> present (pte_at (mem s) pgdir a)"
  shows "\<exists>r s' F'. mappages pgdir va sz pa perm s = Inr (r, s') \<and> vm_grow s s' pgdir F F' \<and>
    (\<forall>x. PGROUNDDOWN x \<notin> set (map_range va sz) \<longrightarrow> pte_at (mem s') pgdir x = pte_at (mem s) pgdir x) \<and>
    (r = 0 \<and> (\<forall>i < length (map_range va sz).
       pte_at (mem s') pgdir (map_range va sz ! i) = or (or (pa + 4096 * of_nat i) perm) 1) \<or>
     r = -1 \<and> F' = {})"
proof -
  let ?d = "PGROUNDDOWN (va + sz - 1) - PGROUNDDOWN va"
  have "unat (?d div 4096) < 2 ^ 20"
    using unsigned_less [where 'a = nat and w = ?d] by (simp add: unat_div div_less_iff_less_mult)
  then have "distinct (map_range va sz)"
    unfolding map_range_def Let_def by (intro distinct_pages) simp
  moreover have "\<forall>a \<in> set (map_range va sz). a mod 4096 = 0 \<and> \<not> present (pte_at (mem s) pgdir a)"
    using assms(2) pages_aligned [OF PGROUNDDOWN_aligned] unfolding map_range_def Let_def by blast
  moreover have "mappages pgdir va sz pa perm s = mappages_loop pgdir (map_range va sz) pa perm s"
    by (simp add: mappages_def map_range_def Let_def)
  ultimately show ?thesis using mappages_loop_ok [OF assms(1)] by simp
qed

text \<open>An empty page directory at \<open>0x80116000\<close> and two free pages.\<close>

lemma boot_vm_inv:
  "\<exists>s :: kmem. vm_inv s 0x80116000 {0x80118000, 0x80117000} \<and> (\<forall>va. pte_at (mem s) 0x80116000 va = 0)"
proof -
  have "free_pages boot_mem []" "kend boot_mem = 0x80115000"
    by (simp_all add: free_pages_def boot_mem_def kcpu.defs)
  then obtain s1 :: kmem where s1: "kfree 0x80117000 boot_mem = Inr s1" "free_pages s1 [0x80117000]"
      "kend s1 = 0x80115000"
    using kfree_ok [of boot_mem "[]" "0x80117000"] by (auto simp: page_ok_def V2P_def)
  then obtain s2 :: kmem where s2: "kfree 0x80118000 s1 = Inr s2" "free_pages s2 [0x80118000, 0x80117000]"
      "kend s2 = 0x80115000"
    using kfree_ok [of s1 "[0x80117000]" "0x80118000"] by (auto simp: page_ok_def V2P_def)
  have z: "mem s2 x = 0" if "PGROUNDDOWN x = 0x80116000" for x
  proof -
    have al: "(0x80117000 :: u32) mod 4096 = 0" "(0x80118000 :: u32) mod 4096 = 0"
      by (simp_all add: word_unat_eq_iff unat_mod)
    have "\<not> x - 0x80117000 < 4096" "\<not> x - 0x80118000 < 4096"
      using that in_page_iff [OF al(1), of x] in_page_iff [OF al(2), of x] by simp_all
    then have "mem s2 x = mem boot_mem x" using kfree_mem [OF s1(1)] kfree_mem [OF s2(1)] by simp
    then show ?thesis by (simp add: boot_mem_def kcpu.defs)
  qed
  have al: "(0x80116000 :: u32) mod 4096 = 0" by (simp add: word_unat_eq_iff unat_mod)
  have np: "\<not> pde_p (mem s2) 0x80116000 d" if "d < 1024" for d
  proof -
    have "load32 (mem s2) (0x80116000 + 4 * d) = load32 (\<lambda>_. 0) (0x80116000 + 4 * d)"
      using z by (intro load32_page_cong [OF al that]) simp
    then show ?thesis by (simp add: pde_p_def load32_def le32_def)
  qed
  have "page_ok 0x80115000 0x80116000" using al by (simp add: page_ok_def V2P_def)
  then have "pt_ok (kend s2) (mem s2) 0x80116000" using np s2(3) by (simp add: pt_ok_def)
  moreover have "frees s2 {0x80118000, 0x80117000}" using s2(2) by (auto simp: frees_def)
  ultimately have "vm_inv s2 0x80116000 {0x80118000, 0x80117000}"
    using np by (auto simp: vm_inv_def tables_def)
  moreover have "\<forall>va. pte_at (mem s2) 0x80116000 va = 0" using np by (simp add: pte_at_def)
  ultimately show ?thesis by blast
qed

theorem mappages_maps_witness:
  "\<exists>(s :: kmem) r s' F'. mappages 0x80116000 0x3000 0x1000 0x118000 6 s = Inr (r, s') \<and>
     vm_grow s s' 0x80116000 {0x80118000, 0x80117000} F' \<and>
     (r = 0 \<and> pte_at (mem s') 0x80116000 0x3000 = 0x118007 \<or> r = -1 \<and> F' = {})"
proof -
  obtain s :: kmem where s: "vm_inv s 0x80116000 {0x80118000, 0x80117000}"
      "\<forall>va. pte_at (mem s) 0x80116000 va = 0" using boot_vm_inv by blast
  have r: "map_range 0x3000 0x1000 = [0x3000]" by code_simp
  show ?thesis
    using mappages_maps [OF s(1), of "0x3000" "0x1000" "0x118000" 6] s(2) unfolding r by auto
qed

end
