(* ===== verification/Proc.thy ===== *)
theory Proc
  imports Vm
begin

text \<open>
  The process table of \<^verbatim>\<open>proc.h\<close> and \<^verbatim>\<open>proc.c\<close>: slots, allocation, wake-ups, \<^verbatim>\<open>kill\<close>, the reaping
  of children by \<^verbatim>\<open>wait\<close> and \<^verbatim>\<open>time\<close>, and the informational system calls this repository adds
  (\<^verbatim>\<open>cps\<close>, \<^verbatim>\<open>getppid\<close>, \<^verbatim>\<open>getsz\<close>, \<^verbatim>\<open>chpr\<close>, \<^verbatim>\<open>getcount\<close>).

  A process is the index of its slot. C \<^verbatim>\<open>int\<close> fields and results are machine words. The trap
  frame and the saved context, which the code keeps on the kernel stack page, are held by value
  in the slot. \<^verbatim>\<open>ptable.lock\<close> makes each operation one step; \<open>Sched\<close> has the operations that
  give up the lock halfway. A call that goes to sleep returns \<open>SleepOn\<close> with the caller's slot
  marked \<open>SLEEPING\<close>; when it is woken the call runs again from the top of its loop.
\<close>

datatype procstate = UNUSED | EMBRYO | SLEEPING | RUNNABLE | RUNNING | ZOMBIE

text \<open>Wait channels: the addresses of distinct kernel objects.\<close>

datatype chan = ChProc "nat option" | ChTicks | ChLog | ChInput | ChBuf nat | ChLock nat
  | ChPipeR nat | ChPipeW nat

datatype kcode = Forkret | Trapret | Nowhere

record trapframe =
  t_edi :: u32
  t_esi :: u32
  t_ebp :: u32
  t_oesp :: u32
  t_ebx :: u32
  t_edx :: u32
  t_ecx :: u32
  t_eax :: u32
  t_gs :: u16
  t_fs :: u16
  t_es :: u16
  t_ds :: u16
  t_trapno :: u32
  t_err :: u32
  t_eip :: u32
  t_cs :: u16
  t_eflags :: u32
  t_esp :: u32
  t_ss :: u16

record pcontext =
  c_edi :: u32
  c_esi :: u32
  c_ebx :: u32
  c_ebp :: u32
  c_eip :: kcode

record proc =
  p_sz :: u32
  p_pgdir :: u32
  kstack :: u32
  p_state :: procstate
  p_pid :: u32
  parent :: "nat option"
  tf :: trapframe
  p_context :: pcontext
  p_ret :: kcode
  p_chan :: "chan option"
  killed :: bool
  ofile :: "nat option list"
  cwd :: "nat option"
  p_name :: "u8 list"
  priority :: u32
  sys_count :: "u32 list"
  arrivalt :: u32
  endt :: u32
  burstt :: u32
  iot :: u32

record kproc = kvm +
  ptable :: "proc list"
  initproc :: "nat option"
  nextpid :: u32
  ticks :: u32

abbreviation (input) SYS_cn :: nat where "SYS_cn \<equiv> 29"
abbreviation (input) DEFAULTPRIORITY :: u32 where "DEFAULTPRIORITY \<equiv> 10"
abbreviation (input) PTABLE_LOCK :: nat where "PTABLE_LOCK \<equiv> 1"

datatype 'r outcome = Ret 'r | SleepOn chan

definition upd_proc :: "nat \<Rightarrow> (proc \<Rightarrow> proc) \<Rightarrow> 'a kproc_scheme \<Rightarrow> 'a kproc_scheme" where
  "upd_proc i f s = s\<lparr>ptable := (ptable s)[i := f (ptable s ! i)]\<rparr>"

text \<open>\<^verbatim>\<open>myproc()\<close> followed by a use of the pointer: a fault when no process runs on this CPU.\<close>

definition curproc :: "'a kproc_scheme \<Rightarrow> nat kres" where
  "curproc s = (case cproc (cpus s ! this s) of None \<Rightarrow> Inl Fault | Some p \<Rightarrow> Inr p)"

definition pinit :: "'a kproc_scheme \<Rightarrow> 'a kproc_scheme" where
  "pinit s = initlock PTABLE_LOCK s"

subsection \<open>Allocation\<close>

definition allocproc :: "'a kproc_scheme \<Rightarrow> nat option \<times> 'a kproc_scheme" where
  "allocproc s =
     (case find_index (\<lambda>p. p_state p = UNUSED) (ptable s) of
        None \<Rightarrow> (None, s)
      | Some i \<Rightarrow>
          let s = upd_proc i (\<lambda>p. p\<lparr>p_state := EMBRYO, p_pid := nextpid s,
                                   priority := DEFAULTPRIORITY\<rparr>) s;
              s = s\<lparr>nextpid := nextpid s + 1\<rparr>;
              (k, s) = kalloc s;
              s = upd_proc i (\<lambda>p. p\<lparr>kstack := k\<rparr>) s
          in if k = 0 then (None, upd_proc i (\<lambda>p. p\<lparr>p_state := UNUSED\<rparr>) s)
             else (Some i, upd_proc i (\<lambda>p. p\<lparr>
                     p_ret := Trapret,
                     p_context := \<lparr>c_edi = 0, c_esi = 0, c_ebx = 0, c_ebp = 0, c_eip = Forkret\<rparr>,
                     sys_count := replicate (length (sys_count p)) 0\<rparr>) s))"

subsection \<open>Wake-ups and kill\<close>

definition wake :: "chan \<Rightarrow> proc \<Rightarrow> proc" where
  "wake ch p = (if p_state p = SLEEPING \<and> p_chan p = Some ch then p\<lparr>p_state := RUNNABLE\<rparr> else p)"

definition wakeup1 :: "chan \<Rightarrow> 'a kproc_scheme \<Rightarrow> 'a kproc_scheme" where
  "wakeup1 ch s = s\<lparr>ptable := map (wake ch) (ptable s)\<rparr>"

definition wakeup :: "chan \<Rightarrow> 'a kproc_scheme \<Rightarrow> 'a kproc_scheme" where
  "wakeup ch s = wakeup1 ch s"

definition kill :: "u32 \<Rightarrow> 'a kproc_scheme \<Rightarrow> u32 \<times> 'a kproc_scheme" where
  "kill pid s =
     (case find_index (\<lambda>p. p_pid p = pid) (ptable s) of
        Some i \<Rightarrow> (0, upd_proc i (\<lambda>p. let p = p\<lparr>killed := True\<rparr>
                     in if p_state p = SLEEPING then p\<lparr>p_state := RUNNABLE\<rparr> else p) s)
      | None \<Rightarrow> (-1, s))"

subsection \<open>Informational system calls\<close>

definition cps_line :: "proc \<Rightarrow> 'a kproc_scheme \<Rightarrow> 'a kproc_scheme kres" where
  "cps_line p s =
     (let args = [CStr (p_name p), CInt (p_pid p), CInt (priority p)];
          row = ''%s'' @ [CHR 0x09] @ ''%d'' @ [CHR 0x09] @ ''%d'' @ [CHR 0x09]
      in if p_state p = SLEEPING then cprintf (row @ ''SLEEPING'' @ [CHR 0x0A]) args s
         else if p_state p = RUNNABLE then cprintf (row @ ''RUNNABLE'' @ [CHR 0x0A]) args s
         else if p_state p = RUNNING then cprintf (row @ ''RUNNING'' @ [CHR 0x0A]) args s
         else Inr s)"

fun cps_loop :: "proc list \<Rightarrow> 'a kproc_scheme \<Rightarrow> 'a kproc_scheme kres" where
  "cps_loop [] s = Inr s"
| "cps_loop (p # ps) s = andThen (cps_line p s) (cps_loop ps)"

definition cps :: "'a kproc_scheme \<Rightarrow> (u32 \<times> 'a kproc_scheme) kres" where
  "cps s =
     (let s = sti s
      in andThen (cprintf (''Process Name'' @ [CHR 0x09] @ ''pid'' @ [CHR 0x09] @ ''Priority'' @
                           [CHR 0x09] @ ''State'' @ [CHR 0x0A]) [] s) (\<lambda>s.
         andThen (cps_loop (ptable s) s) (\<lambda>s. Inr (22, s))))"

definition getppid :: "'a kproc_scheme \<Rightarrow> u32 kres" where
  "getppid s = andThen (curproc s) (\<lambda>c.
     case parent (ptable s ! c) of None \<Rightarrow> Inl Fault | Some q \<Rightarrow> Inr (p_pid (ptable s ! q)))"

definition getsz :: "'a kproc_scheme \<Rightarrow> u32 kres" where
  "getsz s = andThen (curproc s) (\<lambda>c. Inr (p_sz (ptable s ! c)))"

definition chpr :: "u32 \<Rightarrow> u32 \<Rightarrow> 'a kproc_scheme \<Rightarrow> u32 \<times> 'a kproc_scheme" where
  "chpr pid prio s =
     (case find_index (\<lambda>p. p_pid p = pid) (ptable s) of
        Some i \<Rightarrow> (pid, upd_proc i (\<lambda>p. p\<lparr>priority := prio\<rparr>) s)
      | None \<Rightarrow> (pid, s))"

text \<open>
  \<^verbatim>\<open>sys_count[k]\<close> with no bounds check: the array has 29 entries and is followed in the structure
  by \<^verbatim>\<open>arrivalt\<close>, \<^verbatim>\<open>endt\<close>, \<^verbatim>\<open>burstt\<close> and \<^verbatim>\<open>iot\<close>, then by the next slot of the table. The words
  of the slot after the array are modelled; further out is \<open>Fault\<close>.
\<close>

definition count_get :: "proc \<Rightarrow> int \<Rightarrow> u32 kres" where
  "count_get p k =
     (if 0 \<le> k \<and> nat k < length (sys_count p) then Inr (sys_count p ! nat k)
      else if k = 29 then Inr (arrivalt p)
      else if k = 30 then Inr (endt p)
      else if k = 31 then Inr (burstt p)
      else if k = 32 then Inr (iot p)
      else Inl Fault)"

definition count_inc :: "proc \<Rightarrow> int \<Rightarrow> proc kres" where
  "count_inc p k =
     (if 0 \<le> k \<and> nat k < length (sys_count p)
      then Inr (p\<lparr>sys_count := (sys_count p)[nat k := sys_count p ! nat k + 1]\<rparr>)
      else if k = 29 then Inr (p\<lparr>arrivalt := arrivalt p + 1\<rparr>)
      else if k = 30 then Inr (p\<lparr>endt := endt p + 1\<rparr>)
      else if k = 31 then Inr (p\<lparr>burstt := burstt p + 1\<rparr>)
      else if k = 32 then Inr (p\<lparr>iot := iot p + 1\<rparr>)
      else Inl Fault)"

definition getcount :: "u32 \<Rightarrow> 'a kproc_scheme \<Rightarrow> u32 kres" where
  "getcount procno s = andThen (curproc s) (\<lambda>c. count_get (ptable s ! c) (sint (procno - 1)))"

subsection \<open>wait and time\<close>

text \<open>What both calls do with the zombie child in slot \<open>i\<close>: free its stack and memory and clear
  the slot.\<close>

definition reap :: "nat \<Rightarrow> 'a kproc_scheme \<Rightarrow> 'a kproc_scheme kres" where
  "reap i s =
     andThen (kfree (kstack (ptable s ! i)) s) (\<lambda>s.
     let s = upd_proc i (\<lambda>p. p\<lparr>kstack := 0\<rparr>) s
     in andThen (freevm (p_pgdir (ptable s ! i)) s) (\<lambda>s.
        Inr (upd_proc i (\<lambda>p. p\<lparr>p_pid := 0, parent := None, p_name := (p_name p)[0 := 0],
               killed := False, p_state := UNUSED\<rparr>) s)))"

definition zombie_child :: "nat \<Rightarrow> proc \<Rightarrow> bool" where
  "zombie_child c p \<longleftrightarrow> parent p = Some c \<and> p_state p = ZOMBIE"

definition wait :: "'a kproc_scheme \<Rightarrow> (u32 outcome \<times> 'a kproc_scheme) kres" where
  "wait s =
     andThen (curproc s) (\<lambda>c.
     case find_index (zombie_child c) (ptable s) of
       Some i \<Rightarrow>
         let pid = p_pid (ptable s ! i)
         in andThen (reap i s) (\<lambda>s. Inr (Ret pid, s))
     | None \<Rightarrow>
         if \<not> list_ex (\<lambda>p. parent p = Some c) (ptable s) \<or> killed (ptable s ! c)
         then Inr (Ret (-1), s)
         else Inr (SleepOn (ChProc (Some c)), upd_proc c (\<lambda>p. p\<lparr>
                p_chan := Some (ChProc (Some c)), p_state := SLEEPING\<rparr>) s))"

definition time :: "u32 \<Rightarrow> u32 \<Rightarrow> 'a kproc_scheme \<Rightarrow> (u32 outcome \<times> 'a kproc_scheme) kres" where
  "time waitt bt s =
     andThen (curproc s) (\<lambda>c.
     case find_index (zombie_child c) (ptable s) of
       Some i \<Rightarrow>
         let p = ptable s ! i
         in andThen (vstore32 waitt (endt p - arrivalt p - burstt p - iot p) s) (\<lambda>s.
            andThen (vstore32 bt (burstt p) s) (\<lambda>s.
            andThen (reap i s) (\<lambda>s. Inr (Ret (p_pid p), s))))
     | None \<Rightarrow>
         if \<not> list_ex (\<lambda>p. parent p = Some c) (ptable s) \<or> killed (ptable s ! c)
         then Inr (Ret (-1), s)
         else Inr (SleepOn (ChProc (Some c)), upd_proc c (\<lambda>p. p\<lparr>
                p_chan := Some (ChProc (Some c)), p_state := SLEEPING\<rparr>) s))"

subsection \<open>procdump\<close>

definition state_name :: "procstate \<Rightarrow> string" where
  "state_name st = (case st of UNUSED \<Rightarrow> ''unused'' | EMBRYO \<Rightarrow> ''embryo'' | SLEEPING \<Rightarrow> ''sleep ''
     | RUNNABLE \<Rightarrow> ''runble'' | RUNNING \<Rightarrow> ''run   '' | ZOMBIE \<Rightarrow> ''zombie'')"

fun print_pcs :: "u32 list \<Rightarrow> 'a kproc_scheme \<Rightarrow> 'a kproc_scheme kres" where
  "print_pcs [] s = Inr s"
| "print_pcs (pc # pcs) s =
     (if pc = 0 then Inr s else andThen (cprintf '' %p'' [CInt pc] s) (print_pcs pcs))"

definition procdump_line :: "proc \<Rightarrow> 'a kproc_scheme \<Rightarrow> 'a kproc_scheme kres" where
  "procdump_line p s =
     (if p_state p = UNUSED then Inr s
      else andThen (cprintf (''%d'' @ [CHR 0x09] @ ''%s'' @ [CHR 0x09] @ ''%s'' @ [CHR 0x09])
                     [CInt (p_pid p), CStr (p_name p), CStr (map of_char (state_name (p_state p)))] s) (\<lambda>s.
           andThen (if p_state p = SLEEPING
                    then print_pcs (getcallerpcs (c_ebp (p_context p) + 8) (mem s)) s
                    else Inr s) (\<lambda>s.
           cprintf [CHR 0x0A] [] s)))"

fun procdump_loop :: "proc list \<Rightarrow> 'a kproc_scheme \<Rightarrow> 'a kproc_scheme kres" where
  "procdump_loop [] s = Inr s"
| "procdump_loop (p # ps) s = andThen (procdump_line p s) (procdump_loop ps)"

definition procdump :: "'a kproc_scheme \<Rightarrow> 'a kproc_scheme kres" where
  "procdump s = andThen (cprintf [CHR 0x0A] [] s) (\<lambda>s. procdump_loop (ptable s) s)"

end
