(* ===== verification/Proc_Inv.thy ===== *)
theory Proc_Inv
  imports Proc
begin

text \<open>
  Properties of the process table. \<open>pid_inv\<close>, the invariant: a nonzero process id is in at most
  one slot, also counting the stale ids of slots whose allocation failed, and is below \<^verbatim>\<open>nextpid\<close>.
  Every operation on the table keeps it; with it, \<^verbatim>\<open>kill\<close> and \<^verbatim>\<open>chpr\<close> act on exactly the process
  they name.
\<close>

definition pid_inv :: "'a kproc_scheme \<Rightarrow> bool" where
  "pid_inv s \<longleftrightarrow> length (ptable s) = NPROC \<and> 0 < nextpid s \<and>
     (\<forall>i < NPROC. p_pid (ptable s ! i) < nextpid s) \<and>
     (\<forall>i < NPROC. \<forall>j < NPROC. p_pid (ptable s ! i) = p_pid (ptable s ! j) \<longrightarrow>
        p_pid (ptable s ! i) \<noteq> 0 \<longrightarrow> i = j)"

lemma upd_proc_simps [simp]:
  "length (ptable (upd_proc i f s)) = length (ptable s)"
  "nextpid (upd_proc i f s) = nextpid s" "mem (upd_proc i f s) = mem s"
  "kend (upd_proc i f s) = kend s" "freelist (upd_proc i f s) = freelist s"
  "cpus (upd_proc i f s) = cpus s" "this (upd_proc i f s) = this s" "cr3 (upd_proc i f s) = cr3 s"
  "initproc (upd_proc i f s) = initproc s" "out (upd_proc i f s) = out s"
  "ticks (upd_proc i f s) = ticks s"
  by (simp_all add: upd_proc_def)

lemma upd_proc_nth:
  "j < length (ptable s) \<Longrightarrow>
    ptable (upd_proc i f s) ! j = (if i = j then f (ptable s ! i) else ptable s ! j)"
  by (simp add: upd_proc_def nth_list_update)

lemma kalloc_kproc [simp]:
  "ptable (snd (kalloc s)) = ptable s" "nextpid (snd (kalloc s)) = nextpid s"
  "cpus (snd (kalloc s)) = cpus s" "this (snd (kalloc s)) = this s"
  "initproc (snd (kalloc s)) = initproc s"
  by (simp_all add: kalloc_def Let_def)

text \<open>An operation that changes no id and does not go back in \<^verbatim>\<open>nextpid\<close> keeps the invariant.\<close>

lemma pid_inv_cong:
  assumes "pid_inv s" "length (ptable s') = NPROC" "nextpid s' = nextpid s"
    "\<And>i. i < NPROC \<Longrightarrow> p_pid (ptable s' ! i) = p_pid (ptable s ! i) \<or> p_pid (ptable s' ! i) = 0"
  shows "pid_inv s'"
  unfolding pid_inv_def
proof (intro conjI allI impI)
  fix i j assume "i < NPROC" "j < NPROC" "p_pid (ptable s' ! i) = p_pid (ptable s' ! j)"
    "p_pid (ptable s' ! i) \<noteq> 0"
  then show "i = j" using assms(1) assms(4) [of i] assms(4) [of j] unfolding pid_inv_def by metis
next
  fix i assume "i < NPROC"
  then show "p_pid (ptable s' ! i) < nextpid s'"
    using assms(1) assms(4) [of i] unfolding pid_inv_def assms(3) by metis
qed (use assms in \<open>auto simp: pid_inv_def\<close>)

lemma kill_inv [inv_intros]: "pid_inv s \<Longrightarrow> pid_inv (snd (kill pid s))"
  by (rule pid_inv_cong [of s])
    (auto simp: kill_def pid_inv_def upd_proc_nth Let_def split: option.splits)

lemma chpr_inv [inv_intros]: "pid_inv s \<Longrightarrow> pid_inv (snd (chpr pid prio s))"
  by (rule pid_inv_cong [of s])
    (auto simp: chpr_def pid_inv_def upd_proc_nth split: option.splits)

lemma wakeup_inv [inv_intros]: "pid_inv s \<Longrightarrow> pid_inv (wakeup ch s)"
  by (rule pid_inv_cong [of s])
    (auto simp: wakeup_def wakeup1_def wake_def pid_inv_def)

subsection \<open>The table survives memory operations\<close>

text \<open>Operations of the lower layers change the memory, the free list and the console only: they
  leave the rest of the state, \<open>kcore\<close>, as it is.\<close>

definition kcore :: "'a kmem_scheme \<Rightarrow> 'a kmem_scheme" where
  "kcore s = s\<lparr>mem := \<lambda>_. 0, freelist := 0, out := []\<rparr>"

definition same_procs :: "'a kmem_scheme \<Rightarrow> 'a kmem_scheme \<Rightarrow> bool" where
  "same_procs s s' \<longleftrightarrow> kcore s = kcore s'"

lemma same_procs_refl [simp]: "same_procs s s"
  by (simp add: same_procs_def)

lemma same_procs_trans [trans]: "same_procs s t \<Longrightarrow> same_procs t u \<Longrightarrow> same_procs s u"
  by (simp add: same_procs_def)

lemma same_procs_sym: "same_procs s t \<Longrightarrow> same_procs t s"
  by (simp add: same_procs_def)

lemma same_procs_mem [simp]: "same_procs s (s\<lparr>mem := m\<rparr>)"
  by (simp add: same_procs_def kcore_def)

lemma same_procsD:
  assumes "same_procs (s :: 'a kproc_scheme) s'"
  shows "ptable s' = ptable s" "nextpid s' = nextpid s" "cpus s' = cpus s" "this s' = this s"
    "initproc s' = initproc s" "cr3 s' = cr3 s" "kend s' = kend s" "ticks s' = ticks s"
    "same_procs (s\<lparr>ptable := pt\<rparr>) (s'\<lparr>ptable := pt\<rparr>)"
proof -
  have eq: "kcore s = kcore s'" using assms by (simp add: same_procs_def)
  show "ptable s' = ptable s" "nextpid s' = nextpid s" "cpus s' = cpus s" "this s' = this s"
    "initproc s' = initproc s" "cr3 s' = cr3 s" "kend s' = kend s" "ticks s' = ticks s"
    using arg_cong [OF eq, of ptable] arg_cong [OF eq, of nextpid] arg_cong [OF eq, of cpus]
      arg_cong [OF eq, of this] arg_cong [OF eq, of initproc] arg_cong [OF eq, of cr3]
      arg_cong [OF eq, of kend] arg_cong [OF eq, of ticks]
    by (simp_all add: kcore_def)
  have "kcore (s\<lparr>ptable := pt\<rparr>) = (kcore s)\<lparr>ptable := pt\<rparr>" for s :: "'a kproc_scheme"
    by (simp add: kcore_def)
  then show "same_procs (s\<lparr>ptable := pt\<rparr>) (s'\<lparr>ptable := pt\<rparr>)" using eq by (simp add: same_procs_def)
qed

lemma kfree_procs: "kfree v s = Inr s' \<Longrightarrow> same_procs s s'"
  by (auto simp: same_procs_def kcore_def kfree_def Let_def split: if_splits)

lemma kalloc_procs: "same_procs s (snd (kalloc s))"
  by (simp add: same_procs_def kcore_def kalloc_def Let_def)

lemma cprintf_procs: "cprintf fmt args s = Inr s' \<Longrightarrow> same_procs s s'"
  by (auto simp: cprintf_def same_procs_def kcore_def)

lemma walkpgdir_procs: "same_procs s (snd (walkpgdir pgdir va al s))"
  using kalloc_procs [of s]
  by (auto simp: walkpgdir_def Let_def split: prod.split intro: same_procs_trans [OF _ same_procs_mem])

lemma vstore8_procs: "vstore8 va b s = Inr s' \<Longrightarrow> same_procs s s'"
  by (auto dest!: vstore8_frame)

lemma vstore32_procs: "vstore32 va w s = Inr s' \<Longrightarrow> same_procs s s'"
  by (auto dest!: vstore32_frame)

lemma vstore_procs: "vstore va bs s = Inr s' \<Longrightarrow> same_procs s s'"
  by (auto dest!: vstore_frame)

lemma deallocuvm_loop_procs: "deallocuvm_loop pgdir a oldsz s = Inr s' \<Longrightarrow> same_procs s s'"
proof (induction pgdir a oldsz s rule: deallocuvm_loop.induct)
  case (1 pgdir a oldsz s)
  let ?pte = "fst (walkpgdir pgdir a False s)"
  note unf = deallocuvm_loop.simps [of pgdir a oldsz s]
  show ?case
  proof (cases "a < oldsz \<and> ?pte \<noteq> 0 \<and> present (load32 (mem s) ?pte)")
    case True
    then obtain s1 where s1: "kfree (P2V (PTE_ADDR (load32 (mem s) ?pte))) s = Inr s1"
        "deallocuvm_loop pgdir (a + 4096) oldsz (s1\<lparr>mem := store32 (mem s1) ?pte 0\<rparr>) = Inr s'"
        "\<not> a + 4096 \<le> a" "PTE_ADDR (load32 (mem s) ?pte) \<noteq> 0"
      using "1.prems" unf by (auto simp: Let_def split: if_splits)
    have "same_procs (s1\<lparr>mem := store32 (mem s1) ?pte 0\<rparr>) s'"
      using "1.IH"(2) [OF _ refl _ _ refl s1(4) s1(1) refl s1(3) s1(2)] True by simp
    then show ?thesis using kfree_procs [OF s1(1)] same_procs_mem same_procs_trans by metis
  next
    case False
    then show ?thesis
      using "1.prems" unf "1.IH"(1) [OF _ refl] "1.IH"(3) [OF _ refl]
      by (cases "a < oldsz"; cases "?pte = 0") (auto simp: Let_def split: if_splits)
  qed
qed

lemma deallocuvm_procs: "deallocuvm pgdir o1 n s = Inr (r, s') \<Longrightarrow> same_procs s s'"
  by (auto simp: deallocuvm_def split: if_splits dest: deallocuvm_loop_procs)

lemma freevm_loop_procs: "freevm_loop pgdir is s = Inr s' \<Longrightarrow> same_procs s s'"
proof (induction pgdir "is" s rule: freevm_loop.induct)
  case (2 pgdir i "is" s)
  then show ?case by (auto simp: Let_def split: if_splits intro: same_procs_trans [OF kfree_procs])
qed simp

lemma freevm_procs: "freevm pgdir s = Inr s' \<Longrightarrow> same_procs s s'"
  by (auto simp: freevm_def split: if_splits
      dest!: deallocuvm_procs freevm_loop_procs kfree_procs intro: same_procs_trans)

lemmas mem_procs = kfree_procs vstore8_procs vstore32_procs vstore_procs deallocuvm_procs freevm_procs

subsection \<open>Reaping\<close>

lemma reap_ptable:
  assumes "reap i s = Inr s'" "i < length (ptable s)"
  shows "same_procs (s\<lparr>ptable := (ptable s)[i := (ptable s ! i)\<lparr>kstack := 0, p_pid := 0,
     parent := None, p_name := (p_name (ptable s ! i))[0 := 0], killed := False,
     p_state := UNUSED\<rparr>]\<rparr>) s'"
proof -
  let ?u = "upd_proc i (\<lambda>p. p\<lparr>kstack := 0\<rparr>)"
  obtain s1 s2 where s1: "kfree (kstack (ptable s ! i)) s = Inr s1"
    and s2: "freevm (p_pgdir (ptable (?u s1) ! i)) (?u s1) = Inr s2"
    and s': "s' = upd_proc i (\<lambda>p. p\<lparr>p_pid := 0, parent := None, p_name := (p_name p)[0 := 0],
               killed := False, p_state := UNUSED\<rparr>) s2"
    using assms(1) by (auto simp: reap_def Let_def)
  have 1: "ptable s1 = ptable s" using same_procsD [OF kfree_procs [OF s1]] by simp
  have 2: "ptable s2 = ptable (?u s)" using same_procsD [OF freevm_procs [OF s2]] 1 by (simp add: upd_proc_def)
  have "same_procs (?u s) (?u s1)"
    using same_procsD(9) [OF kfree_procs [OF s1]] 1 by (simp add: upd_proc_def)
  also have "same_procs (?u s1) s2" by (rule freevm_procs [OF s2])
  finally have "same_procs (?u s) s2" .
  note same_procsD(9) [OF this, where pt = "(ptable s)[i := (ptable s ! i)\<lparr>kstack := 0, p_pid := 0,
     parent := None, p_name := (p_name (ptable s ! i))[0 := 0], killed := False,
     p_state := UNUSED\<rparr>]"]
  then show ?thesis using assms(2) by (simp add: s' 2 upd_proc_def)
qed

lemma reap_inv [inv_intros]: "pid_inv s \<Longrightarrow> reap i s = Inr s' \<Longrightarrow> i < NPROC \<Longrightarrow> pid_inv s'"
  by (rule pid_inv_cong [of s])
    (use same_procsD [OF reap_ptable [of i s s']] in \<open>auto simp: pid_inv_def nth_list_update\<close>)

lemma zombie_index: "find_index (zombie_child c) (ptable s) = Some i \<Longrightarrow> pid_inv s \<Longrightarrow> i < NPROC"
  using find_index_SomeD [of "zombie_child c" "ptable s" i] by (simp add: pid_inv_def)

lemma sleep_inv [inv_intros]:
  "pid_inv s \<Longrightarrow> pid_inv (upd_proc c (\<lambda>p. p\<lparr>p_chan := ch, p_state := st\<rparr>) s)"
  by (rule pid_inv_cong [of s]) (auto simp: pid_inv_def upd_proc_nth)

lemma wait_inv [inv_intros]: "pid_inv s \<Longrightarrow> wait s = Inr (r, s') \<Longrightarrow> pid_inv s'"
  by (auto simp: wait_def split: option.splits if_splits intro: reap_inv sleep_inv zombie_index)

lemma same_procs_inv: "same_procs s s' \<Longrightarrow> pid_inv s \<Longrightarrow> pid_inv s'"
  by (auto simp: pid_inv_def same_procsD)

lemma time_inv [inv_intros]:
  assumes "pid_inv s" "time w b s = Inr (r, s')"
  shows "pid_inv s'"
proof -
  have "i < NPROC" if "find_index (zombie_child c) (ptable s) = Some i" for c i
    using zombie_index [OF that assms(1)] .
  then show ?thesis
    using assms by (auto simp: time_def Let_def split: option.splits if_splits
        intro: sleep_inv dest!: vstore32_procs) (meson reap_inv same_procs_inv)+
qed

subsection \<open>Allocation\<close>

lemma allocproc_full: "fst (allocproc s) = None \<Longrightarrow> \<forall>p \<in> set (ptable s). p_state p \<noteq> UNUSED \<Longrightarrow> snd (allocproc s) = s"
  using find_index_None [of "\<lambda>p. p_state p = UNUSED" "ptable s"]
  by (auto simp: allocproc_def split: option.splits)

lemma allocproc_cases:
  assumes "find_index (\<lambda>p. p_state p = UNUSED) (ptable s) = Some i"
    and "kalloc s = (k, s1)"
  shows "allocproc s = (if k = 0
    then (None, s1\<lparr>nextpid := nextpid s + 1, ptable := (ptable s)[i := (ptable s ! i)\<lparr>p_pid := nextpid s,
            priority := 10, kstack := 0, p_state := UNUSED\<rparr>]\<rparr>)
    else (Some i, s1\<lparr>nextpid := nextpid s + 1, ptable := (ptable s)[i := (ptable s ! i)\<lparr>p_state := EMBRYO,
            p_pid := nextpid s, priority := 10, kstack := k, p_ret := Trapret,
            p_context := \<lparr>c_edi = 0, c_esi = 0, c_ebx = 0, c_ebp = 0, c_eip = Forkret\<rparr>,
            sys_count := replicate (length (sys_count (ptable s ! i))) 0\<rparr>]\<rparr>))"
proof -
  have i: "i < length (ptable s)" using find_index_SomeD [OF assms(1)] by auto
  define t where "t = (upd_proc i (\<lambda>p. p\<lparr>p_state := EMBRYO, p_pid := nextpid s, priority := 10\<rparr>) s)
     \<lparr>nextpid := nextpid s + 1\<rparr>"
  have kt: "kalloc t = (k, s1\<lparr>nextpid := nextpid s + 1, ptable := ptable t\<rparr>)"
    using assms(2) by (auto simp: kalloc_def t_def upd_proc_def Let_def split: if_splits)
  have tab: "ptable t = (ptable s)[i := (ptable s ! i)\<lparr>p_state := EMBRYO, p_pid := nextpid s, priority := 10\<rparr>]"
    by (simp add: t_def upd_proc_def)
  have "allocproc s = (let (k, s) = kalloc t; s = upd_proc i (\<lambda>p. p\<lparr>kstack := k\<rparr>) s
          in if k = 0 then (None, upd_proc i (\<lambda>p. p\<lparr>p_state := UNUSED\<rparr>) s)
             else (Some i, upd_proc i (\<lambda>p. p\<lparr>
                     p_ret := Trapret,
                     p_context := \<lparr>c_edi = 0, c_esi = 0, c_ebx = 0, c_ebp = 0, c_eip = Forkret\<rparr>,
                     sys_count := replicate (length (sys_count p)) 0\<rparr>) s))"
    using assms(1) by (simp add: allocproc_def t_def upd_proc_def Let_def)
  then show ?thesis
    using i by (simp add: kt tab upd_proc_def)
qed

lemma allocproc_inv [inv_intros]:
  assumes inv: "pid_inv s" and nowrap: "nextpid s \<noteq> - 1"
  shows "pid_inv (snd (allocproc s))"
proof (cases "find_index (\<lambda>p. p_state p = UNUSED) (ptable s)")
  case None
  then show ?thesis using inv by (simp add: allocproc_def)
next
  case (Some i)
  obtain k s1 where k: "kalloc s = (k, s1)" by fastforce
  have "unat (nextpid s) \<noteq> 2 ^ 32 - 1" using nowrap by (simp add: word_unat_eq_iff unsigned_minus_1_eq_mask mask_eq_exp_minus_1)
  then have np: "unat (nextpid s + 1) = unat (nextpid s) + 1"
    using unsigned_less [where 'a = nat and w = "nextpid s"] by (simp add: unat_Suc_word)
  define q where "q = ptable (snd (allocproc s)) ! i"
  have il: "i < length (ptable s)" using find_index_SomeD [OF Some] by simp
  have q: "ptable (snd (allocproc s)) = (ptable s)[i := q]" "p_pid q = nextpid s"
      "nextpid (snd (allocproc s)) = nextpid s + 1"
    using il by (simp_all add: q_def allocproc_cases [OF Some k])
  have lt: "p_pid (ptable s ! j) < nextpid s" if "j < NPROC" for j
    using inv that by (simp add: pid_inv_def)
  have "p_pid ((ptable s)[i := q] ! j) < nextpid s + 1" if "j < NPROC" for j
    using lt [OF that] q(2) np by (cases "i = j")
      (use that inv in \<open>auto simp: pid_inv_def nth_list_update word_less_nat_alt\<close>)
  moreover have "j = k" if "j < NPROC" "k < NPROC" "p_pid ((ptable s)[i := q] ! j) \<noteq> 0"
    "p_pid ((ptable s)[i := q] ! j) = p_pid ((ptable s)[i := q] ! k)" for j k
    using that lt [of j] lt [of k] inv q(2) il unfolding pid_inv_def
    by (auto simp: nth_list_update split: if_splits)
  moreover have "0 < nextpid s + 1" using np by (simp add: word_less_nat_alt)
  ultimately show ?thesis using inv q unfolding pid_inv_def by simp
qed

subsection \<open>Runs of the process table\<close>

text \<open>The operations in any order, as long as fewer than \<open>2 ^ 32\<close> processes are created.\<close>

inductive preach :: "'a kproc_scheme \<Rightarrow> 'a kproc_scheme \<Rightarrow> bool" for s0 where
  start: "preach s0 s0"
| alloc: "preach s0 s \<Longrightarrow> nextpid s \<noteq> - 1 \<Longrightarrow> preach s0 (snd (allocproc s))"
| kill: "preach s0 s \<Longrightarrow> preach s0 (snd (kill pid s))"
| chpr: "preach s0 s \<Longrightarrow> preach s0 (snd (chpr pid prio s))"
| wakeup: "preach s0 s \<Longrightarrow> preach s0 (wakeup ch s)"
| wait: "preach s0 s \<Longrightarrow> wait s = Inr (r, s') \<Longrightarrow> preach s0 s'"
| time: "preach s0 s \<Longrightarrow> time w b s = Inr (r, s') \<Longrightarrow> preach s0 s'"
| kernel: "preach s0 s \<Longrightarrow> same_procs s s' \<Longrightarrow> preach s0 s'"

text \<open>The table at boot: zeroed slots, ids from 1.\<close>

definition zero_tf :: trapframe where
  "zero_tf = \<lparr>t_edi = 0, t_esi = 0, t_ebp = 0, t_oesp = 0, t_ebx = 0, t_edx = 0, t_ecx = 0, t_eax = 0,
     t_gs = 0, t_fs = 0, t_es = 0, t_ds = 0, t_trapno = 0, t_err = 0, t_eip = 0, t_cs = 0, t_eflags = 0,
     t_esp = 0, t_ss = 0\<rparr>"

definition zero_proc :: proc where
  "zero_proc = \<lparr>p_sz = 0, p_pgdir = 0, kstack = 0, p_state = UNUSED, p_pid = 0, parent = None,
     tf = zero_tf, p_context = \<lparr>c_edi = 0, c_esi = 0, c_ebx = 0, c_ebp = 0, c_eip = Nowhere\<rparr>,
     p_ret = Nowhere, p_chan = None, killed = False, ofile = replicate NOFILE None, cwd = None,
     p_name = replicate 16 0, priority = 0, sys_count = replicate SYS_cn 0, arrivalt = 0, endt = 0,
     burstt = 0, iot = 0\<rparr>"

definition boot_proc :: kproc where
  "boot_proc = kmem.extend (boot_mem\<lparr>freelist := 0x80200000\<rparr>) \<lparr>kpgdir = 0, cr3 = 0, kdata = 0x80108000,
     ptable = replicate NPROC zero_proc, initproc = None, nextpid = 1, ticks = 0\<rparr>"

lemma boot_proc_simps [simp]:
  "ptable boot_proc = replicate NPROC zero_proc" "nextpid boot_proc = 1"
  "mem boot_proc = (\<lambda>_. 0)" "freelist boot_proc = 0x80200000" "initproc boot_proc = None"
  "cpus boot_proc = cpus two_cpus" "this boot_proc = 0"
  by (simp_all add: boot_proc_def kmem.defs kcpu.defs boot_mem_def two_cpus_def)

lemma zero_proc_simps [simp]:
  "p_state zero_proc = UNUSED" "p_pid zero_proc = 0" "killed zero_proc = False" "parent zero_proc = None"
  "sys_count zero_proc = replicate SYS_cn 0" "ofile zero_proc = replicate NOFILE None"
  by (simp_all add: zero_proc_def)

lemma pid_inv_boot: "pid_inv boot_proc"
  by (simp add: pid_inv_def)



subsection \<open>kill\<close>

lemma find_pid:
  assumes "pid_inv s" "i < NPROC" "p_pid (ptable s ! i) = pid" "pid \<noteq> 0"
  shows "find_index (\<lambda>p. p_pid p = pid) (ptable s) = Some i"
proof (rule find_index_SomeI)
  show "i < length (ptable s)" using assms by (simp add: pid_inv_def)
  show "p_pid (ptable s ! i) = pid" by fact
  fix j assume "j < i"
  then show "p_pid (ptable s ! j) \<noteq> pid"
    using assms unfolding pid_inv_def by (metis less_irrefl less_trans)
qed



text \<open>C9: \<^verbatim>\<open>kill(0)\<close> kills a process that does not exist yet. With a free slot that has never been
  used or has been reaped, \<^verbatim>\<open>kill(0)\<close> finds an unused slot (its id is 0), marks it killed and returns
  0; \<^verbatim>\<open>allocproc\<close> does not clear the mark, so the next process created there starts out killed.\<close>

theorem kill_zero_poisons:
  assumes "find_index (\<lambda>p. p_state p = UNUSED) (ptable s) = Some i"
    "find_index (\<lambda>p. p_pid p = 0) (ptable s) = Some i" "fst (kalloc s) \<noteq> 0"
  shows "fst (kill 0 s) = 0 \<and> fst (allocproc (snd (kill 0 s))) = Some i \<and>
    killed (ptable (snd (allocproc (snd (kill 0 s)))) ! i)"
proof -
  have i: "i < length (ptable s)" "p_state (ptable s ! i) = UNUSED"
    using find_index_SomeD [OF assms(1)] by auto
  define t where "t = snd (kill 0 s)"
  have t: "t = upd_proc i (\<lambda>p. p\<lparr>killed := True\<rparr>) s"
    using i assms(2) by (simp add: t_def kill_def upd_proc_def Let_def)
  have k0: "fst (kill 0 s) = 0" using assms(2) by (simp add: kill_def)
  have f: "find_index (\<lambda>p. p_state p = UNUSED) (ptable t) = Some i"
    using i find_index_SomeD [OF assms(1)]
    by (intro find_index_SomeI) (auto simp: t upd_proc_nth)
  obtain k s1 where k: "kalloc t = (k, s1)" by fastforce
  have "k \<noteq> 0" using assms(3) k by (auto simp: kalloc_def t Let_def split: if_splits)
  then show ?thesis
    using i k0 by (simp add: t_def [symmetric] allocproc_cases [OF f k]) (simp add: t upd_proc_nth)
qed

theorem kill_zero_poisons_witness:
  "fst (kill 0 boot_proc) = 0 \<and> killed (ptable (snd (allocproc (snd (kill 0 boot_proc)))) ! 0)"
proof -
  have "find_index (\<lambda>p. p_state p = UNUSED) (ptable boot_proc) = Some 0"
    "find_index (\<lambda>p. p_pid p = 0) (ptable boot_proc) = Some 0" "fst (kalloc boot_proc) \<noteq> 0"
    by (code_simp, code_simp, code_simp)
  then show ?thesis using kill_zero_poisons [of boot_proc 0] by blast
qed

subsection \<open>time is wait with two stores\<close>


text \<open>A parent in slot 0 on CPU 0 with no children.\<close>

definition one_proc :: kproc where
  "one_proc = boot_proc\<lparr>cpus := [(cpus two_cpus ! 0)\<lparr>cproc := Some 0\<rparr>, cpus two_cpus ! 1]\<rparr>"


subsection \<open>cps\<close>

text \<open>The row of a process: name, id, priority and state, tab separated.\<close>

definition dec :: "u32 \<Rightarrow> int list" where
  "dec x = (case printint x 10 True of Inl e \<Rightarrow> [] | Inr cs \<Rightarrow> cs)"

definition cps_row :: "proc \<Rightarrow> int list" where
  "cps_row p = map sint (takeWhile (\<lambda>c. c \<noteq> 0) (p_name p)) @ [9] @ dec (p_pid p) @ [9] @
     dec (priority p) @ [9] @
     map of_char (case p_state p of SLEEPING \<Rightarrow> ''SLEEPING'' | RUNNABLE \<Rightarrow> ''RUNNABLE''
       | RUNNING \<Rightarrow> ''RUNNING'' | _ \<Rightarrow> '''') @ [10]"

definition listed :: "proc \<Rightarrow> bool" where
  "listed p \<longleftrightarrow> p_state p \<in> {SLEEPING, RUNNABLE, RUNNING}"

lemma printint_dec: "printint x 10 True = Inr (dec x)"
proof -
  have "\<exists>cs. printint x 10 True = Inr cs"
    using printint_total [of 10 x True] by simp
  then show ?thesis by (auto simp: dec_def)
qed

lemma cps_line_eq: "cps_line p s = Inr (s\<lparr>out := out s @ (if listed p then cps_row p else [])\<rparr>)"
  by (cases "p_state p")
    (simp_all add: cps_line_def cprintf_def printint_dec cps_row_def listed_def Let_def)

lemma cps_loop_eq:
  "cps_loop ps s = Inr (s\<lparr>out := out s @ concat (map cps_row (filter listed ps))\<rparr>)"
proof (induction ps arbitrary: s)
  case Nil
  then show ?case by simp
next
  case (Cons p ps)
  then show ?case by (simp add: cps_line_eq)
qed

text \<open>C11: \<^verbatim>\<open>cps\<close> lists the processes. It always returns 22, prints the header and then one row for
  every sleeping, runnable or running process, in table order, and for no other slot; it enables
  interrupts and changes nothing else.\<close>

theorem cps_lists:
  "cps s = Inr (22, (sti s)\<lparr>out := out s @
     map of_char (''Process Name'' @ [CHR 0x09] @ ''pid'' @ [CHR 0x09] @ ''Priority'' @
       [CHR 0x09] @ ''State'' @ [CHR 0x0A]) @ concat (map cps_row (filter listed (ptable s)))\<rparr>)"
  by (simp add: cps_def cprintf_plain cps_loop_eq sti_def)

end
