(* ===== verification/Bio.thy ===== *)
theory Bio
  imports Proc
begin

text \<open>
  Sleep locks (\<^verbatim>\<open>sleeplock.c\<close>), the memory disk driver (\<^verbatim>\<open>memide.c\<close>) and the buffer cache
  (\<^verbatim>\<open>bio.c\<close>).

  A sleep lock is a value stored in the object it protects; waiting for a lock that another
  thread holds is the outcome \<open>Block\<close>, after which the call would be retried. The cache is the
  array of \<^verbatim>\<open>NBUF\<close> buffers followed by the list head (index 30), linked through \<open>b_prev\<close> and
  \<open>b_next\<close> exactly as the code links them; its scans carry fuel that exceeds the length of the
  list, and a scan that ran out would be a list that does not lead back to the head. The field
  \<open>dwrites\<close> is a history of the blocks written to the disk, newest last; no operation reads it.
\<close>

record sleeplock =
  slocked :: bool
  slpid :: u32

record buf =
  b_flags :: u32
  b_dev :: u32
  b_blockno :: u32
  b_lock :: sleeplock
  b_refcnt :: u32
  b_prev :: nat
  b_next :: nat
  b_data :: "u8 list"

record kbio = kproc +
  disk :: "u8 list list"
  dwrites :: "(u32 \<times> u8 list) list"
  bufs :: "buf list"

abbreviation (input) BSIZE :: nat where "BSIZE \<equiv> 512"
abbreviation (input) B_VALID :: u32 where "B_VALID \<equiv> 2"
abbreviation (input) B_DIRTY :: u32 where "B_DIRTY \<equiv> 4"
abbreviation (input) HEAD :: nat where "HEAD \<equiv> 30"
abbreviation (input) BCACHE_LOCK :: nat where "BCACHE_LOCK \<equiv> 2"

subsection \<open>Sleep locks\<close>

definition initsleeplock :: sleeplock where
  "initsleeplock = \<lparr>slocked = False, slpid = 0\<rparr>"

definition acquiresleep :: "sleeplock \<Rightarrow> 'a kproc_scheme \<Rightarrow> sleeplock kres" where
  "acquiresleep lk s =
     (if slocked lk then Inl Block
      else andThen (curproc s) (\<lambda>c. Inr \<lparr>slocked = True, slpid = p_pid (ptable s ! c)\<rparr>))"

definition releasesleep :: "nat \<Rightarrow> 'a kproc_scheme \<Rightarrow> sleeplock \<times> 'a kproc_scheme" where
  "releasesleep k s = (\<lparr>slocked = False, slpid = 0\<rparr>, wakeup (ChLock k) s)"

definition holdingsleep :: "sleeplock \<Rightarrow> bool" where
  "holdingsleep lk = slocked lk"

definition upd_buf :: "nat \<Rightarrow> (buf \<Rightarrow> buf) \<Rightarrow> 'a kbio_scheme \<Rightarrow> 'a kbio_scheme" where
  "upd_buf i f s = s\<lparr>bufs := (bufs s)[i := f (bufs s ! i)]\<rparr>"

subsection \<open>The disk\<close>

definition iderw :: "nat \<Rightarrow> 'a kbio_scheme \<Rightarrow> 'a kbio_scheme kres" where
  "iderw i s =
     (let b = bufs s ! i
      in if \<not> holdingsleep (b_lock b) then Inl (Panic ''iderw: buf not locked'')
         else if and (b_flags b) (or B_VALID B_DIRTY) = B_VALID
           then Inl (Panic ''iderw: nothing to do'')
         else if b_dev b \<noteq> 1 then Inl (Panic ''iderw: request not for disk 1'')
         else if unat (b_blockno b) \<ge> length (disk s) then Inl (Panic ''iderw: block out of range'')
         else if and (b_flags b) B_DIRTY \<noteq> 0 then
           Inr (upd_buf i (\<lambda>b. b\<lparr>b_flags := or (and (b_flags b) (NOT B_DIRTY)) B_VALID\<rparr>)
             (s\<lparr>disk := (disk s)[unat (b_blockno b) := b_data b],
                dwrites := dwrites s @ [(b_blockno b, b_data b)]\<rparr>))
         else
           Inr (upd_buf i (\<lambda>b. b\<lparr>b_data := disk s ! unat (b_blockno b),
                                 b_flags := or (b_flags b) B_VALID\<rparr>) s))"

subsection \<open>The buffer cache\<close>

text \<open>Insert buffer \<open>i\<close> between the head and its successor.\<close>

definition link_front :: "nat \<Rightarrow> buf list \<Rightarrow> buf list" where
  "link_front i bs =
     (let bs = bs[i := (bs ! i)\<lparr>b_next := b_next (bs ! HEAD)\<rparr>];
          bs = bs[i := (bs ! i)\<lparr>b_prev := HEAD\<rparr>];
          n = b_next (bs ! HEAD);
          bs = bs[n := (bs ! n)\<lparr>b_prev := i\<rparr>]
      in bs[HEAD := (bs ! HEAD)\<lparr>b_next := i\<rparr>])"

fun binit_loop :: "nat list \<Rightarrow> buf list \<Rightarrow> buf list" where
  "binit_loop [] bs = bs"
| "binit_loop (i # is) bs =
     binit_loop is (link_front i (bs[i := (bs ! i)\<lparr>b_lock := initsleeplock\<rparr>]))"

definition binit :: "'a kbio_scheme \<Rightarrow> 'a kbio_scheme" where
  "binit s =
     (let s = initlock BCACHE_LOCK s;
          bs = (bufs s)[HEAD := (bufs s ! HEAD)\<lparr>b_prev := HEAD, b_next := HEAD\<rparr>]
      in s\<lparr>bufs := binit_loop [0..<NBUF] bs\<rparr>)"

text \<open>The scans of \<^verbatim>\<open>bget\<close>: forwards for the block, backwards for the least recently used buffer
  that is neither referenced nor dirty.\<close>

fun scan_next :: "nat \<Rightarrow> (buf \<Rightarrow> bool) \<Rightarrow> buf list \<Rightarrow> nat \<Rightarrow> nat option kres" where
  "scan_next 0 P bs b = Inl Block"
| "scan_next (Suc n) P bs b =
     (if b = HEAD then Inr None
      else if P (bs ! b) then Inr (Some b)
      else scan_next n P bs (b_next (bs ! b)))"

fun scan_prev :: "nat \<Rightarrow> (buf \<Rightarrow> bool) \<Rightarrow> buf list \<Rightarrow> nat \<Rightarrow> nat option kres" where
  "scan_prev 0 P bs b = Inl Block"
| "scan_prev (Suc n) P bs b =
     (if b = HEAD then Inr None
      else if P (bs ! b) then Inr (Some b)
      else scan_prev n P bs (b_prev (bs ! b)))"

definition is_block :: "u32 \<Rightarrow> u32 \<Rightarrow> buf \<Rightarrow> bool" where
  "is_block dev blockno b \<longleftrightarrow> b_dev b = dev \<and> b_blockno b = blockno"

definition is_free :: "buf \<Rightarrow> bool" where
  "is_free b \<longleftrightarrow> b_refcnt b = 0 \<and> and (b_flags b) B_DIRTY = 0"

definition lock_buf :: "nat \<Rightarrow> 'a kbio_scheme \<Rightarrow> 'a kbio_scheme kres" where
  "lock_buf i s = andThen (acquiresleep (b_lock (bufs s ! i)) s) (\<lambda>lk.
     Inr (upd_buf i (\<lambda>b. b\<lparr>b_lock := lk\<rparr>) s))"

definition bget :: "u32 \<Rightarrow> u32 \<Rightarrow> 'a kbio_scheme \<Rightarrow> (nat \<times> 'a kbio_scheme) kres" where
  "bget dev blockno s =
     andThen (scan_next (NBUF + 1) (is_block dev blockno) (bufs s) (b_next (bufs s ! HEAD))) (\<lambda>r.
     case r of
       Some i \<Rightarrow>
         andThen (lock_buf i (upd_buf i (\<lambda>b. b\<lparr>b_refcnt := b_refcnt b + 1\<rparr>) s)) (\<lambda>s. Inr (i, s))
     | None \<Rightarrow>
         andThen (scan_prev (NBUF + 1) is_free (bufs s) (b_prev (bufs s ! HEAD))) (\<lambda>r.
         case r of
           Some i \<Rightarrow>
             andThen (lock_buf i (upd_buf i (\<lambda>b. b\<lparr>b_dev := dev, b_blockno := blockno,
                                                   b_flags := 0, b_refcnt := 1\<rparr>) s)) (\<lambda>s. Inr (i, s))
         | None \<Rightarrow> Inl (Panic ''bget: no buffers'')))"

definition bread :: "u32 \<Rightarrow> u32 \<Rightarrow> 'a kbio_scheme \<Rightarrow> (nat \<times> 'a kbio_scheme) kres" where
  "bread dev blockno s =
     andThen (bget dev blockno s) (\<lambda>(i, s).
     if and (b_flags (bufs s ! i)) B_VALID = 0
     then andThen (iderw i s) (\<lambda>s. Inr (i, s)) else Inr (i, s))"

definition bwrite :: "nat \<Rightarrow> 'a kbio_scheme \<Rightarrow> 'a kbio_scheme kres" where
  "bwrite i s =
     (if \<not> holdingsleep (b_lock (bufs s ! i)) then Inl (Panic ''bwrite'')
      else iderw i (upd_buf i (\<lambda>b. b\<lparr>b_flags := or (b_flags b) B_DIRTY\<rparr>) s))"

definition unlink :: "nat \<Rightarrow> buf list \<Rightarrow> buf list" where
  "unlink i bs =
     (let n = b_next (bs ! i);
          bs = bs[n := (bs ! n)\<lparr>b_prev := b_prev (bs ! i)\<rparr>];
          p = b_prev (bs ! i)
      in bs[p := (bs ! p)\<lparr>b_next := b_next (bs ! i)\<rparr>])"

definition brelse :: "nat \<Rightarrow> 'a kbio_scheme \<Rightarrow> 'a kbio_scheme kres" where
  "brelse i s =
     (if \<not> holdingsleep (b_lock (bufs s ! i)) then Inl (Panic ''brelse'')
      else let (lk, s) = releasesleep i s;
               s = upd_buf i (\<lambda>b. b\<lparr>b_lock := lk\<rparr>) s;
               s = upd_buf i (\<lambda>b. b\<lparr>b_refcnt := b_refcnt b - 1\<rparr>) s
           in if b_refcnt (bufs s ! i) = 0
              then Inr (s\<lparr>bufs := link_front i (unlink i (bufs s))\<rparr>)
              else Inr s)"

end
