(* ===== verification/Bio_Inv.thy ===== *)
theory Bio_Inv
  imports Bio Proc_Inv
begin

text \<open>
  The buffer cache's list. \<open>dll\<close> is a doubly linked segment between two nodes, \<open>ring\<close> the whole
  list with its order, most recently used first. Over it \<^verbatim>\<open>binit\<close>, \<^verbatim>\<open>brelse\<close> and the scans of \<^verbatim>\<open>bget\<close>
  are operations on the order: move to front, first match, last match.
\<close>

fun dll :: "buf list \<Rightarrow> nat \<Rightarrow> nat list \<Rightarrow> nat \<Rightarrow> bool" where
  "dll bs a [] z \<longleftrightarrow> b_next (bs ! a) = z \<and> b_prev (bs ! z) = a"
| "dll bs a (x # xs) z \<longleftrightarrow> b_next (bs ! a) = x \<and> b_prev (bs ! x) = a \<and> dll bs x xs z"

definition ring :: "buf list \<Rightarrow> nat list \<Rightarrow> bool" where
  "ring bs ord \<longleftrightarrow> dll bs HEAD ord HEAD \<and> distinct ord \<and> HEAD \<notin> set ord \<and>
     set ord \<subseteq> {..<NBUF} \<and> length bs = NBUF + 1"

lemma ring_length: "ring bs ord \<Longrightarrow> length bs = NBUF + 1"
  by (simp add: ring_def)

lemma dll_append: "dll bs a (xs @ x # ys) z \<longleftrightarrow> dll bs a xs x \<and> dll bs x ys z"
  by (induction xs arbitrary: a) auto

lemma dll_cong:
  "(\<And>b. b \<in> insert a (set xs) \<Longrightarrow> b_next (bs ! b) = b_next (bs' ! b)) \<Longrightarrow>
   (\<And>b. b \<in> insert z (set xs) \<Longrightarrow> b_prev (bs ! b) = b_prev (bs' ! b)) \<Longrightarrow>
   dll bs a xs z = dll bs' a xs z"
  by (induction xs arbitrary: a) auto

text \<open>Fields other than the links do not matter.\<close>

lemma ring_upd:
  assumes "b_next (f (bs ! i)) = b_next (bs ! i)" "b_prev (f (bs ! i)) = b_prev (bs ! i)"
  shows "ring (bs[i := f (bs ! i)]) ord = ring bs ord"
proof -
  have "b_next (bs[i := f (bs ! i)] ! b) = b_next (bs ! b) \<and>
      b_prev (bs[i := f (bs ! i)] ! b) = b_prev (bs ! b)" for b
  proof (cases "i = b \<and> b < length bs")
    case True
    then have "bs[i := f (bs ! i)] ! b = f (bs ! i)" by simp
    then show ?thesis using assms True by simp
  next
    case False
    then have "bs[i := f (bs ! i)] ! b = bs ! b" by (metis list_update_beyond not_less nth_list_update_neq)
    then show ?thesis by simp
  qed
  note l = this [THEN conjunct1] this [THEN conjunct2]
  have "dll (bs[i := f (bs ! i)]) HEAD ord HEAD = dll bs HEAD ord HEAD"
    by (rule dll_cong) (simp_all only: l)
  then show ?thesis by (simp add: ring_def)
qed

lemma dll_head_cases:
  "dll bs a xs z \<Longrightarrow> b_next (bs ! a) = (case xs of [] \<Rightarrow> z | x # _ \<Rightarrow> x)"
  by (cases xs) auto

lemma dll_last_cases:
  "dll bs a xs z \<Longrightarrow> b_prev (bs ! z) = (if xs = [] then a else last xs)"
  by (induction xs arbitrary: a) auto

subsection \<open>Linking\<close>

lemma link_front_ring:
  assumes r: "ring bs ord" and i: "i < NBUF" "i \<notin> set ord"
  shows "ring (link_front i bs) (i # ord)"
proof -
  let ?bs = "link_front i bs"
  have len: "length bs = 31" and d: "dll bs 30 ord 30" using r by (simp_all add: ring_def)
  define n where "n = b_next (bs ! 30)"
  have n: "n = (case ord of [] \<Rightarrow> 30 | x # _ \<Rightarrow> x)" using dll_head_cases [OF d] by (simp add: n_def)
  have ni: "n \<noteq> i" "n < 31" using i n r by (auto simp: ring_def split: list.splits)
  have i30: "i \<noteq> 30" "i < 31" using i by auto
  have "?bs = (bs[i := (bs ! i)\<lparr>b_next := n, b_prev := 30\<rparr>, n := (bs ! n)\<lparr>b_prev := i\<rparr>])
      [30 := (bs[i := (bs ! i)\<lparr>b_next := n, b_prev := 30\<rparr>, n := (bs ! n)\<lparr>b_prev := i\<rparr>] ! 30)\<lparr>b_next := i\<rparr>]"
    using len i30 ni by (simp add: link_front_def Let_def n_def [symmetric])
  then have nx: "b_next (?bs ! b) = (if b = 30 then i else if b = i then n else b_next (bs ! b))"
    and pv: "b_prev (?bs ! b) = (if b = n then i else if b = i then 30 else b_prev (bs ! b))" if "b < 31" for b
    using that len i30 ni by (simp_all add: nth_list_update)
  have "dll ?bs i ord 30"
  proof (cases ord)
    case Nil
    then show ?thesis using nx [of i] pv [of 30] i30 n by simp
  next
    case (Cons x xs)
    have lt: "\<forall>b \<in> set ord. b < 31 \<and> b \<noteq> 30 \<and> b \<noteq> i" using r i by (auto simp: ring_def)
    have "dll ?bs x xs 30 = dll bs x xs 30"
    proof (rule dll_cong)
      fix b assume "b \<in> insert x (set xs)"
      then show "b_next (?bs ! b) = b_next (bs ! b)" using lt nx [of b] Cons by auto
    next
      fix b assume "b \<in> insert 30 (set xs)"
      moreover have "x \<notin> set xs" "x \<noteq> 30" using r Cons by (auto simp: ring_def)
      ultimately show "b_prev (?bs ! b) = b_prev (bs ! b)" using lt pv [of b] Cons n i30 by auto
    qed
    then show ?thesis using d Cons nx [of i] pv [of x] i30 n lt by auto
  qed
  then have "dll ?bs 30 (i # ord) 30" using nx [of 30] pv [of i] ni i30 by simp
  moreover have "length ?bs = 31" using len by (simp add: link_front_def Let_def)
  ultimately show ?thesis using r i by (auto simp: ring_def)
qed

lemma unlink_ring:
  assumes r: "ring bs (xs @ i # ys)"
  shows "ring (unlink i bs) (xs @ ys)"
proof -
  let ?bs = "unlink i bs"
  have len: "length bs = 31" and d1: "dll bs 30 xs i" and d2: "dll bs i ys 30"
    using r by (simp_all add: ring_def dll_append)
  define n where "n = b_next (bs ! i)"
  define p where "p = b_prev (bs ! i)"
  have n: "n = (case ys of [] \<Rightarrow> 30 | y # _ \<Rightarrow> y)" using dll_head_cases [OF d2] by (simp add: n_def)
  have p: "p = (if xs = [] then 30 else last xs)" using dll_last_cases [OF d1] by (simp add: p_def)
  have ds: "distinct (xs @ i # ys)" "30 \<notin> set (xs @ i # ys)" "set (xs @ i # ys) \<subseteq> {..<30}"
    using r unfolding ring_def by blast+
  have lt: "b < 31 \<and> b \<noteq> 30 \<and> b \<noteq> i" if "b \<in> set xs \<union> set ys" for b
    using ds that by fastforce
  have il: "i < 31" "i \<noteq> 30" using ds by auto
  have dis: "set xs \<inter> set ys = {}" "distinct xs" "distinct ys" using ds(1) by auto
  have pin: "p = 30 \<or> p \<in> set xs" using p by simp
  have nin: "n = 30 \<or> n \<in> set ys" using n by (cases ys) simp_all
  have np: "n < 31" "p < 31" "n \<noteq> i" "p \<noteq> i" using pin nin lt [of n] lt [of p] il by auto
  have "?bs = (bs[n := (bs ! n)\<lparr>b_prev := p\<rparr>])[p := (bs[n := (bs ! n)\<lparr>b_prev := p\<rparr>] ! p)\<lparr>b_next := n\<rparr>]"
    using np len by (simp add: unlink_def Let_def n_def [symmetric] p_def [symmetric])
  then have nx: "b_next (?bs ! b) = (if b = p then n else b_next (bs ! b))"
    and pv: "b_prev (?bs ! b) = (if b = n then p else b_prev (bs ! b))" if "b < 31" for b
    using that len np by (simp_all add: nth_list_update)
  have "dll ?bs 30 (xs @ ys) 30"
  proof (cases ys)
    case Nil
    have "dll ?bs a xs 30" if "dll bs a xs i" "a < 31" "\<forall>b \<in> set xs. b < 31 \<and> b \<noteq> 30" "distinct (a # xs)"
      "p = (if xs = [] then a else last xs)" for a
      using that
    proof (induction xs arbitrary: a)
      case Nil
      then show ?case using nx [of a] pv [of 30] n \<open>ys = []\<close> by auto
    next
      case (Cons x xs)
      have "a \<noteq> p" using Cons.prems by (auto split: if_splits)
      then show ?case using Cons nx [of a] pv [of x] n \<open>ys = []\<close> by auto
    qed
    from this [OF d1] show ?thesis using Nil lt p dis ds by auto
  next
    case (Cons y zs)
    have "dll ?bs a xs y" if "dll bs a xs i" "a < 31" "\<forall>b \<in> set xs. b < 31 \<and> b \<noteq> y" "distinct (a # xs)"
      "p = (if xs = [] then a else last xs)" for a
      using that
    proof (induction xs arbitrary: a)
      case Nil
      then show ?case using nx [of a] pv [of y] n \<open>ys = y # zs\<close> lt by auto
    next
      case (Cons x xs)
      have "a \<noteq> p" using Cons.prems by (auto split: if_splits)
      then show ?case using Cons nx [of a] pv [of x] n \<open>ys = y # zs\<close> by auto
    qed
    from this [OF d1] have 1: "dll ?bs 30 xs y" using Cons lt p dis ds by auto
    have "dll ?bs y zs 30 = dll bs y zs 30"
    proof (rule dll_cong)
      fix b assume "b \<in> insert y (set zs)"
      then have "b \<in> set ys" using Cons by auto
      then have "b < 31" "b \<noteq> p" using lt [of b] pin dis(1) by auto
      then show "b_next (?bs ! b) = b_next (bs ! b)" using nx by simp
    next
      fix b assume "b \<in> insert 30 (set zs)"
      then have "b < 31" "b \<noteq> n" using lt [of b] lt [of y] n dis(3) Cons by auto
      then show "b_prev (?bs ! b) = b_prev (bs ! b)" using pv by simp
    qed
    then show ?thesis using 1 d2 Cons by (simp add: dll_append)
  qed
  moreover have "length ?bs = 31" using len by (simp add: unlink_def Let_def)
  ultimately show ?thesis using ds unfolding ring_def by auto
qed

subsection \<open>Scans and initialisation over the order\<close>

lemma scan_next_find:
  "dll bs a xs HEAD \<Longrightarrow> HEAD \<notin> set xs \<Longrightarrow> length xs < n \<Longrightarrow>
    scan_next n P bs (b_next (bs ! a)) = Inr (List.find (\<lambda>i. P (bs ! i)) xs)"
proof (induction xs arbitrary: a n)
  case Nil
  then show ?case by (cases n) auto
next
  case (Cons x xs)
  then show ?case by (cases n) auto
qed

lemma scan_prev_find:
  "dll bs HEAD xs z \<Longrightarrow> HEAD \<notin> set xs \<Longrightarrow> length xs < n \<Longrightarrow>
    scan_prev n P bs (b_prev (bs ! z)) = Inr (List.find (\<lambda>i. P (bs ! i)) (rev xs))"
proof (induction xs arbitrary: z n rule: rev_induct)
  case Nil
  then show ?case by (cases n) auto
next
  case (snoc x xs)
  then have "dll bs HEAD xs x" "b_prev (bs ! z) = x" by (simp_all add: dll_append)
  then show ?case using snoc by (cases n) auto
qed

lemma ring_scans:
  assumes "ring bs ord"
  shows "scan_next (NBUF + 1) P bs (b_next (bs ! HEAD)) = Inr (List.find (\<lambda>i. P (bs ! i)) ord)"
    "scan_prev (NBUF + 1) P bs (b_prev (bs ! HEAD)) = Inr (List.find (\<lambda>i. P (bs ! i)) (rev ord))"
proof -
  have "card (set ord) \<le> card {..<30 :: nat}" using assms by (intro card_mono) (auto simp: ring_def)
  then have "length ord < 31" using assms by (simp add: ring_def distinct_card)
  then show "scan_next (NBUF + 1) P bs (b_next (bs ! HEAD)) = Inr (List.find (\<lambda>i. P (bs ! i)) ord)"
    "scan_prev (NBUF + 1) P bs (b_prev (bs ! HEAD)) = Inr (List.find (\<lambda>i. P (bs ! i)) (rev ord))"
    using assms scan_next_find [of bs 30 ord] scan_prev_find [of bs ord 30] by (simp_all add: ring_def)
qed

lemma binit_loop_ring:
  "ring bs ord \<Longrightarrow> distinct is \<Longrightarrow> set is \<subseteq> {..<NBUF} \<Longrightarrow> set is \<inter> set ord = {} \<Longrightarrow>
    ring (binit_loop is bs) (rev is @ ord)"
proof (induction "is" arbitrary: bs ord)
  case Nil
  then show ?case by simp
next
  case (Cons i "is")
  have "ring (bs[i := (bs ! i)\<lparr>b_lock := initsleeplock\<rparr>]) ord"
    using ring_upd [of "\<lambda>b. b\<lparr>b_lock := initsleeplock\<rparr>" bs i ord] Cons.prems(1) by simp
  then have "ring (link_front i (bs[i := (bs ! i)\<lparr>b_lock := initsleeplock\<rparr>])) (i # ord)"
    using Cons.prems by (intro link_front_ring) auto
  from Cons.IH [OF this] Cons.prems show ?case by auto
qed

lemma binit_bufs:
  "bufs (binit s) = binit_loop [0..<NBUF] ((bufs s)[HEAD := (bufs s ! HEAD)\<lparr>b_prev := HEAD, b_next := HEAD\<rparr>])"
  by (simp add: binit_def initlock_def del: binit_loop.simps upt_rec_numeral)

lemma binit_ring:
  assumes "length (bufs s) = NBUF + 1"
  shows "ring (bufs (binit s)) (rev [0..<NBUF])"
proof -
  let ?bs = "(bufs s)[HEAD := (bufs s ! HEAD)\<lparr>b_prev := HEAD, b_next := HEAD\<rparr>]"
  have "ring ?bs []" using assms by (simp add: ring_def)
  then have "ring (binit_loop [0..<NBUF] ?bs) (rev [0..<NBUF] @ [])"
    by (rule binit_loop_ring) auto
  then show ?thesis by (simp add: binit_bufs del: binit_loop.simps upt_rec_numeral)
qed

lemma wakeup_bio [simp]: "bufs (wakeup ch s) = bufs s" "disk (wakeup ch s) = disk s"
  "dwrites (wakeup ch s) = dwrites s" "cpus (wakeup ch s) = cpus s" "this (wakeup ch s) = this s"
  by (simp_all add: wakeup_def wakeup1_def)

lemma ring_upd_buf [simp]:
  "b_next (f (bufs s ! i)) = b_next (bufs s ! i) \<Longrightarrow> b_prev (f (bufs s ! i)) = b_prev (bufs s ! i) \<Longrightarrow>
    ring (bufs (upd_buf i f s)) ord = ring (bufs s) ord"
  by (simp add: upd_buf_def ring_upd)

text \<open>\<open>brelse\<close> on the order: when the last reference goes, the buffer becomes the most recent.\<close>

lemma brelse_ring:
  assumes r: "ring (bufs s) ord" and i: "i \<in> set ord" and b: "brelse i s = Inr s'"
  shows "ring (bufs s') (if b_refcnt (bufs s ! i) = 1 then i # remove1 i ord else ord)"
proof -
  let ?t = "upd_buf i (\<lambda>b. b\<lparr>b_refcnt := b_refcnt b - 1\<rparr>)
     (upd_buf i (\<lambda>b. b\<lparr>b_lock := \<lparr>slocked = False, slpid = 0\<rparr>\<rparr>) (wakeup (ChLock i) s))"
  have rt: "ring (bufs ?t) ord" using r by simp
  have il: "i < length (bufs s)" using r i by (auto simp: ring_def)
  then have rc: "b_refcnt (bufs ?t ! i) = b_refcnt (bufs s ! i) - 1" by (simp add: upd_buf_def)
  have s': "s' = (if b_refcnt (bufs ?t ! i) = 0
      then ?t\<lparr>bufs := link_front i (unlink i (bufs ?t))\<rparr> else ?t)"
    using b by (auto simp: brelse_def releasesleep_def Let_def split: if_splits)
  obtain xs ys where o: "ord = xs @ i # ys" using i by (meson split_list)
  have dd: "distinct ord" "set ord \<subseteq> {..<30}" using r by (simp_all add: ring_def)
  then have rem: "remove1 i ord = xs @ ys" using o by (simp add: remove1_append)
  show ?thesis
  proof (cases "b_refcnt (bufs s ! i) = 1")
    case True
    have "ring (link_front i (unlink i (bufs ?t))) (i # xs @ ys)"
      using unlink_ring [of "bufs ?t" xs i ys] rt o dd by (intro link_front_ring) auto
    then show ?thesis using True rc s' rem by simp
  next
    case False
    then have "b_refcnt (bufs ?t ! i) \<noteq> 0" using rc by simp
    then show ?thesis using False s' rt by simp
  qed
qed

text \<open>C13: the buffer cache is a most-recently-used list. \<^verbatim>\<open>binit\<close> links all 30 buffers into one
  circular list; \<^verbatim>\<open>bget\<close>'s first scan finds the first buffer of that list holding the block and its
  second scan, backwards, the least recently used buffer that is neither referenced nor dirty,
  both ending within the list; \<^verbatim>\<open>brelse\<close> of the last reference moves the buffer to the front and
  keeps the list otherwise unchanged.\<close>

theorem bcache_mru:
  assumes "ring (bufs s) ord"
  shows "scan_next (NBUF + 1) (is_block dev blockno) (bufs s) (b_next (bufs s ! HEAD)) =
      Inr (List.find (\<lambda>i. is_block dev blockno (bufs s ! i)) ord) \<and>
    scan_prev (NBUF + 1) is_free (bufs s) (b_prev (bufs s ! HEAD)) =
      Inr (List.find (\<lambda>i. is_free (bufs s ! i)) (rev ord)) \<and>
    (\<forall>i s'. i \<in> set ord \<longrightarrow> brelse i s = Inr s' \<longrightarrow>
       ring (bufs s') (if b_refcnt (bufs s ! i) = 1 then i # remove1 i ord else ord)) \<and>
    ring (bufs (binit s)) (rev [0..<NBUF])"
  using ring_scans [OF assms] brelse_ring [OF assms] binit_ring [of s] assms by (simp add: ring_def)

lemma map_upd_id: "f y = f (xs ! i) \<Longrightarrow> map f (xs[i := y]) = map f xs"
  by (metis list_update_beyond list_update_id map_update not_less nth_map)

lemma link_front_fields:
  assumes "\<And>b n. f (b\<lparr>b_next := n\<rparr>) = f b" "\<And>b n. f (b\<lparr>b_prev := n\<rparr>) = f b"
  shows "map f (link_front i bs) = map f bs"
proof -
  define b1 where "b1 = bs[i := (bs ! i)\<lparr>b_next := b_next (bs ! HEAD)\<rparr>]"
  define b2 where "b2 = b1[i := (b1 ! i)\<lparr>b_prev := HEAD\<rparr>]"
  define b3 where "b3 = b2[b_next (b2 ! HEAD) := (b2 ! b_next (b2 ! HEAD))\<lparr>b_prev := i\<rparr>]"
  have "link_front i bs = b3[HEAD := (b3 ! HEAD)\<lparr>b_next := i\<rparr>]"
    by (simp only: link_front_def Let_def b1_def b2_def b3_def)
  then have "map f (link_front i bs) = map f b3" using assms by (simp add: map_upd_id)
  also have "\<dots> = map f b2" unfolding b3_def by (rule map_upd_id) (rule assms)
  also have "\<dots> = map f b1" unfolding b2_def by (rule map_upd_id) (rule assms)
  also have "\<dots> = map f bs" unfolding b1_def by (rule map_upd_id) (rule assms)
  finally show ?thesis .
qed

definition buf_core :: "buf \<Rightarrow> u32 \<times> u32 \<times> u32 \<times> u32 \<times> u8 list" where
  "buf_core b = (b_flags b, b_dev b, b_blockno b, b_refcnt b, b_data b)"

lemma binit_loop_fields: "map buf_core (binit_loop is bs) = map buf_core bs"
proof (induction "is" arbitrary: bs)
  case Nil
  then show ?case by simp
next
  case (Cons i "is")
  let ?bs = "bs[i := (bs ! i)\<lparr>b_lock := initsleeplock\<rparr>]"
  have "map buf_core (link_front i ?bs) = map buf_core ?bs"
    by (rule link_front_fields) (simp_all add: buf_core_def)
  also have "\<dots> = map buf_core bs" by (rule map_upd_id) (simp add: buf_core_def)
  finally show ?case using Cons.IH by simp
qed

lemma binit_core:
  assumes "i < length (bufs s)" "length (bufs (binit s)) = length (bufs s)"
  shows "buf_core (bufs (binit s) ! i) = buf_core (bufs s ! i)"
proof -
  have "map buf_core (bufs (binit s)) = map buf_core (bufs s)"
  proof -
    let ?bs = "(bufs s)[HEAD := (bufs s ! HEAD)\<lparr>b_prev := HEAD, b_next := HEAD\<rparr>]"
    have "bufs (binit s) = binit_loop [0..<NBUF] ?bs" by (rule binit_bufs)
    then have "map buf_core (bufs (binit s)) = map buf_core ?bs" by (simp only: binit_loop_fields)
    also have "\<dots> = map buf_core (bufs s)" by (rule map_upd_id) (simp add: buf_core_def)
    finally show ?thesis .
  qed
  then show ?thesis using assms by (metis nth_map)
qed

lemma replicate_update: "(replicate n x)[i := x] = replicate n x"
  by (metis length_replicate list_update_beyond list_update_id not_less nth_replicate)

lemma binit_loop_locks:
  "map b_lock bs = replicate n initsleeplock \<Longrightarrow> map b_lock (binit_loop is bs) = replicate n initsleeplock"
proof (induction "is" arbitrary: bs)
  case Nil
  then show ?case by simp
next
  case (Cons i "is")
  let ?bs = "bs[i := (bs ! i)\<lparr>b_lock := initsleeplock\<rparr>]"
  have "map b_lock (link_front i ?bs) = map b_lock ?bs" by (rule link_front_fields) simp_all
  also have "\<dots> = replicate n initsleeplock"
    using Cons.prems by (simp add: map_update replicate_update)
  finally show ?case using Cons.IH by simp
qed

definition zero_buf :: buf where
  "zero_buf = \<lparr>b_flags = 0, b_dev = 0, b_blockno = 0, b_lock = initsleeplock, b_refcnt = 0,
     b_prev = 0, b_next = 0, b_data = replicate BSIZE 0\<rparr>"

definition boot_bio :: kbio where
  "boot_bio = kproc.extend one_proc \<lparr>disk = replicate 1000 (replicate BSIZE 0), dwrites = [],
     bufs = replicate (NBUF + 1) zero_buf\<rparr>"

lemma boot_bio_simps [simp]:
  "bufs boot_bio = replicate (NBUF + 1) zero_buf" "disk boot_bio = replicate 1000 (replicate BSIZE 0)"
  by (simp_all add: boot_bio_def kproc.defs)

theorem bcache_mru_witness:
  "scan_prev (NBUF + 1) is_free (bufs (binit boot_bio)) (b_prev (bufs (binit boot_bio) ! HEAD)) =
     Inr (Some 0)"
proof -
  have r: "ring (bufs (binit boot_bio)) (rev [0..<NBUF])" by (rule binit_ring) simp
  have "is_free (bufs (binit boot_bio) ! 0)"
    using binit_core [of 0 boot_bio] ring_length [OF r] by (simp add: is_free_def zero_buf_def buf_core_def)
  then have "List.find (\<lambda>i. is_free (bufs (binit boot_bio) ! i)) (rev (rev [0..<NBUF])) = Some 0"
    by (simp add: upt_rec)
  then show ?thesis using bcache_mru [OF r] by simp
qed

end
