(* ===== verification/Bio_View.thy ===== *)
theory Bio_View
  imports Bio_Inv
begin

text \<open>
  What the cache means to its users: every block of the disk has one current content, \<open>vblock\<close>,
  the one in its valid buffer or else the one on the disk. \<open>cache_ok\<close> is the invariant under which
  reading a block returns that content and recycling a buffer loses nothing.
\<close>

definition valid :: "buf \<Rightarrow> bool" where
  "valid b \<longleftrightarrow> and (b_flags b) B_VALID \<noteq> 0"

definition dirty :: "buf \<Rightarrow> bool" where
  "dirty b \<longleftrightarrow> and (b_flags b) B_DIRTY \<noteq> 0"

text \<open>A buffer agrees with the disk if it is valid and clean.\<close>

definition synced :: "u8 list list \<Rightarrow> buf \<Rightarrow> bool" where
  "synced d b \<longleftrightarrow> (b_dev b = 1 \<longrightarrow> valid b \<longrightarrow> \<not> dirty b \<longrightarrow> b_data b = d ! unat (b_blockno b))"

definition cache_ok :: "'a kbio_scheme \<Rightarrow> nat list \<Rightarrow> bool" where
  "cache_ok s ord \<longleftrightarrow> ring (bufs s) ord \<and> set ord = {..<NBUF} \<and>
     (\<forall>i < NBUF. \<forall>j < NBUF. b_dev (bufs s ! i) = 1 \<longrightarrow> b_dev (bufs s ! j) = 1 \<longrightarrow>
        b_blockno (bufs s ! i) = b_blockno (bufs s ! j) \<longrightarrow> i = j) \<and>
     (\<forall>i < NBUF. b_refcnt (bufs s ! i) = 0 \<longrightarrow> \<not> slocked (b_lock (bufs s ! i))) \<and>
     (\<forall>i < NBUF. dirty (bufs s ! i) \<longrightarrow> valid (bufs s ! i)) \<and>
     (\<forall>i < NBUF. \<not> slocked (b_lock (bufs s ! i)) \<longrightarrow> synced (disk s) (bufs s ! i))"

text \<open>The current content of a block of the root device.\<close>

definition vblock :: "'a kbio_scheme \<Rightarrow> u32 \<Rightarrow> u8 list" where
  "vblock s n = (case find_index (\<lambda>b. is_block 1 n b \<and> valid b) (take NBUF (bufs s)) of
     Some i \<Rightarrow> b_data (bufs s ! i) | None \<Rightarrow> disk s ! unat n)"

lemma cache_okD:
  assumes "cache_ok s ord"
  shows "ring (bufs s) ord" "set ord = {..<NBUF}" "length (bufs s) = NBUF + 1"
    "i < NBUF \<Longrightarrow> j < NBUF \<Longrightarrow> is_block 1 n (bufs s ! i) \<Longrightarrow> is_block 1 n (bufs s ! j) \<Longrightarrow> i = j"
    "i < NBUF \<Longrightarrow> b_refcnt (bufs s ! i) = 0 \<Longrightarrow> \<not> slocked (b_lock (bufs s ! i))"
    "i < NBUF \<Longrightarrow> \<not> slocked (b_lock (bufs s ! i)) \<Longrightarrow> synced (disk s) (bufs s ! i)"
    "i < NBUF \<Longrightarrow> dirty (bufs s ! i) \<Longrightarrow> valid (bufs s ! i)"
  using assms unfolding cache_ok_def is_block_def by (auto simp: ring_def)

lemma vblock_cached:
  assumes "cache_ok s ord" "i < NBUF" "is_block 1 n (bufs s ! i)" "valid (bufs s ! i)"
  shows "vblock s n = b_data (bufs s ! i)"
proof -
  note ok = cache_okD [OF assms(1)]
  have "find_index (\<lambda>b. is_block 1 n b \<and> valid b) (take 30 (bufs s)) = Some i"
  proof (rule find_index_SomeI)
    show "i < length (take 30 (bufs s))" using ok(3) assms(2) by simp
    show "is_block 1 n (take 30 (bufs s) ! i) \<and> valid (take 30 (bufs s) ! i)" using assms by simp
    fix j assume "j < i"
    then show "\<not> (is_block 1 n (take 30 (bufs s) ! j) \<and> valid (take 30 (bufs s) ! j))"
      using ok(4) [of j i n] assms(2,3) by auto
  qed
  then show ?thesis by (simp add: vblock_def)
qed

lemma vblock_disk:
  assumes "cache_ok s ord" "\<And>i. i < NBUF \<Longrightarrow> is_block 1 n (bufs s ! i) \<Longrightarrow> \<not> valid (bufs s ! i)"
  shows "vblock s n = disk s ! unat n"
proof -
  have "find_index (\<lambda>b. is_block 1 n b \<and> valid b) (take 30 (bufs s)) = None"
    using assms cache_okD(3) [OF assms(1)] by (auto simp: find_index_None in_set_conv_nth)
  then show ?thesis by (simp add: vblock_def)
qed

text \<open>Changing one buffer changes the content of its own block only.\<close>

lemma vblock_upd:
  assumes ok: "cache_ok s ord" and ok': "cache_ok s' ord'" and i: "i < NBUF"
    and same: "\<And>j. j < NBUF \<Longrightarrow> j \<noteq> i \<Longrightarrow> is_block 1 n (bufs s' ! j) = is_block 1 n (bufs s ! j) \<and>
       valid (bufs s' ! j) = valid (bufs s ! j) \<and> b_data (bufs s' ! j) = b_data (bufs s ! j)"
    and no: "\<not> is_block 1 n (bufs s ! i) \<or> \<not> valid (bufs s ! i) \<or> b_data (bufs s ! i) = disk s ! unat n"
      "\<not> is_block 1 n (bufs s' ! i) \<or> \<not> valid (bufs s' ! i) \<or> b_data (bufs s' ! i) = disk s' ! unat n"
    and d: "disk s' ! unat n = disk s ! unat n"
  shows "vblock s' n = vblock s n"
proof (cases "\<exists>j < NBUF. j \<noteq> i \<and> is_block 1 n (bufs s ! j) \<and> valid (bufs s ! j)")
  case True
  then obtain j where j: "j < NBUF" "j \<noteq> i" "is_block 1 n (bufs s ! j)" "valid (bufs s ! j)" by blast
  then show ?thesis
    using vblock_cached [OF ok j(1,3,4)] vblock_cached [OF ok' j(1)] same [OF j(1,2)] by simp
next
  case False
  have 1: "vblock s n = disk s ! unat n"
  proof (cases "is_block 1 n (bufs s ! i) \<and> valid (bufs s ! i)")
    case True
    then show ?thesis using vblock_cached [OF ok i, of n] no(1) by simp
  next
    case nv: False
    show ?thesis by (rule vblock_disk [OF ok]) (use False nv in blast)
  qed
  have 2: "vblock s' n = disk s' ! unat n"
  proof (cases "is_block 1 n (bufs s' ! i) \<and> valid (bufs s' ! i)")
    case True
    then show ?thesis using vblock_cached [OF ok' i, of n] no(2) by simp
  next
    case nv: False
    show ?thesis by (rule vblock_disk [OF ok']) (use False same nv in blast)
  qed
  show ?thesis using 1 2 d by simp
qed

subsection \<open>bread\<close>

lemma upd_buf_nth:
  "i < length (bufs s) \<Longrightarrow> bufs (upd_buf i f s) ! j = (if i = j then f (bufs s ! i) else bufs s ! j)"
  by (simp add: upd_buf_def nth_list_update)

lemma upd_buf_simps [simp]:
  "disk (upd_buf i f s) = disk s" "dwrites (upd_buf i f s) = dwrites s" "cpus (upd_buf i f s) = cpus s"
  "this (upd_buf i f s) = this s" "ptable (upd_buf i f s) = ptable s" "length (bufs (upd_buf i f s)) = length (bufs s)"
  "mem (upd_buf i f s) = mem s"
  by (simp_all add: upd_buf_def)

lemma upd_buf_twice: "upd_buf i g (upd_buf i f s) = upd_buf i (\<lambda>b. g (f b)) s"
  by (cases "i < length (bufs s)") (simp_all add: upd_buf_def list_update_beyond not_less)

text \<open>A block can be read when it is cached and not in use, or when some buffer can be recycled.\<close>

definition readable :: "'a kbio_scheme \<Rightarrow> u32 \<Rightarrow> bool" where
  "readable s n \<longleftrightarrow>
     (\<exists>i < NBUF. is_block 1 n (bufs s ! i) \<and> \<not> slocked (b_lock (bufs s ! i)) \<and> b_refcnt (bufs s ! i) \<noteq> -1) \<or>
     (\<forall>i < NBUF. \<not> is_block 1 n (bufs s ! i)) \<and> (\<exists>i < NBUF. is_free (bufs s ! i))"

lemma bget_cases:
  assumes ok: "cache_ok s ord" and rd: "readable s n" and c: "curproc s = Inr c"
  obtains i where "i < NBUF" "is_block 1 n (bufs s ! i)" "\<not> slocked (b_lock (bufs s ! i))"
      "b_refcnt (bufs s ! i) \<noteq> -1"
      "bget 1 n s = Inr (i, upd_buf i (\<lambda>b. b\<lparr>b_refcnt := b_refcnt b + 1,
         b_lock := \<lparr>slocked = True, slpid = p_pid (ptable s ! c)\<rparr>\<rparr>) s)"
    | i where "i < NBUF" "\<forall>j < NBUF. \<not> is_block 1 n (bufs s ! j)" "is_free (bufs s ! i)"
      "bget 1 n s = Inr (i, upd_buf i (\<lambda>b. b\<lparr>b_dev := 1, b_blockno := n, b_flags := 0, b_refcnt := 1,
         b_lock := \<lparr>slocked = True, slpid = p_pid (ptable s ! c)\<rparr>\<rparr>) s)"
proof -
  note o = cache_okD [OF ok]
  note sc = ring_scans [OF o(1), where P = "is_block 1 n"] ring_scans [OF o(1), where P = is_free]
  have cu: "curproc (upd_buf i f s) = Inr c" for i f using c by (simp add: curproc_def)
  have lk: "lock_buf i (upd_buf i f s) = Inr (upd_buf i (\<lambda>b. (f b)\<lparr>b_lock :=
       \<lparr>slocked = True, slpid = p_pid (ptable s ! c)\<rparr>\<rparr>) s)"
    if "i < NBUF" "\<not> slocked (b_lock (f (bufs s ! i)))" for i f
    using that o(3) by (simp add: lock_buf_def acquiresleep_def cu upd_buf_nth upd_buf_twice)
  from rd show thesis
    unfolding readable_def
  proof (elim disjE exE conjE)
    fix i assume i: "i < NBUF" "is_block 1 n (bufs s ! i)" "\<not> slocked (b_lock (bufs s ! i))"
      "b_refcnt (bufs s ! i) \<noteq> - 1"
    have "List.find (\<lambda>i. is_block 1 n (bufs s ! i)) ord \<noteq> None"
      using i o(2) by (auto simp: find_None_iff)
    then obtain j where j: "List.find (\<lambda>i. is_block 1 n (bufs s ! i)) ord = Some j" by auto
    then have "is_block 1 n (bufs s ! j)" "j \<in> set ord" by (auto simp: find_Some_iff)
    then have "j = i" using o(2,4) i by auto
    then have "bget 1 n s = Inr (i, upd_buf i (\<lambda>b. b\<lparr>b_refcnt := b_refcnt b + 1,
         b_lock := \<lparr>slocked = True, slpid = p_pid (ptable s ! c)\<rparr>\<rparr>) s)"
      using sc(1) j lk [of i "\<lambda>b. b\<lparr>b_refcnt := b_refcnt b + 1\<rparr>"] i by (simp add: bget_def)
    with i show thesis by (rule that(1))
  next
    fix k assume n: "\<forall>i < NBUF. \<not> is_block 1 n (bufs s ! i)" and k: "k < NBUF" "is_free (bufs s ! k)"
    have none: "List.find (\<lambda>i. is_block 1 n (bufs s ! i)) ord = None"
      using n o(2) by (auto simp: find_None_iff)
    have "List.find (\<lambda>i. is_free (bufs s ! i)) (rev ord) \<noteq> None"
      using k o(2) by (auto simp: find_None_iff)
    then obtain j where j: "List.find (\<lambda>i. is_free (bufs s ! i)) (rev ord) = Some j" by auto
    then have jf: "is_free (bufs s ! j)" "j \<in> set (rev ord)" by (auto simp: find_Some_iff simp del: set_rev)
    then have jl: "j < NBUF" using o(2) by auto
    have "\<not> slocked (b_lock (bufs s ! j))" using o(5) [OF jl] jf(1) by (simp add: is_free_def)
    then have "bget 1 n s = Inr (j, upd_buf j (\<lambda>b. b\<lparr>b_dev := 1, b_blockno := n, b_flags := 0, b_refcnt := 1,
         b_lock := \<lparr>slocked = True, slpid = p_pid (ptable s ! c)\<rparr>\<rparr>) s)"
      using sc(1,4) none j jl lk [of j "\<lambda>b. b\<lparr>b_dev := 1, b_blockno := n, b_flags := 0, b_refcnt := 1\<rparr>"]
      by (simp add: bget_def)
    with jl n jf(1) show thesis by (rule that(2))
  qed
qed

lemma cache_ok_upd:
  assumes ok: "cache_ok s ord" and i: "i < NBUF"
    and l: "b_next (f (bufs s ! i)) = b_next (bufs s ! i)" "b_prev (f (bufs s ! i)) = b_prev (bufs s ! i)"
    and u: "\<And>j. j < NBUF \<Longrightarrow> j \<noteq> i \<Longrightarrow> b_dev (bufs s ! j) = 1 \<Longrightarrow> b_dev (f (bufs s ! i)) = 1 \<Longrightarrow>
        b_blockno (bufs s ! j) \<noteq> b_blockno (f (bufs s ! i))"
    and r: "b_refcnt (f (bufs s ! i)) = 0 \<Longrightarrow> \<not> slocked (b_lock (f (bufs s ! i)))"
    and d: "dirty (f (bufs s ! i)) \<Longrightarrow> valid (f (bufs s ! i))"
    and y: "\<not> slocked (b_lock (f (bufs s ! i))) \<Longrightarrow> synced (disk s) (f (bufs s ! i))"
  shows "cache_ok (upd_buf i f s) ord"
proof -
  note o = cache_okD [OF ok]
  have nth: "bufs (upd_buf i f s) ! j = (if i = j then f (bufs s ! i) else bufs s ! j)" for j
    using o(3) i by (simp add: upd_buf_nth)
  show ?thesis
    unfolding cache_ok_def nth upd_buf_simps
    using ok i u u [THEN not_sym] r d y ring_upd_buf [of f s i ord, OF l]
    unfolding cache_ok_def by (auto split: if_splits)
qed

lemma valid_bit: "valid b \<longleftrightarrow> bit (b_flags b) 1"
  using and_exp_eq_0_iff_not_bit [of "b_flags b" 1] by (simp add: valid_def)

lemma dirty_bit: "dirty b \<longleftrightarrow> bit (b_flags b) 2"
  using and_exp_eq_0_iff_not_bit [of "b_flags b" 2] by (simp add: dirty_def)

lemma flags_test: "and x 2 = 0 \<Longrightarrow> and x (or 2 4) \<noteq> (2 :: u32)"
proof
  assume z: "and x 2 = (0 :: u32)" and e: "and x (or 2 4) = 2"
  have "and (and x (or 2 4)) 2 = and x 2" by (simp add: and.assoc)
  with z e show False by simp
qed

lemma bread_from_bget:
  assumes bg: "bget 1 n s = Inr (i, upd_buf i f s)" and i: "i < length (bufs s)"
    and f: "is_block 1 n (f (bufs s ! i))" "slocked (b_lock (f (bufs s ! i)))"
      "dirty (f (bufs s ! i)) \<Longrightarrow> valid (f (bufs s ! i))"
    and n: "unat n < length (disk s)"
  shows "bread 1 n s = Inr (i, upd_buf i (\<lambda>b. if valid (f b) then f b
     else (f b)\<lparr>b_data := disk s ! unat n, b_flags := or (b_flags (f b)) B_VALID\<rparr>) s)"
proof (cases "valid (f (bufs s ! i))")
  case True
  then have "and (b_flags (bufs (upd_buf i f s) ! i)) 2 \<noteq> 0" using i by (simp add: upd_buf_nth valid_def)
  then show ?thesis using bg True by (simp add: bread_def upd_buf_def)
next
  case False
  then have z: "and (b_flags (f (bufs s ! i))) 2 = 0" "and (b_flags (f (bufs s ! i))) 4 = 0"
    using f(3) by (auto simp: valid_def dirty_def)
  have "iderw i (upd_buf i f s) = Inr (upd_buf i (\<lambda>b. (f b)\<lparr>b_data := disk s ! unat n,
      b_flags := or (b_flags (f b)) 2\<rparr>) s)"
    using i f(1,2) n z flags_test [OF z(1)]
    by (simp add: iderw_def Let_def upd_buf_nth holdingsleep_def is_block_def upd_buf_twice)
      (simp add: upd_buf_def)
  then show ?thesis using bg False z(1) i by (simp add: bread_def upd_buf_nth) (simp add: upd_buf_def)
qed

text \<open>C12: reading a block returns its current content. When the block is cached and unused, or some
  buffer is neither referenced nor dirty, \<^verbatim>\<open>bread\<close> does not panic and does not wait; it returns a
  locked, valid buffer for that block whose data is the block's current content; the content of
  every block, the disk and the invariants of the cache are as before, so recycling a buffer loses
  no data.\<close>

theorem bread_coherent:
  assumes ok: "cache_ok s ord" and rd: "readable s n" and c: "curproc s = Inr c"
    and n: "unat n < length (disk s)"
  shows "\<exists>i s'. bread 1 n s = Inr (i, s') \<and> i < NBUF \<and> is_block 1 n (bufs s' ! i) \<and> valid (bufs s' ! i) \<and>
    slocked (b_lock (bufs s' ! i)) \<and> b_data (bufs s' ! i) = vblock s n \<and>
    (\<forall>m. vblock s' m = vblock s m) \<and> disk s' = disk s \<and> cache_ok s' ord"
proof -
  note o = cache_okD [OF ok]
  let ?lk = "\<lparr>slocked = True, slpid = p_pid (ptable s ! c)\<rparr>"
  obtain i f where i: "i < NBUF" and bg: "bget 1 n s = Inr (i, upd_buf i f s)"
    and f: "f (bufs s ! i) = (bufs s ! i)\<lparr>b_refcnt := b_refcnt (bufs s ! i) + 1, b_lock := ?lk\<rparr> \<and>
        is_block 1 n (bufs s ! i) \<and> b_refcnt (bufs s ! i) \<noteq> -1 \<and> \<not> slocked (b_lock (bufs s ! i)) \<or>
      f (bufs s ! i) = (bufs s ! i)\<lparr>b_dev := 1, b_blockno := n, b_flags := 0, b_refcnt := 1, b_lock := ?lk\<rparr> \<and>
        (\<forall>j < NBUF. \<not> is_block 1 n (bufs s ! j)) \<and> is_free (bufs s ! i)"
    using ok rd c by (rule bget_cases) blast+
  let ?b = "bufs s ! i"
  define g where "g = (\<lambda>b. if valid (f b) then f b
     else (f b)\<lparr>b_data := disk s ! unat n, b_flags := or (b_flags (f b)) B_VALID\<rparr>)"
  have il: "i < length (bufs s)" using i o(3) by simp
  have fb: "is_block 1 n (f ?b)" "slocked (b_lock (f ?b))" "dirty (f ?b) \<Longrightarrow> valid (f ?b)"
      "b_refcnt (f ?b) \<noteq> 0" "b_next (f ?b) = b_next ?b" "b_prev (f ?b) = b_prev ?b"
    using f o(7) [OF i] by (auto simp: is_block_def dirty_def valid_def eq_neg_iff_add_eq_0 [symmetric])
  have gb: "is_block 1 n (g ?b)" "slocked (b_lock (g ?b))" "valid (g ?b)" "b_refcnt (g ?b) \<noteq> 0"
      "b_next (g ?b) = b_next ?b" "b_prev (g ?b) = b_prev ?b"
    using fb by (auto simp: g_def is_block_def valid_bit bit_simps)
  have br: "bread 1 n s = Inr (i, upd_buf i g s)"
    unfolding g_def by (rule bread_from_bget [OF bg il fb(1-3) n])
  have uniq: "\<not> is_block 1 n (bufs s ! j)" if "j < NBUF" "j \<noteq> i" for j
    using f o(4) [OF that(1) i] that by auto
  have ok': "cache_ok (upd_buf i g s) ord"
  proof (rule cache_ok_upd [where f = g, OF ok i gb(5,6)])
    fix j assume "j < NBUF" "j \<noteq> i" "b_dev (bufs s ! j) = 1"
    then show "b_blockno (bufs s ! j) \<noteq> b_blockno (g ?b)"
      using uniq [of j] gb(1) by (simp add: is_block_def)
  qed (use gb in auto)
  have free: "\<not> slocked (b_lock ?b)"
    using f o(5) [OF i] by (auto simp: is_free_def)
  have data: "b_data (g ?b) = vblock s n"
  proof (cases "is_block 1 n ?b \<and> valid ?b")
    case True
    then have "g ?b = f ?b" "b_data (f ?b) = b_data ?b" using f i by (auto simp: g_def valid_def)
    then show ?thesis using vblock_cached [OF ok i, of n] True by simp
  next
    case False
    have "vblock s n = disk s ! unat n"
      by (rule vblock_disk [OF ok]) (use uniq False in blast)
    moreover have "\<not> valid (f ?b)" using f False by (auto simp: valid_def)
    ultimately show ?thesis by (simp add: g_def)
  qed
  have view: "vblock (upd_buf i g s) m = vblock s m" for m
  proof (cases "m = n")
    case True
    have "vblock (upd_buf i g s) n = b_data (g ?b)"
      using vblock_cached [OF ok' i, of n] gb(1,3) il by (simp add: upd_buf_nth)
    then show ?thesis using True data by simp
  next
    case False
    show ?thesis
    proof (rule vblock_upd [OF ok ok' i])
      show "\<not> is_block 1 m (bufs (upd_buf i g s) ! i) \<or> \<not> valid (bufs (upd_buf i g s) ! i) \<or>
          b_data (bufs (upd_buf i g s) ! i) = disk (upd_buf i g s) ! unat m"
        using gb(1) il False by (simp add: upd_buf_nth is_block_def)
      show "\<not> is_block 1 m ?b \<or> \<not> valid ?b \<or> b_data ?b = disk s ! unat m"
        using f o(6) [OF i free] False by (auto simp: is_block_def synced_def is_free_def dirty_def)
    qed (use il in \<open>simp_all add: upd_buf_nth\<close>)
  qed
  show ?thesis using br i gb data view ok' il by (intro exI [of _ i] exI [of _ "upd_buf i g s"]) (simp add: upd_buf_nth)
qed

text \<open>The freshly initialised cache.\<close>

lemma boot_cache_ok: "cache_ok (binit boot_bio) (rev [0..<NBUF])"
proof -
  have r: "ring (bufs (binit boot_bio)) (rev [0..<NBUF])" by (rule binit_ring) simp
  have core: "buf_core (bufs (binit boot_bio) ! i) = buf_core zero_buf" if "i < NBUF" for i
    using binit_core [of i boot_bio] ring_length [OF r] that by simp
  have len: "length (bufs (binit boot_bio)) = 31" using ring_length [OF r] by simp
  have lks: "map b_lock (bufs (binit boot_bio)) = replicate (NBUF + 1) initsleeplock"
    unfolding binit_bufs
    by (rule binit_loop_locks) (simp only: boot_bio_simps map_update map_replicate replicate_update
        length_replicate, simp add: zero_buf_def replicate_update)
  have lk: "\<not> slocked (b_lock (bufs (binit boot_bio) ! i))" if "i < NBUF" for i
  proof -
    have "b_lock (bufs (binit boot_bio) ! i) = map b_lock (bufs (binit boot_bio)) ! i" using that len by simp
    also have "\<dots> = initsleeplock" unfolding lks using that by (simp del: replicate_Suc)
    finally show ?thesis by (simp add: initsleeplock_def)
  qed
  have "b_dev (bufs (binit boot_bio) ! i) = 0 \<and> b_flags (bufs (binit boot_bio) ! i) = 0" if "i < NBUF" for i
    using core [OF that] by (simp add: buf_core_def zero_buf_def)
  note dv = this
  have st: "set (rev [0..<NBUF]) = {..<NBUF}" by (simp only: set_rev set_upt lessThan_atLeast0)
  show ?thesis unfolding cache_ok_def
    by (intro conjI allI impI r st) (use lk dv in \<open>simp_all add: synced_def dirty_def\<close>)
qed

theorem bread_coherent_witness:
  "\<exists>i s'. bread 1 5 (binit boot_bio) = Inr (i, s') \<and> i < NBUF \<and>
     b_data (bufs s' ! i) = vblock (binit boot_bio) 5 \<and> vblock s' 7 = vblock (binit boot_bio) 7"
proof -
  have r: "ring (bufs (binit boot_bio)) (rev [0..<NBUF])" by (rule binit_ring) simp
  have core: "buf_core (bufs (binit boot_bio) ! i) = buf_core zero_buf" if "i < NBUF" for i
    using binit_core [of i boot_bio] ring_length [OF r] that by simp
  then have "readable (binit boot_bio) 5"
    by (auto simp: readable_def buf_core_def zero_buf_def is_block_def is_free_def intro!: exI [of _ 0])
  moreover have "curproc (binit boot_bio) = Inr 0"
    by (simp add: curproc_def binit_def initlock_def boot_bio_def kproc.defs one_proc_def two_cpus_def)
  moreover have "unat (5 :: u32) < length (disk (binit boot_bio))"
    by (simp add: binit_def initlock_def)
  ultimately show ?thesis using bread_coherent [OF boot_cache_ok, of 5 0] by blast
qed

subsection \<open>brelse\<close>

lemma ring_move:
  assumes "ring bs ord" "i \<in> set ord"
  shows "ring (link_front i (unlink i bs)) (i # remove1 i ord)"
proof -
  obtain xs ys where o: "ord = xs @ i # ys" using assms(2) by (meson split_list)
  have dd: "distinct ord" "set ord \<subseteq> {..<30}" using assms(1) by (simp_all add: ring_def)
  have "ring (link_front i (unlink i bs)) (i # xs @ ys)"
    using unlink_ring [of bs xs i ys] assms(1) o dd by (intro link_front_ring) auto
  then show ?thesis using o dd by (simp add: remove1_append)
qed

end
