(* ===== verification/Log.thy ===== *)
theory Log
  imports Bio
begin

text \<open>
  The write-ahead log: \<^verbatim>\<open>log.c\<close>. The in-memory header is \<open>lh_n\<close> and \<open>lh_block\<close>; the on-disk header
  is the block \<open>l_start\<close>, read and written as little-endian words (\<^verbatim>\<open>struct logheader\<close>: the count,
  then the block numbers). \<open>begin_op\<close> that has to wait returns \<open>SleepOn ChLog\<close>; \<open>end_op\<close> commits
  when it ends the last operation, as the code does, outside the log's lock.
\<close>

record superblock =
  sb_size :: u32
  sb_nblocks :: u32
  sb_ninodes :: u32
  sb_nlog :: u32
  sb_logstart :: u32
  sb_inodestart :: u32
  sb_bmapstart :: u32

record klog = kbio +
  l_start :: int
  l_size :: int
  l_outstanding :: int
  l_committing :: bool
  l_dev :: u32
  lh_n :: int
  lh_block :: "u32 list"

abbreviation (input) LOG_LOCK :: nat where "LOG_LOCK \<equiv> 3"

text \<open>\<^verbatim>\<open>memmove(sb, bp->data, sizeof(*sb))\<close>.\<close>

definition decode_sb :: "u8 list \<Rightarrow> superblock" where
  "decode_sb d = \<lparr>sb_size = get32 d 0, sb_nblocks = get32 d 4, sb_ninodes = get32 d 8,
     sb_nlog = get32 d 12, sb_logstart = get32 d 16, sb_inodestart = get32 d 20,
     sb_bmapstart = get32 d 24\<rparr>"

definition readsb :: "u32 \<Rightarrow> 'a kbio_scheme \<Rightarrow> (superblock \<times> 'a kbio_scheme) kres" where
  "readsb dev s =
     andThen (bread dev 1 s) (\<lambda>(bp, s).
     let sb = decode_sb (b_data (bufs s ! bp))
     in andThen (brelse bp s) (\<lambda>s. Inr (sb, s)))"

text \<open>Copy the data of buffer \<open>j\<close> to buffer \<open>i\<close>.\<close>

definition copy_data :: "nat \<Rightarrow> nat \<Rightarrow> 'a kbio_scheme \<Rightarrow> 'a kbio_scheme" where
  "copy_data i j s = upd_buf i (\<lambda>b. b\<lparr>b_data := b_data (bufs s ! j)\<rparr>) s"

subsection \<open>Recovery and commit\<close>

fun install_loop :: "nat \<Rightarrow> int \<Rightarrow> 'a klog_scheme \<Rightarrow> 'a klog_scheme kres" where
  "install_loop 0 tail s = Inr s"
| "install_loop (Suc n) tail s =
     andThen (bread (l_dev s) (word_of_int (l_start s + tail + 1)) s) (\<lambda>(lbuf, s).
     andThen (bread (l_dev s) (lh_block s ! nat tail) s) (\<lambda>(dbuf, s).
     andThen (bwrite dbuf (copy_data dbuf lbuf s)) (\<lambda>s.
     andThen (brelse lbuf s) (\<lambda>s.
     andThen (brelse dbuf s) (\<lambda>s.
     install_loop n (tail + 1) s)))))"

definition install_trans :: "'a klog_scheme \<Rightarrow> 'a klog_scheme kres" where
  "install_trans s = install_loop (nat (lh_n s)) 0 s"

text \<open>\<^verbatim>\<open>read_head\<close> trusts the count it reads: more than \<^verbatim>\<open>LOGSIZE\<close> entries would overrun the array
  (\<open>Fault\<close>).\<close>

definition read_head :: "'a klog_scheme \<Rightarrow> 'a klog_scheme kres" where
  "read_head s =
     andThen (bread (l_dev s) (word_of_int (l_start s)) s) (\<lambda>(bp, s).
     let d = b_data (bufs s ! bp);
         n = sint (get32 d 0)
     in if n > int LOGSIZE then Inl Fault
        else brelse bp (s\<lparr>lh_n := n,
               lh_block := splice 0 (map (\<lambda>i. get32 d (4 + 4 * i)) [0..<nat n]) (lh_block s)\<rparr>))"

fun put_words :: "nat \<Rightarrow> u32 list \<Rightarrow> u8 list \<Rightarrow> u8 list" where
  "put_words off [] d = d"
| "put_words off (w # ws) d = put_words (off + 4) ws (put32 d off w)"

definition write_head :: "'a klog_scheme \<Rightarrow> 'a klog_scheme kres" where
  "write_head s =
     andThen (bread (l_dev s) (word_of_int (l_start s)) s) (\<lambda>(bp, s).
     let s = upd_buf bp (\<lambda>b. b\<lparr>b_data :=
               put_words 4 (take (nat (lh_n s)) (lh_block s))
                 (put32 (b_data b) 0 (word_of_int (lh_n s)))\<rparr>) s
     in andThen (bwrite bp s) (brelse bp))"

definition recover_from_log :: "'a klog_scheme \<Rightarrow> 'a klog_scheme kres" where
  "recover_from_log s =
     andThen (read_head s) (\<lambda>s.
     andThen (install_trans s) (\<lambda>s.
     write_head (s\<lparr>lh_n := 0\<rparr>)))"

definition initlog :: "u32 \<Rightarrow> 'a klog_scheme \<Rightarrow> 'a klog_scheme kres" where
  "initlog dev s =
     andThen (readsb dev (initlock LOG_LOCK s)) (\<lambda>(sb, s).
     recover_from_log (s\<lparr>l_start := sint (sb_logstart sb), l_size := sint (sb_nlog sb),
                         l_dev := dev\<rparr>))"

fun write_log_loop :: "nat \<Rightarrow> int \<Rightarrow> 'a klog_scheme \<Rightarrow> 'a klog_scheme kres" where
  "write_log_loop 0 tail s = Inr s"
| "write_log_loop (Suc n) tail s =
     andThen (bread (l_dev s) (word_of_int (l_start s + tail + 1)) s) (\<lambda>(to, s).
     andThen (bread (l_dev s) (lh_block s ! nat tail) s) (\<lambda>(from, s).
     andThen (bwrite to (copy_data to from s)) (\<lambda>s.
     andThen (brelse from s) (\<lambda>s.
     andThen (brelse to s) (\<lambda>s.
     write_log_loop n (tail + 1) s)))))"

definition write_log :: "'a klog_scheme \<Rightarrow> 'a klog_scheme kres" where
  "write_log s = write_log_loop (nat (lh_n s)) 0 s"

definition commit :: "'a klog_scheme \<Rightarrow> 'a klog_scheme kres" where
  "commit s =
     (if lh_n s > 0 then
        andThen (write_log s) (\<lambda>s.
        andThen (write_head s) (\<lambda>s.
        andThen (install_trans s) (\<lambda>s.
        write_head (s\<lparr>lh_n := 0\<rparr>))))
      else Inr s)"

subsection \<open>Operations\<close>

definition begin_op :: "'a klog_scheme \<Rightarrow> (unit outcome \<times> 'a klog_scheme) kres" where
  "begin_op s =
     (if l_committing s \<or> lh_n s + (l_outstanding s + 1) * int MAXOPBLOCKS > int LOGSIZE then
        andThen (curproc s) (\<lambda>c.
        Inr (SleepOn ChLog, upd_proc c (\<lambda>p. p\<lparr>p_chan := Some ChLog, p_state := SLEEPING\<rparr>) s))
      else Inr (Ret (), s\<lparr>l_outstanding := l_outstanding s + 1\<rparr>))"

definition end_op :: "'a klog_scheme \<Rightarrow> 'a klog_scheme kres" where
  "end_op s =
     (let s = s\<lparr>l_outstanding := l_outstanding s - 1\<rparr>
      in if l_committing s then Inl (Panic ''log.committing'')
         else if l_outstanding s = 0 then
           andThen (commit (s\<lparr>l_committing := True\<rparr>)) (\<lambda>s.
           Inr (wakeup ChLog (s\<lparr>l_committing := False\<rparr>)))
         else Inr (wakeup ChLog s))"

definition log_index :: "u32 \<Rightarrow> 'a klog_scheme \<Rightarrow> nat" where
  "log_index blk s =
     (case find_index (\<lambda>b. b = blk) (take (nat (lh_n s)) (lh_block s)) of
        Some i \<Rightarrow> i | None \<Rightarrow> nat (lh_n s))"

definition log_write :: "nat \<Rightarrow> 'a klog_scheme \<Rightarrow> 'a klog_scheme kres" where
  "log_write bp s =
     (if lh_n s \<ge> int LOGSIZE \<or> lh_n s \<ge> l_size s - 1 then Inl (Panic ''too big a transaction'')
      else if l_outstanding s < 1 then Inl (Panic ''log_write outside of trans'')
      else let blk = b_blockno (bufs s ! bp);
               i = log_index blk s;
               s = s\<lparr>lh_block := (lh_block s)[i := blk]\<rparr>;
               s = (if int i = lh_n s then s\<lparr>lh_n := lh_n s + 1\<rparr> else s)
           in Inr (upd_buf bp (\<lambda>b. b\<lparr>b_flags := or (b_flags b) B_DIRTY\<rparr>) s))"

end
