(* ===== verification/Inode.thy ===== *)
theory Inode
  imports Log
begin

text \<open>
  The lower half of \<^verbatim>\<open>fs.c\<close>: the block allocator, the on-disk inode and the inode cache. A cached
  inode is its index in \<open>icache\<close>; \<^verbatim>\<open>icache.lock\<close> makes the sections it guards one step. An inode's
  sleep lock has the wait channel \<open>ChLock (31 + i)\<close>, after those of the thirty-one buffers.
  \<^verbatim>\<open>short\<close> fields are sixteen-bit words.
\<close>

record inode =
  i_dev :: u32
  i_inum :: u32
  i_ref :: int
  i_lock :: sleeplock
  i_valid :: bool
  i_type :: u16
  i_major :: u16
  i_minor :: u16
  i_nlink :: u16
  i_size :: u32
  i_addrs :: "u32 list"

record kfs = klog +
  fs_sb :: superblock
  icache :: "inode list"

abbreviation (input) BPB :: nat where "BPB \<equiv> 4096"
abbreviation (input) IPB :: nat where "IPB \<equiv> 8"
abbreviation (input) NDIRECT :: nat where "NDIRECT \<equiv> 12"
abbreviation (input) NINDIRECT :: nat where "NINDIRECT \<equiv> 128"
abbreviation (input) DINODE_SIZE :: nat where "DINODE_SIZE \<equiv> 64"
abbreviation (input) T_DIR :: u16 where "T_DIR \<equiv> 1"
abbreviation (input) T_FILE :: u16 where "T_FILE \<equiv> 2"
abbreviation (input) T_DEV :: u16 where "T_DEV \<equiv> 3"
abbreviation (input) ROOTINO :: u32 where "ROOTINO \<equiv> 1"
abbreviation (input) ICACHE_LOCK :: nat where "ICACHE_LOCK \<equiv> 4"

definition upd_inode :: "nat \<Rightarrow> (inode \<Rightarrow> inode) \<Rightarrow> 'a kfs_scheme \<Rightarrow> 'a kfs_scheme" where
  "upd_inode i f s = s\<lparr>icache := (icache s)[i := f (icache s ! i)]\<rparr>"

definition set_data :: "nat \<Rightarrow> u8 list \<Rightarrow> 'a kbio_scheme \<Rightarrow> 'a kbio_scheme" where
  "set_data bp d s = upd_buf bp (\<lambda>b. b\<lparr>b_data := d\<rparr>) s"

subsection \<open>The on-disk inode\<close>

definition get16 :: "u8 list \<Rightarrow> nat \<Rightarrow> u16" where
  "get16 bs k = or (ucast (bs ! k)) (push_bit 8 (ucast (bs ! (k + 1))))"

definition bytes16 :: "u16 \<Rightarrow> u8 list" where
  "bytes16 w = [ucast w, ucast (drop_bit 8 w)]"

definition put16 :: "u8 list \<Rightarrow> nat \<Rightarrow> u16 \<Rightarrow> u8 list" where
  "put16 bs k w = splice k (bytes16 w) bs"

record dinode =
  d_type :: u16
  d_major :: u16
  d_minor :: u16
  d_nlink :: u16
  d_size :: u32
  d_addrs :: "u32 list"

text \<open>The inode at byte offset \<open>k\<close> of a block.\<close>

definition get_dinode :: "u8 list \<Rightarrow> nat \<Rightarrow> dinode" where
  "get_dinode d k = \<lparr>d_type = get16 d k, d_major = get16 d (k + 2), d_minor = get16 d (k + 4),
     d_nlink = get16 d (k + 6), d_size = get32 d (k + 8),
     d_addrs = map (\<lambda>i. get32 d (k + 12 + 4 * i)) [0..<NDIRECT + 1]\<rparr>"

definition put_dinode :: "u8 list \<Rightarrow> nat \<Rightarrow> dinode \<Rightarrow> u8 list" where
  "put_dinode d k di =
     put_words (k + 12) (d_addrs di)
       (put32 (put16 (put16 (put16 (put16 d k (d_type di)) (k + 2) (d_major di))
          (k + 4) (d_minor di)) (k + 6) (d_nlink di)) (k + 8) (d_size di))"

definition IBLOCK :: "u32 \<Rightarrow> superblock \<Rightarrow> u32" where
  "IBLOCK i sb = word_of_nat (unat i div IPB) + sb_inodestart sb"

definition BBLOCK :: "u32 \<Rightarrow> superblock \<Rightarrow> u32" where
  "BBLOCK b sb = word_of_nat (unat b div BPB) + sb_bmapstart sb"

definition inode_off :: "u32 \<Rightarrow> nat" where
  "inode_off inum = DINODE_SIZE * (unat inum mod IPB)"

subsection \<open>Blocks\<close>

definition bzero :: "u32 \<Rightarrow> u32 \<Rightarrow> 'a klog_scheme \<Rightarrow> 'a klog_scheme kres" where
  "bzero dev bno s =
     andThen (bread dev bno s) (\<lambda>(bp, s).
     andThen (log_write bp (set_data bp (replicate BSIZE 0) s)) (brelse bp))"

definition bit_mask :: "nat \<Rightarrow> u8" where
  "bit_mask bi = push_bit (bi mod 8) 1"

definition bit_clear :: "u8 list \<Rightarrow> nat \<Rightarrow> bool" where
  "bit_clear d bi \<longleftrightarrow> and (d ! (bi div 8)) (bit_mask bi) = 0"

definition mark_used :: "nat \<Rightarrow> u8 list \<Rightarrow> u8 list" where
  "mark_used bi d = d[bi div 8 := or (d ! (bi div 8)) (bit_mask bi)]"

definition mark_free :: "nat \<Rightarrow> u8 list \<Rightarrow> u8 list" where
  "mark_free bi d = d[bi div 8 := and (d ! (bi div 8)) (NOT (bit_mask bi))]"

text \<open>The outer loop of \<^verbatim>\<open>balloc\<close> over the given first blocks of the bitmap blocks.\<close>

fun balloc_scan :: "u32 \<Rightarrow> nat list \<Rightarrow> 'a kfs_scheme \<Rightarrow> (u32 \<times> 'a kfs_scheme) kres" where
  "balloc_scan dev [] s = Inl (Panic ''balloc: out of blocks'')"
| "balloc_scan dev (b # bs) s =
     andThen (bread dev (BBLOCK (word_of_nat b) (fs_sb s)) s) (\<lambda>(bp, s).
     let d = b_data (bufs s ! bp)
     in case find_index (bit_clear d) [0..<min BPB (unat (sb_size (fs_sb s)) - b)] of
          Some bi \<Rightarrow>
            andThen (log_write bp (set_data bp (mark_used bi d) s)) (\<lambda>s.
            andThen (brelse bp s) (\<lambda>s.
            andThen (bzero dev (word_of_nat (b + bi)) s) (\<lambda>s.
            Inr (word_of_nat (b + bi), s))))
        | None \<Rightarrow> andThen (brelse bp s) (balloc_scan dev bs))"

definition bitmap_starts :: "u32 \<Rightarrow> nat list" where
  "bitmap_starts n = map (\<lambda>k. k * BPB) [0..<(unat n + (BPB - 1)) div BPB]"

definition balloc :: "u32 \<Rightarrow> 'a kfs_scheme \<Rightarrow> (u32 \<times> 'a kfs_scheme) kres" where
  "balloc dev s = balloc_scan dev (bitmap_starts (sb_size (fs_sb s))) s"

definition bfree :: "u32 \<Rightarrow> u32 \<Rightarrow> 'a kfs_scheme \<Rightarrow> 'a kfs_scheme kres" where
  "bfree dev b s =
     andThen (readsb dev s) (\<lambda>(sb, s).
     let s = s\<lparr>fs_sb := sb\<rparr>
     in andThen (bread dev (BBLOCK b (fs_sb s)) s) (\<lambda>(bp, s).
        let d = b_data (bufs s ! bp);
            bi = unat b mod BPB
        in if bit_clear d bi then Inl (Panic ''freeing free block'')
           else andThen (log_write bp (set_data bp (mark_free bi d) s)) (brelse bp)))"

subsection \<open>Inodes\<close>

definition iinit :: "u32 \<Rightarrow> 'a kfs_scheme \<Rightarrow> 'a kfs_scheme kres" where
  "iinit dev s =
     (let s = initlock ICACHE_LOCK s;
          s = s\<lparr>icache := map (\<lambda>ip. ip\<lparr>i_lock := initsleeplock\<rparr>) (icache s)\<rparr>
      in andThen (readsb dev s) (\<lambda>(sb, s).
         cprintf (''sb: size %d nblocks %d ninodes %d nlog %d logstart %d inodestart %d bmap start %d'' @ [CHR 0x0A])
           [CInt (sb_size sb), CInt (sb_nblocks sb), CInt (sb_ninodes sb), CInt (sb_nlog sb),
            CInt (sb_logstart sb), CInt (sb_inodestart sb), CInt (sb_bmapstart sb)]
           (s\<lparr>fs_sb := sb\<rparr>)))"

definition iget :: "u32 \<Rightarrow> u32 \<Rightarrow> 'a kfs_scheme \<Rightarrow> (nat \<times> 'a kfs_scheme) kres" where
  "iget dev inum s =
     (case find_index (\<lambda>ip. i_ref ip > 0 \<and> i_dev ip = dev \<and> i_inum ip = inum) (icache s) of
        Some i \<Rightarrow> Inr (i, upd_inode i (\<lambda>ip. ip\<lparr>i_ref := i_ref ip + 1\<rparr>) s)
      | None \<Rightarrow>
          (case find_index (\<lambda>ip. i_ref ip = 0) (icache s) of
             None \<Rightarrow> Inl (Panic ''iget: no inodes'')
           | Some i \<Rightarrow> Inr (i, upd_inode i (\<lambda>ip. ip\<lparr>i_dev := dev, i_inum := inum, i_ref := 1,
                                                   i_valid := False\<rparr>) s)))"

fun ialloc_scan :: "u32 \<Rightarrow> u16 \<Rightarrow> nat list \<Rightarrow> 'a kfs_scheme \<Rightarrow> (nat \<times> 'a kfs_scheme) kres" where
  "ialloc_scan dev ty [] s = Inl (Panic ''ialloc: no inodes'')"
| "ialloc_scan dev ty (inum # is) s =
     andThen (bread dev (IBLOCK (word_of_nat inum) (fs_sb s)) s) (\<lambda>(bp, s).
     let d = b_data (bufs s ! bp);
         k = inode_off (word_of_nat inum)
     in if get16 d k = 0 then
          andThen (log_write bp (set_data bp (put16 (splice k (replicate DINODE_SIZE 0) d) k ty) s)) (\<lambda>s.
          andThen (brelse bp s) (\<lambda>s.
          iget dev (word_of_nat inum) s))
        else andThen (brelse bp s) (ialloc_scan dev ty is))"

definition ialloc :: "u32 \<Rightarrow> u16 \<Rightarrow> 'a kfs_scheme \<Rightarrow> (nat \<times> 'a kfs_scheme) kres" where
  "ialloc dev ty s = ialloc_scan dev ty [1..<unat (sb_ninodes (fs_sb s))] s"

definition to_dinode :: "inode \<Rightarrow> dinode" where
  "to_dinode ip = \<lparr>d_type = i_type ip, d_major = i_major ip, d_minor = i_minor ip,
     d_nlink = i_nlink ip, d_size = i_size ip, d_addrs = i_addrs ip\<rparr>"

definition of_dinode :: "dinode \<Rightarrow> inode \<Rightarrow> inode" where
  "of_dinode di ip = ip\<lparr>i_type := d_type di, i_major := d_major di, i_minor := d_minor di,
     i_nlink := d_nlink di, i_size := d_size di, i_addrs := d_addrs di\<rparr>"

definition iupdate :: "nat \<Rightarrow> 'a kfs_scheme \<Rightarrow> 'a kfs_scheme kres" where
  "iupdate i s =
     (let ip = icache s ! i
      in andThen (bread (i_dev ip) (IBLOCK (i_inum ip) (fs_sb s)) s) (\<lambda>(bp, s).
         let d = put_dinode (b_data (bufs s ! bp)) (inode_off (i_inum ip)) (to_dinode ip)
         in andThen (log_write bp (set_data bp d s)) (brelse bp)))"

definition idup :: "nat \<Rightarrow> 'a kfs_scheme \<Rightarrow> nat \<times> 'a kfs_scheme" where
  "idup i s = (i, upd_inode i (\<lambda>ip. ip\<lparr>i_ref := i_ref ip + 1\<rparr>) s)"

definition ilock :: "nat \<Rightarrow> 'a kfs_scheme \<Rightarrow> 'a kfs_scheme kres" where
  "ilock i s =
     (if i_ref (icache s ! i) < 1 then Inl (Panic ''ilock'')
      else
        andThen (acquiresleep (i_lock (icache s ! i)) s) (\<lambda>lk.
        let s = upd_inode i (\<lambda>ip. ip\<lparr>i_lock := lk\<rparr>) s;
            ip = icache s ! i
        in if i_valid ip then Inr s
           else
             andThen (bread (i_dev ip) (IBLOCK (i_inum ip) (fs_sb s)) s) (\<lambda>(bp, s).
             let di = get_dinode (b_data (bufs s ! bp)) (inode_off (i_inum ip));
                 s = upd_inode i (of_dinode di) s
             in andThen (brelse bp s) (\<lambda>s.
                let s = upd_inode i (\<lambda>ip. ip\<lparr>i_valid := True\<rparr>) s
                in if i_type (icache s ! i) = 0 then Inl (Panic ''ilock: no type'') else Inr s))))"

definition unlock_inode :: "nat \<Rightarrow> 'a kfs_scheme \<Rightarrow> 'a kfs_scheme" where
  "unlock_inode i s =
     (let (lk, s) = releasesleep (31 + i) s in upd_inode i (\<lambda>ip. ip\<lparr>i_lock := lk\<rparr>) s)"

definition iunlock :: "nat \<Rightarrow> 'a kfs_scheme \<Rightarrow> 'a kfs_scheme kres" where
  "iunlock i s =
     (if \<not> holdingsleep (i_lock (icache s ! i)) \<or> i_ref (icache s ! i) < 1
      then Inl (Panic ''iunlock'')
      else Inr (unlock_inode i s))"

subsection \<open>Truncation and release\<close>

fun trunc_direct :: "nat \<Rightarrow> nat list \<Rightarrow> 'a kfs_scheme \<Rightarrow> 'a kfs_scheme kres" where
  "trunc_direct i [] s = Inr s"
| "trunc_direct i (k # ks) s =
     (let ip = icache s ! i
      in if i_addrs ip ! k \<noteq> 0 then
           andThen (bfree (i_dev ip) (i_addrs ip ! k) s) (\<lambda>s.
           trunc_direct i ks (upd_inode i (\<lambda>ip. ip\<lparr>i_addrs := (i_addrs ip)[k := 0]\<rparr>) s))
         else trunc_direct i ks s)"

fun trunc_indirect :: "u32 \<Rightarrow> nat \<Rightarrow> nat list \<Rightarrow> 'a kfs_scheme \<Rightarrow> 'a kfs_scheme kres" where
  "trunc_indirect dev bp [] s = Inr s"
| "trunc_indirect dev bp (j # js) s =
     (let a = get32 (b_data (bufs s ! bp)) (4 * j)
      in if a \<noteq> 0 then andThen (bfree dev a s) (trunc_indirect dev bp js)
         else trunc_indirect dev bp js s)"

definition itrunc :: "nat \<Rightarrow> 'a kfs_scheme \<Rightarrow> 'a kfs_scheme kres" where
  "itrunc i s =
     andThen (trunc_direct i [0..<NDIRECT] s) (\<lambda>s.
     let ip = icache s ! i;
         a = i_addrs ip ! NDIRECT
     in andThen
          (if a \<noteq> 0 then
             andThen (bread (i_dev ip) a s) (\<lambda>(bp, s).
             andThen (trunc_indirect (i_dev ip) bp [0..<NINDIRECT] s) (\<lambda>s.
             andThen (brelse bp s) (\<lambda>s.
             andThen (bfree (i_dev ip) a s) (\<lambda>s.
             Inr (upd_inode i (\<lambda>ip. ip\<lparr>i_addrs := (i_addrs ip)[NDIRECT := 0]\<rparr>) s)))))
           else Inr s) (\<lambda>s.
        iupdate i (upd_inode i (\<lambda>ip. ip\<lparr>i_size := 0\<rparr>) s)))"

definition iput :: "nat \<Rightarrow> 'a kfs_scheme \<Rightarrow> 'a kfs_scheme kres" where
  "iput i s =
     andThen (acquiresleep (i_lock (icache s ! i)) s) (\<lambda>lk.
     let s = upd_inode i (\<lambda>ip. ip\<lparr>i_lock := lk\<rparr>) s;
         ip = icache s ! i
     in andThen
          (if i_valid ip \<and> i_nlink ip = 0 \<and> i_ref ip = 1 then
             andThen (itrunc i s) (\<lambda>s.
             andThen (iupdate i (upd_inode i (\<lambda>ip. ip\<lparr>i_type := 0\<rparr>) s)) (\<lambda>s.
             Inr (upd_inode i (\<lambda>ip. ip\<lparr>i_valid := False\<rparr>) s)))
           else Inr s) (\<lambda>s.
        Inr (upd_inode i (\<lambda>ip. ip\<lparr>i_ref := i_ref ip - 1\<rparr>) (unlock_inode i s))))"

definition iunlockput :: "nat \<Rightarrow> 'a kfs_scheme \<Rightarrow> 'a kfs_scheme kres" where
  "iunlockput i s = andThen (iunlock i s) (iput i)"

subsection \<open>Block map\<close>

definition addr_or_alloc :: "nat \<Rightarrow> nat \<Rightarrow> 'a kfs_scheme \<Rightarrow> (u32 \<times> 'a kfs_scheme) kres" where
  "addr_or_alloc i k s =
     (let ip = icache s ! i
      in if i_addrs ip ! k = 0 then
           andThen (balloc (i_dev ip) s) (\<lambda>(addr, s).
           Inr (addr, upd_inode i (\<lambda>ip. ip\<lparr>i_addrs := (i_addrs ip)[k := addr]\<rparr>) s))
         else Inr (i_addrs ip ! k, s))"

definition bmap :: "nat \<Rightarrow> u32 \<Rightarrow> 'a kfs_scheme \<Rightarrow> (u32 \<times> 'a kfs_scheme) kres" where
  "bmap i bn s =
     (if unat bn < NDIRECT then addr_or_alloc i (unat bn) s
      else
        let bn = unat bn - NDIRECT
        in if bn < NINDIRECT then
             andThen (addr_or_alloc i NDIRECT s) (\<lambda>(addr, s).
             let dev = i_dev (icache s ! i)
             in andThen (bread dev addr s) (\<lambda>(bp, s).
                let a = get32 (b_data (bufs s ! bp)) (4 * bn)
                in if a = 0 then
                     andThen (balloc dev s) (\<lambda>(a, s).
                     andThen (log_write bp (set_data bp (put32 (b_data (bufs s ! bp)) (4 * bn) a) s)) (\<lambda>s.
                     andThen (brelse bp s) (\<lambda>s. Inr (a, s))))
                   else andThen (brelse bp s) (\<lambda>s. Inr (a, s))))
           else Inl (Panic ''bmap: out of range''))"

record stat =
  st_type :: u16
  st_dev :: u32
  st_ino :: u32
  st_nlink :: u16
  st_size :: u32

definition stati :: "nat \<Rightarrow> 'a kfs_scheme \<Rightarrow> stat" where
  "stati i s = (let ip = icache s ! i in \<lparr>st_type = i_type ip, st_dev = i_dev ip,
     st_ino = i_inum ip, st_nlink = i_nlink ip, st_size = i_size ip\<rparr>)"

end
