(* ===== verification/Console.thy ===== *)
theory Console
  imports Inode
begin

text \<open>
  The console of \<^verbatim>\<open>console.c\<close>: line input with editing, the console device's read and write, and
  the CGA text screen. \<open>in_r\<close>, \<open>in_w\<close> and \<open>in_e\<close> are the free-running indices of the input ring;
  \<^verbatim>\<open>cons.lock\<close> makes each section one step. The characters an interrupt delivers (the results of
  \<^verbatim>\<open>getc\<close> up to the first negative one) are a list. \<open>devsw_console\<close> records that \<^verbatim>\<open>consoleinit\<close> has
  entered the console in the device switch, the only device that is.

  The screen is a state of its own: \<open>out\<close> is the stream of characters that reach \<^verbatim>\<open>cgaputc\<close>, and
  \<open>cgaputc\<close> below runs over that stream.
\<close>

record kcons = kfs +
  in_buf :: "u8 list"
  in_r :: u32
  in_w :: u32
  in_e :: u32
  devsw_console :: bool
  power_off :: bool

abbreviation (input) INPUT_BUF :: nat where "INPUT_BUF \<equiv> 128"
abbreviation (input) CONSOLE :: int where "CONSOLE \<equiv> 1"
abbreviation (input) BACKSPACE :: int where "BACKSPACE \<equiv> 256"

definition consputc :: "int \<Rightarrow> 'a kmem_scheme \<Rightarrow> 'a kmem_scheme" where
  "consputc c s = s\<lparr>out := out s @ [c]\<rparr>"

definition in_slot :: "u32 \<Rightarrow> nat" where
  "in_slot i = unat i mod INPUT_BUF"

subsection \<open>Input\<close>

definition do_shutdown :: "'a kcons_scheme \<Rightarrow> 'a kcons_scheme kres" where
  "do_shutdown s =
     andThen (cprintf ([CHR 0x0A] @ ''Shutting down ...'' @ [CHR 0x0A]) [] s) (\<lambda>s.
     Inr (s\<lparr>power_off := True\<rparr>))"

text \<open>The loop of control-U; it stops at the latest when it has gone back to \<open>in_w\<close>.\<close>

function kill_line :: "'a kcons_scheme \<Rightarrow> 'a kcons_scheme" where
  "kill_line s =
     (if in_e s \<noteq> in_w s \<and> in_buf s ! in_slot (in_e s - 1) \<noteq> 10
      then kill_line (consputc BACKSPACE (s\<lparr>in_e := in_e s - 1\<rparr>))
      else s)"
  by pat_completeness auto
termination
proof (relation "measure (\<lambda>s. unat (in_e s - in_w s))")
  show "wf (measure (\<lambda>s :: 'a kcons_scheme. unat (in_e s - in_w s)))" by simp
next
  fix s :: "'a kcons_scheme"
  assume "in_e s \<noteq> in_w s \<and> in_buf s ! in_slot (in_e s - 1) \<noteq> 10"
  then have "in_e s - in_w s \<noteq> 0" by simp
  then have "unat (in_e s - in_w s - 1) < unat (in_e s - in_w s)"
    by (metis measure_unat)
  moreover have "in_e s - 1 - in_w s = in_e s - in_w s - 1" by simp
  ultimately have "unat (in_e s - 1 - in_w s) < unat (in_e s - in_w s)" by (simp only:)
  then show "(consputc BACKSPACE (s\<lparr>in_e := in_e s - 1\<rparr>), s)
      \<in> measure (\<lambda>s. unat (in_e s - in_w s))"
    by (simp add: consputc_def)
qed

declare kill_line.simps [simp del]

definition putback :: "'a kcons_scheme \<Rightarrow> 'a kcons_scheme" where
  "putback s = (if in_e s \<noteq> in_w s then consputc BACKSPACE (s\<lparr>in_e := in_e s - 1\<rparr>) else s)"

text \<open>The default case: an ordinary character.\<close>

definition in_char :: "int \<Rightarrow> 'a kcons_scheme \<Rightarrow> 'a kcons_scheme" where
  "in_char c s =
     (if c \<noteq> 0 \<and> in_e s - in_r s < 128 then
        let c = (if c = 13 then 10 else c);
            s = consputc c (s\<lparr>in_buf := (in_buf s)[in_slot (in_e s) := word_of_int c],
                              in_e := in_e s + 1\<rparr>)
        in if c = 10 \<or> c = 4 \<or> in_e s = in_r s + 128
           then wakeup ChInput (s\<lparr>in_w := in_e s\<rparr>) else s
      else s)"

text \<open>The flags are \<^verbatim>\<open>doprocdump\<close> and \<^verbatim>\<open>shutdown\<close>.\<close>

fun intr_loop :: "int list \<Rightarrow> bool \<Rightarrow> bool \<Rightarrow> 'a kcons_scheme \<Rightarrow> bool \<times> bool \<times> 'a kcons_scheme" where
  "intr_loop [] dump sd s = (dump, sd, s)"
| "intr_loop (c # cs) dump sd s =
     (if c = 0x10 then intr_loop cs True sd s
      else if c = 4 then intr_loop cs dump True s
      else if c = 0x15 then intr_loop cs dump sd (kill_line s)
      else if c = 8 \<or> c = 0x7f then intr_loop cs dump sd (putback s)
      else intr_loop cs dump sd (in_char c s))"

definition consoleintr :: "int list \<Rightarrow> 'a kcons_scheme \<Rightarrow> 'a kcons_scheme kres" where
  "consoleintr cs s =
     (case intr_loop cs False False s of (dump, sd, s) \<Rightarrow>
        andThen (if sd then do_shutdown s else Inr s) (\<lambda>s.
        if dump then procdump s else Inr s))"

subsection \<open>The console device\<close>

text \<open>
  The read loop with \<open>n\<close> bytes still wanted and \<open>got\<close> set when some have been copied. \<open>None\<close> is the
  return of -1 to a killed process; waiting for input is \<open>Block\<close>.
\<close>

fun consread_loop :: "nat \<Rightarrow> bool \<Rightarrow> 'a kcons_scheme \<Rightarrow> (u8 list option \<times> 'a kcons_scheme) kres" where
  "consread_loop 0 got s = Inr (Some [], s)"
| "consread_loop (Suc n) got s =
     (if in_r s = in_w s then
        andThen (curproc s) (\<lambda>c.
        if killed (ptable s ! c) then Inr (None, s) else Inl Block)
      else
        let c = in_buf s ! in_slot (in_r s);
            s = s\<lparr>in_r := in_r s + 1\<rparr>
        in if c = 4 then Inr (Some [], if got then s\<lparr>in_r := in_r s - 1\<rparr> else s)
           else if c = 10 then Inr (Some [c], s)
           else andThen (consread_loop n True s) (\<lambda>(r, s).
                Inr (map_option (\<lambda>cs. c # cs) r, s)))"

text \<open>A negative \<open>n\<close> copies nothing and returns 0.\<close>

definition consoleread :: "nat \<Rightarrow> u32 \<Rightarrow> 'a kcons_scheme \<Rightarrow> (u32 \<times> u8 list \<times> 'a kcons_scheme) kres" where
  "consoleread ip n s =
     andThen (iunlock ip s) (\<lambda>s.
     andThen (consread_loop (nat (sint n)) False s) (\<lambda>(r, s).
     andThen (ilock ip s) (\<lambda>s.
     case r of
       None \<Rightarrow> Inr (-1, [], s)
     | Some bs \<Rightarrow> Inr (word_of_nat (length bs), bs, s))))"

fun conswrite_loop :: "u8 list \<Rightarrow> 'a kcons_scheme \<Rightarrow> 'a kcons_scheme" where
  "conswrite_loop [] s = s"
| "conswrite_loop (b # bs) s = conswrite_loop bs (consputc (uint b) s)"

text \<open>\<open>src\<close> reads the given number of bytes at an offset of the buffer that is written.\<close>

definition consolewrite ::
  "nat \<Rightarrow> (nat \<Rightarrow> nat \<Rightarrow> 'a kcons_scheme \<Rightarrow> u8 list kres) \<Rightarrow> u32 \<Rightarrow> 'a kcons_scheme
    \<Rightarrow> (u32 \<times> 'a kcons_scheme) kres" where
  "consolewrite ip src n s =
     andThen (iunlock ip s) (\<lambda>s.
     andThen (src 0 (nat (sint n)) s) (\<lambda>bs.
     andThen (ilock ip (conswrite_loop bs s)) (\<lambda>s.
     Inr (n, s))))"

definition consoleinit :: "'a kcons_scheme \<Rightarrow> 'a kcons_scheme" where
  "consoleinit s = s\<lparr>devsw_console := True\<rparr>"

subsection \<open>The screen\<close>

record cga =
  crt :: "u16 list"
  cpos :: int

abbreviation (input) CRTSIZE :: nat where "CRTSIZE \<equiv> 2000"

text \<open>Write past the twenty-five rows is \<open>Fault\<close>.\<close>

definition crt_put :: "int \<Rightarrow> u16 \<Rightarrow> cga \<Rightarrow> cga kres" where
  "crt_put p w g = (if 0 \<le> p \<and> p < int CRTSIZE then Inr (g\<lparr>crt := (crt g)[nat p := w]\<rparr>)
                    else Inl Fault)"

definition crt_scroll :: "cga \<Rightarrow> cga" where
  "crt_scroll g =
     (let p = cpos g - 80;
          c = splice 0 (take (23 * 80) (drop 80 (crt g))) (crt g)
      in g\<lparr>crt := splice (nat p) (replicate (nat (24 * 80 - p)) 0) c, cpos := p\<rparr>)"

definition cgaputc :: "int \<Rightarrow> cga \<Rightarrow> cga kres" where
  "cgaputc c g =
     andThen
       (if c = 10 then Inr (g\<lparr>cpos := cpos g + (80 - cpos g mod 80)\<rparr>)
        else if c = BACKSPACE then Inr (if cpos g > 0 then g\<lparr>cpos := cpos g - 1\<rparr> else g)
        else andThen (crt_put (cpos g) (or (word_of_int (c mod 256)) 0x0700) g) (\<lambda>g.
             Inr (g\<lparr>cpos := cpos g + 1\<rparr>))) (\<lambda>g.
     if cpos g < 0 \<or> cpos g > 25 * 80 then Inl (Panic ''pos under/overflow'')
     else let g = (if cpos g div 80 \<ge> 24 then crt_scroll g else g)
          in crt_put (cpos g) (or 32 0x0700) g)"

fun cga_run :: "int list \<Rightarrow> cga \<Rightarrow> cga kres" where
  "cga_run [] g = Inr g"
| "cga_run (c # cs) g = andThen (cgaputc c g) (cga_run cs)"

end
