(* ===== verification/Fs.thy ===== *)
theory Fs
  imports Console
begin

text \<open>
  The upper half of \<^verbatim>\<open>fs.c\<close>: file contents, directories and path names. \<^verbatim>\<open>readi\<close> returns the bytes
  it copies to \<^verbatim>\<open>dst\<close>, which its caller stores; \<^verbatim>\<open>writei\<close> takes a function that reads its source, so
  that both kernel structures and user memory can be one. Strings are byte lists without the
  terminating NUL.
\<close>

abbreviation (input) DIRSIZ :: nat where "DIRSIZ \<equiv> 14"
abbreviation (input) DIRENT_SIZE :: nat where "DIRENT_SIZE \<equiv> 16"
abbreviation (input) MAXFILE :: nat where "MAXFILE \<equiv> 140"

type_synonym 's source = "nat \<Rightarrow> nat \<Rightarrow> 's \<Rightarrow> u8 list kres"

text \<open>A kernel buffer as a source.\<close>

definition kbytes :: "u8 list \<Rightarrow> 's source" where
  "kbytes bs off n s = Inr (take n (drop off bs))"

subsection \<open>File contents\<close>

definition chunk :: "u32 \<Rightarrow> nat \<Rightarrow> nat" where
  "chunk off n = min n (BSIZE - unat off mod BSIZE)"

lemma chunk_pos: "0 < n \<Longrightarrow> 0 < chunk off n"
  by (simp add: chunk_def)

lemma chunk_le: "chunk off n \<le> n"
  by (simp add: chunk_def)

text \<open>The copy loop of \<^verbatim>\<open>readi\<close>, with \<open>n\<close> bytes left.\<close>

function readi_loop :: "nat \<Rightarrow> u32 \<Rightarrow> nat \<Rightarrow> 'a kcons_scheme \<Rightarrow> (u8 list \<times> 'a kcons_scheme) kres" where
  "readi_loop ip off n s =
     (if n = 0 then Inr ([], s)
      else
        andThen (bmap ip (off div 512) s) (\<lambda>(addr, s).
        andThen (bread (i_dev (icache s ! ip)) addr s) (\<lambda>(bp, s).
        let m = chunk off n;
            bs = take m (drop (unat off mod BSIZE) (b_data (bufs s ! bp)))
        in andThen (brelse bp s) (\<lambda>s.
           andThen (readi_loop ip (off + word_of_nat m) (n - m) s) (\<lambda>(r, s).
           Inr (bs @ r, s))))))"
  by pat_completeness auto
termination
proof (relation "measure (\<lambda>(ip, off, n, s). n)", goal_cases)
  case 1
  then show ?case by simp
next
  case (2 ip off n s)
  then show ?case using chunk_pos [of n off] by simp
qed

declare readi_loop.simps [simp del]

definition is_console :: "inode \<Rightarrow> 'a kcons_scheme \<Rightarrow> bool" where
  "is_console ip s \<longleftrightarrow> sint (i_major ip) = CONSOLE \<and> devsw_console s"

definition readi :: "nat \<Rightarrow> u32 \<Rightarrow> u32 \<Rightarrow> 'a kcons_scheme \<Rightarrow> (u32 \<times> u8 list \<times> 'a kcons_scheme) kres" where
  "readi ip off n s =
     (let i = icache s ! ip
      in if i_type i = T_DEV then
           (if is_console i s then consoleread ip n s else Inr (-1, [], s))
         else if off > i_size i \<or> off + n < off then Inr (-1, [], s)
         else let n = (if off + n > i_size i then i_size i - off else n)
              in andThen (readi_loop ip off (unat n) s) (\<lambda>(bs, s). Inr (n, bs, s)))"

function writei_loop ::
  "nat \<Rightarrow> 'a kcons_scheme source \<Rightarrow> nat \<Rightarrow> u32 \<Rightarrow> nat \<Rightarrow> 'a kcons_scheme \<Rightarrow> 'a kcons_scheme kres" where
  "writei_loop ip src tot off n s =
     (if n = 0 then Inr s
      else
        andThen (bmap ip (off div 512) s) (\<lambda>(addr, s).
        andThen (bread (i_dev (icache s ! ip)) addr s) (\<lambda>(bp, s).
        let m = chunk off n
        in andThen (src tot m s) (\<lambda>bs.
           andThen (log_write bp (set_data bp
             (splice (unat off mod BSIZE) bs (b_data (bufs s ! bp))) s)) (\<lambda>s.
           andThen (brelse bp s) (\<lambda>s.
           writei_loop ip src (tot + m) (off + word_of_nat m) (n - m) s))))))"
  by pat_completeness auto
termination
proof (relation "measure (\<lambda>(ip, src, tot, off, n, s). n)", goal_cases)
  case 1
  then show ?case by simp
next
  case (2 ip src tot off n s)
  then show ?case using chunk_pos [of n off] by simp
qed

declare writei_loop.simps [simp del]

definition writei ::
  "nat \<Rightarrow> 'a kcons_scheme source \<Rightarrow> u32 \<Rightarrow> u32 \<Rightarrow> 'a kcons_scheme \<Rightarrow> (u32 \<times> 'a kcons_scheme) kres" where
  "writei ip src off n s =
     (let i = icache s ! ip
      in if i_type i = T_DEV then
           (if is_console i s then consolewrite ip src n s else Inr (-1, s))
         else if off > i_size i \<or> off + n < off then Inr (-1, s)
         else if off + n > word_of_nat (MAXFILE * BSIZE) then Inr (-1, s)
         else
           andThen (writei_loop ip src 0 off (unat n) s) (\<lambda>s.
           let off = off + n
           in if n > 0 \<and> off > i_size (icache s ! ip) then
                andThen (iupdate ip (upd_inode ip (\<lambda>i. i\<lparr>i_size := off\<rparr>) s)) (\<lambda>s. Inr (n, s))
              else Inr (n, s)))"

subsection \<open>Directories\<close>

text \<open>\<^verbatim>\<open>strncmp\<close> on two arrays whose contents are given up to the end or the NUL.\<close>

fun strncmp_bytes :: "nat \<Rightarrow> u8 list \<Rightarrow> u8 list \<Rightarrow> int" where
  "strncmp_bytes 0 p q = 0"
| "strncmp_bytes (Suc n) p q =
     (let a = (case p of [] \<Rightarrow> 0 | x # _ \<Rightarrow> x);
          b = (case q of [] \<Rightarrow> 0 | x # _ \<Rightarrow> x)
      in if a \<noteq> 0 \<and> a = b then strncmp_bytes n (tl p) (tl q) else uint a - uint b)"

definition namecmp :: "u8 list \<Rightarrow> u8 list \<Rightarrow> int" where
  "namecmp s t = strncmp_bytes DIRSIZ s t"

definition de_inum :: "u8 list \<Rightarrow> u16" where
  "de_inum de = get16 de 0"

definition de_name :: "u8 list \<Rightarrow> u8 list" where
  "de_name de = take DIRSIZ (drop 2 de)"

text \<open>\<^verbatim>\<open>strncpy(de.name, name, DIRSIZ); de.inum = inum\<close>.\<close>

definition mk_dirent :: "u8 list \<Rightarrow> u32 \<Rightarrow> u8 list" where
  "mk_dirent name inum =
     bytes16 (ucast inum) @ take DIRSIZ (takeWhile (\<lambda>c. c \<noteq> 0) name @ replicate DIRSIZ 0)"

definition read_dirent :: "string \<Rightarrow> nat \<Rightarrow> u32 \<Rightarrow> 'a kcons_scheme \<Rightarrow> (u8 list \<times> 'a kcons_scheme) kres" where
  "read_dirent msg dp off s =
     andThen (readi dp off 16 s) (\<lambda>(r, de, s).
     if r \<noteq> 16 then Inl (Panic msg) else Inr (de, s))"

text \<open>The entries of a directory of \<open>n\<close> bytes: the offsets the loops over it visit.\<close>

definition dir_offs :: "u32 \<Rightarrow> u32 list" where
  "dir_offs n = map (\<lambda>k. word_of_nat (DIRENT_SIZE * k)) [0..<(unat n + 15) div DIRENT_SIZE]"

fun dirlookup_scan :: "nat \<Rightarrow> u8 list \<Rightarrow> u32 list \<Rightarrow> 'a kcons_scheme
    \<Rightarrow> ((nat \<times> u32) option \<times> 'a kcons_scheme) kres" where
  "dirlookup_scan dp name [] s = Inr (None, s)"
| "dirlookup_scan dp name (off # offs) s =
     andThen (read_dirent ''dirlookup read'' dp off s) (\<lambda>(de, s).
     if de_inum de = 0 then dirlookup_scan dp name offs s
     else if namecmp name (de_name de) = 0 then
       andThen (iget (i_dev (icache s ! dp)) (ucast (de_inum de)) s) (\<lambda>(ip, s).
       Inr (Some (ip, off), s))
     else dirlookup_scan dp name offs s)"

text \<open>The inode and the offset of its entry.\<close>

definition dirlookup :: "nat \<Rightarrow> u8 list \<Rightarrow> 'a kcons_scheme
    \<Rightarrow> ((nat \<times> u32) option \<times> 'a kcons_scheme) kres" where
  "dirlookup dp name s =
     (if i_type (icache s ! dp) \<noteq> T_DIR then Inl (Panic ''dirlookup not DIR'')
      else dirlookup_scan dp name (dir_offs (i_size (icache s ! dp))) s)"

text \<open>The offset of the first empty entry, or the end of the directory.\<close>

fun dirlink_scan :: "nat \<Rightarrow> u32 list \<Rightarrow> u32 \<Rightarrow> 'a kcons_scheme \<Rightarrow> (u32 \<times> 'a kcons_scheme) kres" where
  "dirlink_scan dp [] stop s = Inr (stop, s)"
| "dirlink_scan dp (off # offs) stop s =
     andThen (read_dirent ''dirlink read'' dp off s) (\<lambda>(de, s).
     if de_inum de = 0 then Inr (off, s) else dirlink_scan dp offs stop s)"

definition dirlink :: "nat \<Rightarrow> u8 list \<Rightarrow> u32 \<Rightarrow> 'a kcons_scheme \<Rightarrow> (u32 \<times> 'a kcons_scheme) kres" where
  "dirlink dp name inum s =
     andThen (dirlookup dp name s) (\<lambda>(r, s).
     case r of
       Some (ip, _) \<Rightarrow> andThen (iput ip s) (\<lambda>s. Inr (-1, s))
     | None \<Rightarrow>
         let offs = dir_offs (i_size (icache s ! dp))
         in andThen (dirlink_scan dp offs (word_of_nat (DIRENT_SIZE * length offs)) s) (\<lambda>(off, s).
            andThen (writei dp (kbytes (mk_dirent name inum)) off 16 s) (\<lambda>(r, s).
            if r \<noteq> 16 then Inl (Panic ''dirlink'') else Inr (0, s))))"

subsection \<open>Paths\<close>

abbreviation (input) SLASH :: u8 where "SLASH \<equiv> 47"

text \<open>The element copied to \<^verbatim>\<open>name\<close> and the rest of the path.\<close>

definition skipelem :: "u8 list \<Rightarrow> (u8 list \<times> u8 list) option" where
  "skipelem path =
     (let path = dropWhile (\<lambda>c. c = SLASH) path
      in if path = [] then None
         else let elem = takeWhile (\<lambda>c. c \<noteq> SLASH) path;
                  rest = dropWhile (\<lambda>c. c \<noteq> SLASH) path
              in Some (take DIRSIZ elem, dropWhile (\<lambda>c. c = SLASH) rest))"

lemma skipelem_shorter: "skipelem path = Some (name, rest) \<Longrightarrow> length rest < length path"
proof -
  assume a: "skipelem path = Some (name, rest)"
  define p where "p = dropWhile (\<lambda>c. c = SLASH) path"
  have p: "p \<noteq> []" "rest = dropWhile (\<lambda>c. c = SLASH) (dropWhile (\<lambda>c. c \<noteq> SLASH) p)"
    using a by (auto simp: skipelem_def p_def Let_def split: if_splits)
  have "hd p \<noteq> SLASH" using p(1) hd_dropWhile [of "\<lambda>c. c = SLASH" path] by (simp add: p_def)
  then have "length (dropWhile (\<lambda>c. c \<noteq> SLASH) p) < length p"
    using p(1) by (cases p) (auto simp: less_Suc_eq_le length_dropWhile_le)
  moreover have "length rest \<le> length (dropWhile (\<lambda>c. c \<noteq> SLASH) p)"
    by (simp add: p(2) length_dropWhile_le)
  moreover have "length p \<le> length path" by (simp add: p_def length_dropWhile_le)
  ultimately show ?thesis by simp
qed

text \<open>The walk of \<^verbatim>\<open>namex\<close> from inode \<open>ip\<close>; it returns the inode and the last element taken.\<close>

function namex_loop :: "u8 list \<Rightarrow> bool \<Rightarrow> u8 list \<Rightarrow> nat \<Rightarrow> 'a kcons_scheme
    \<Rightarrow> ((nat \<times> u8 list) option \<times> 'a kcons_scheme) kres" where
  "namex_loop path par name ip s =
     (case skipelem path of
        None \<Rightarrow>
          if par then andThen (iput ip s) (\<lambda>s. Inr (None, s)) else Inr (Some (ip, name), s)
      | Some (name, path) \<Rightarrow>
          andThen (ilock ip s) (\<lambda>s.
          if i_type (icache s ! ip) \<noteq> T_DIR then andThen (iunlockput ip s) (\<lambda>s. Inr (None, s))
          else if par \<and> path = [] then andThen (iunlock ip s) (\<lambda>s. Inr (Some (ip, name), s))
          else
            andThen (dirlookup ip name s) (\<lambda>(r, s).
            case r of
              None \<Rightarrow> andThen (iunlockput ip s) (\<lambda>s. Inr (None, s))
            | Some (next, _) \<Rightarrow>
                andThen (iunlockput ip s) (namex_loop path par name next))))"
  by pat_completeness auto
termination
  by (relation "measure (\<lambda>(path, par, name, ip, s). length path)") (auto dest: skipelem_shorter)

declare namex_loop.simps [simp del]

definition namex :: "u8 list \<Rightarrow> bool \<Rightarrow> 'a kcons_scheme \<Rightarrow> ((nat \<times> u8 list) option \<times> 'a kcons_scheme) kres" where
  "namex path par s =
     andThen
       (if path \<noteq> [] \<and> hd path = SLASH then iget ROOTDEV ROOTINO s
        else andThen (curproc s) (\<lambda>c.
             case cwd (ptable s ! c) of
               None \<Rightarrow> Inl Fault
             | Some ip \<Rightarrow> Inr (idup ip s)))
       (\<lambda>(ip, s). namex_loop path par [] ip s)"

definition namei :: "u8 list \<Rightarrow> 'a kcons_scheme \<Rightarrow> (nat option \<times> 'a kcons_scheme) kres" where
  "namei path s = andThen (namex path False s) (\<lambda>(r, s). Inr (map_option fst r, s))"

definition nameiparent :: "u8 list \<Rightarrow> 'a kcons_scheme
    \<Rightarrow> ((nat \<times> u8 list) option \<times> 'a kcons_scheme) kres" where
  "nameiparent path s = namex path True s"

end
