(* ===== verification/File.thy ===== *)
theory File
  imports Fs
begin

text \<open>
  Pipes and the open-file table: \<^verbatim>\<open>pipe.c\<close> and \<^verbatim>\<open>file.c\<close>. A file is its index in \<open>ftab\<close>; a pipe is
  the address of the page it was allocated on, its fields held by value in \<open>pipes\<close>. A write to a
  full pipe or a read of an empty one goes to sleep with \<open>SleepOn\<close>; the write also says how many
  bytes it has stored, where it continues when it is woken. Where such a call is part of a longer
  one, and for \<^verbatim>\<open>begin_op\<close> there, sleeping is \<open>Block\<close>.
\<close>

record pipe =
  pdata :: "u8 list"
  nread :: u32
  nwrite :: u32
  readopen :: bool
  writeopen :: bool

datatype fdtype = FD_NONE | FD_PIPE | FD_INODE

record filerec =
  f_type :: fdtype
  f_ref :: int
  f_readable :: bool
  f_writable :: bool
  f_pipe :: u32
  f_ip :: "nat option"
  f_off :: u32

record kfile = kcons +
  pipes :: "u32 \<Rightarrow> pipe"
  ftab :: "filerec list"

abbreviation (input) PIPESIZE :: nat where "PIPESIZE \<equiv> 512"
abbreviation (input) FTABLE_LOCK :: nat where "FTABLE_LOCK \<equiv> 5"

definition upd_pipe :: "u32 \<Rightarrow> (pipe \<Rightarrow> pipe) \<Rightarrow> 'a kfile_scheme \<Rightarrow> 'a kfile_scheme" where
  "upd_pipe p f s = s\<lparr>pipes := (pipes s)(p := f (pipes s p))\<rparr>"

definition upd_file :: "nat \<Rightarrow> (filerec \<Rightarrow> filerec) \<Rightarrow> 'a kfile_scheme \<Rightarrow> 'a kfile_scheme" where
  "upd_file i f s = s\<lparr>ftab := (ftab s)[i := f (ftab s ! i)]\<rparr>"

definition sleep_on :: "chan \<Rightarrow> 'a kproc_scheme \<Rightarrow> 'a kproc_scheme kres" where
  "sleep_on ch s =
     andThen (curproc s) (\<lambda>c. Inr (upd_proc c (\<lambda>p. p\<lparr>p_chan := Some ch, p_state := SLEEPING\<rparr>) s))"

definition no_sleep :: "('r outcome \<times> 's) kres \<Rightarrow> ('r \<times> 's) kres" where
  "no_sleep m = andThen m (\<lambda>(r, s). case r of Ret x \<Rightarrow> Inr (x, s) | SleepOn _ \<Rightarrow> Inl Block)"

definition begin_op_now :: "'a klog_scheme \<Rightarrow> 'a klog_scheme kres" where
  "begin_op_now s = andThen (no_sleep (begin_op s)) (\<lambda>(u, s). Inr s)"

subsection \<open>Pipes\<close>

definition pipeclose :: "u32 \<Rightarrow> bool \<Rightarrow> 'a kfile_scheme \<Rightarrow> 'a kfile_scheme kres" where
  "pipeclose p writable s =
     (let s = (if writable then wakeup (ChPipeR (unat p)) (upd_pipe p (\<lambda>q. q\<lparr>writeopen := False\<rparr>) s)
               else wakeup (ChPipeW (unat p)) (upd_pipe p (\<lambda>q. q\<lparr>readopen := False\<rparr>) s))
      in if \<not> readopen (pipes s p) \<and> \<not> writeopen (pipes s p) then kfree p s else Inr s)"

definition pipe_full :: "pipe \<Rightarrow> bool" where
  "pipe_full q \<longleftrightarrow> nwrite q = nread q + 512"

definition pipe_put :: "u8 \<Rightarrow> pipe \<Rightarrow> pipe" where
  "pipe_put b q = q\<lparr>pdata := (pdata q)[unat (nwrite q) mod PIPESIZE := b], nwrite := nwrite q + 1\<rparr>"

text \<open>The write loop at index \<open>i\<close> with \<open>k\<close> bytes to go; \<open>Ret False\<close> is the return of -1.\<close>

fun pipewrite_loop :: "u32 \<Rightarrow> 'a kfile_scheme source \<Rightarrow> nat \<Rightarrow> nat \<Rightarrow> 'a kfile_scheme
    \<Rightarrow> (bool outcome \<times> nat \<times> 'a kfile_scheme) kres" where
  "pipewrite_loop p src 0 i s = Inr (Ret True, i, s)"
| "pipewrite_loop p src (Suc k) i s =
     (if pipe_full (pipes s p) then
        (if \<not> readopen (pipes s p) then Inr (Ret False, i, s)
         else andThen (curproc s) (\<lambda>c.
              if killed (ptable s ! c) then Inr (Ret False, i, s)
              else andThen (sleep_on (ChPipeW (unat p)) (wakeup (ChPipeR (unat p)) s)) (\<lambda>s.
                   Inr (SleepOn (ChPipeW (unat p)), i, s))))
      else andThen (src i 1 s) (\<lambda>bs.
           pipewrite_loop p src k (i + 1) (upd_pipe p (pipe_put (hd bs)) s)))"

definition pipewrite :: "u32 \<Rightarrow> 'a kfile_scheme source \<Rightarrow> u32 \<Rightarrow> 'a kfile_scheme
    \<Rightarrow> (u32 outcome \<times> nat \<times> 'a kfile_scheme) kres" where
  "pipewrite p src n s =
     andThen (pipewrite_loop p src (nat (sint n)) 0 s) (\<lambda>(r, i, s).
     case r of
       Ret True \<Rightarrow> Inr (Ret n, i, wakeup (ChPipeR (unat p)) s)
     | Ret False \<Rightarrow> Inr (Ret (-1), i, s)
     | SleepOn ch \<Rightarrow> Inr (SleepOn ch, i, s))"

fun pipe_copy :: "nat \<Rightarrow> pipe \<Rightarrow> u8 list \<times> pipe" where
  "pipe_copy 0 q = ([], q)"
| "pipe_copy (Suc k) q =
     (if nread q = nwrite q then ([], q)
      else let b = pdata q ! (unat (nread q) mod PIPESIZE);
               (bs, q) = pipe_copy k (q\<lparr>nread := nread q + 1\<rparr>)
           in (b # bs, q))"

definition piperead :: "u32 \<Rightarrow> u32 \<Rightarrow> 'a kfile_scheme
    \<Rightarrow> (u32 outcome \<times> u8 list \<times> 'a kfile_scheme) kres" where
  "piperead p n s =
     (if nread (pipes s p) = nwrite (pipes s p) \<and> writeopen (pipes s p) then
        andThen (curproc s) (\<lambda>c.
        if killed (ptable s ! c) then Inr (Ret (-1), [], s)
        else andThen (sleep_on (ChPipeR (unat p)) s) (\<lambda>s. Inr (SleepOn (ChPipeR (unat p)), [], s)))
      else
        let (bs, q) = pipe_copy (nat (sint n)) (pipes s p)
        in Inr (Ret (word_of_nat (length bs)), bs,
                wakeup (ChPipeW (unat p)) (upd_pipe p (\<lambda>_. q) s)))"

subsection \<open>The file table\<close>

definition fileinit :: "'a kfile_scheme \<Rightarrow> 'a kfile_scheme" where
  "fileinit s = initlock FTABLE_LOCK s"

definition filealloc :: "'a kfile_scheme \<Rightarrow> nat option \<times> 'a kfile_scheme" where
  "filealloc s =
     (case find_index (\<lambda>f. f_ref f = 0) (ftab s) of
        None \<Rightarrow> (None, s)
      | Some i \<Rightarrow> (Some i, upd_file i (\<lambda>f. f\<lparr>f_ref := 1\<rparr>) s))"

definition filedup :: "nat \<Rightarrow> 'a kfile_scheme \<Rightarrow> 'a kfile_scheme kres" where
  "filedup f s =
     (if f_ref (ftab s ! f) < 1 then Inl (Panic ''filedup'')
      else Inr (upd_file f (\<lambda>f. f\<lparr>f_ref := f_ref f + 1\<rparr>) s))"

definition fileclose :: "nat \<Rightarrow> 'a kfile_scheme \<Rightarrow> 'a kfile_scheme kres" where
  "fileclose f s =
     (if f_ref (ftab s ! f) < 1 then Inl (Panic ''fileclose'')
      else
        let s = upd_file f (\<lambda>f. f\<lparr>f_ref := f_ref f - 1\<rparr>) s
        in if f_ref (ftab s ! f) > 0 then Inr s
           else
             let ff = ftab s ! f;
                 s = upd_file f (\<lambda>f. f\<lparr>f_ref := 0, f_type := FD_NONE\<rparr>) s
             in case f_type ff of
                  FD_PIPE \<Rightarrow> pipeclose (f_pipe ff) (f_writable ff) s
                | FD_INODE \<Rightarrow>
                    andThen (begin_op_now s) (\<lambda>s.
                    case f_ip ff of
                      None \<Rightarrow> Inl Fault
                    | Some ip \<Rightarrow> andThen (iput ip s) end_op)
                | FD_NONE \<Rightarrow> Inr s)"

definition filestat :: "nat \<Rightarrow> 'a kfile_scheme \<Rightarrow> (stat option \<times> 'a kfile_scheme) kres" where
  "filestat f s =
     (if f_type (ftab s ! f) = FD_INODE then
        (case f_ip (ftab s ! f) of
           None \<Rightarrow> Inl Fault
         | Some ip \<Rightarrow>
             andThen (ilock ip s) (\<lambda>s.
             let st = stati ip s
             in andThen (iunlock ip s) (\<lambda>s. Inr (Some st, s))))
      else Inr (None, s))"

text \<open>The result and the bytes for \<^verbatim>\<open>addr\<close>.\<close>

definition fileread :: "nat \<Rightarrow> u32 \<Rightarrow> 'a kfile_scheme \<Rightarrow> (u32 \<times> u8 list \<times> 'a kfile_scheme) kres" where
  "fileread f n s =
     (let ff = ftab s ! f
      in if \<not> f_readable ff then Inr (-1, [], s)
         else case f_type ff of
           FD_PIPE \<Rightarrow>
             andThen (piperead (f_pipe ff) n s) (\<lambda>(r, bs, s).
             case r of Ret x \<Rightarrow> Inr (x, bs, s) | SleepOn _ \<Rightarrow> Inl Block)
         | FD_INODE \<Rightarrow>
             (case f_ip ff of
                None \<Rightarrow> Inl Fault
              | Some ip \<Rightarrow>
                  andThen (ilock ip s) (\<lambda>s.
                  andThen (readi ip (f_off (ftab s ! f)) n s) (\<lambda>(r, bs, s).
                  let s = (if sint r > 0 then upd_file f (\<lambda>f. f\<lparr>f_off := f_off f + r\<rparr>) s else s)
                  in andThen (iunlock ip s) (\<lambda>s. Inr (r, bs, s)))))
         | FD_NONE \<Rightarrow> Inl (Panic ''fileread''))"

text \<open>The chunk written in one transaction: \<^verbatim>\<open>((MAXOPBLOCKS-1-1-2) / 2) * 512\<close>.\<close>

abbreviation (input) WMAX :: nat where "WMAX \<equiv> ((MAXOPBLOCKS - 1 - 1 - 2) div 2) * 512"

text \<open>The loop of \<^verbatim>\<open>filewrite\<close> with \<open>i\<close> bytes written; the result is the final \<open>i\<close>.\<close>

function filewrite_loop :: "nat \<Rightarrow> nat \<Rightarrow> 'a kfile_scheme source \<Rightarrow> nat \<Rightarrow> nat \<Rightarrow> 'a kfile_scheme
    \<Rightarrow> (nat \<times> 'a kfile_scheme) kres" where
  "filewrite_loop f ip src i n s =
     (if i < n then
        let n1 = min (n - i) WMAX
        in andThen (begin_op_now s) (\<lambda>s.
           andThen (ilock ip s) (\<lambda>s.
           andThen (writei ip (\<lambda>o' m s. src (i + o') m s) (f_off (ftab s ! f)) (word_of_nat n1) s) (\<lambda>(r, s).
           let s = (if sint r > 0 then upd_file f (\<lambda>f. f\<lparr>f_off := f_off f + r\<rparr>) s else s)
           in andThen (iunlock ip s) (\<lambda>s.
              andThen (end_op s) (\<lambda>s.
              if sint r < 0 then Inr (i, s)
              else if r \<noteq> word_of_nat n1 then Inl (Panic ''short filewrite'')
              else filewrite_loop f ip src (i + n1) n s)))))
      else Inr (i, s))"
  by pat_completeness auto
termination
  by (relation "measure (\<lambda>(f, ip, src, i, n, s). n - i)") auto

declare filewrite_loop.simps [simp del]

definition filewrite :: "nat \<Rightarrow> 'a kfile_scheme source \<Rightarrow> u32 \<Rightarrow> 'a kfile_scheme
    \<Rightarrow> (u32 \<times> 'a kfile_scheme) kres" where
  "filewrite f src n s =
     (let ff = ftab s ! f
      in if \<not> f_writable ff then Inr (-1, s)
         else case f_type ff of
           FD_PIPE \<Rightarrow>
             andThen (pipewrite (f_pipe ff) src n s) (\<lambda>(r, i, s).
             case r of Ret x \<Rightarrow> Inr (x, s) | SleepOn _ \<Rightarrow> Inl Block)
         | FD_INODE \<Rightarrow>
             (case f_ip ff of
                None \<Rightarrow> Inl Fault
              | Some ip \<Rightarrow>
                  andThen (filewrite_loop f ip src 0 (nat (sint n)) s) (\<lambda>(i, s).
                  Inr (if int i = sint n then n else -1, s)))
         | FD_NONE \<Rightarrow> Inl (Panic ''filewrite''))"

subsection \<open>Allocation of a pipe\<close>

definition close_opt :: "nat option \<Rightarrow> 'a kfile_scheme \<Rightarrow> 'a kfile_scheme kres" where
  "close_opt f s = (case f of None \<Rightarrow> Inr s | Some i \<Rightarrow> fileclose i s)"

text \<open>The code at \<^verbatim>\<open>bad:\<close>; no path to it has allocated the pipe.\<close>

definition pipealloc_bad :: "nat option \<Rightarrow> nat option \<Rightarrow> 'a kfile_scheme
    \<Rightarrow> ((nat \<times> nat) option \<times> 'a kfile_scheme) kres" where
  "pipealloc_bad f0 f1 s =
     andThen (close_opt f0 s) (\<lambda>s. andThen (close_opt f1 s) (\<lambda>s. Inr (None, s)))"

definition pipealloc :: "'a kfile_scheme \<Rightarrow> ((nat \<times> nat) option \<times> 'a kfile_scheme) kres" where
  "pipealloc s =
     (case filealloc s of
        (None, s) \<Rightarrow> pipealloc_bad None None s
      | (Some f0, s) \<Rightarrow>
          (case filealloc s of
             (None, s) \<Rightarrow> pipealloc_bad (Some f0) None s
           | (Some f1, s) \<Rightarrow>
               (case kalloc s of (p, s) \<Rightarrow>
                  if p = 0 then pipealloc_bad (Some f0) (Some f1) s
                  else
                    let s = upd_pipe p (\<lambda>q. q\<lparr>readopen := True, writeopen := True,
                                             nwrite := 0, nread := 0\<rparr>) s;
                        s = upd_file f0 (\<lambda>f. f\<lparr>f_type := FD_PIPE, f_readable := True,
                                              f_writable := False, f_pipe := p\<rparr>) s;
                        s = upd_file f1 (\<lambda>f. f\<lparr>f_type := FD_PIPE, f_readable := False,
                                              f_writable := True, f_pipe := p\<rparr>) s
                    in Inr (Some (f0, f1), s))))"

end
