(* ===== verification/Process.thy ===== *)
theory Process
  imports File
begin

text \<open>
  The life of a process: the rest of \<^verbatim>\<open>proc.c\<close> and \<^verbatim>\<open>switchuvm\<close> of \<^verbatim>\<open>vm.c\<close>. A call that switches
  stacks is cut at the \<^verbatim>\<open>swtch\<close>: \<open>sched\<close> runs up to it and returns the interrupt flag it keeps on
  its stack, \<open>sched_back\<close> continues with it when the scheduler comes back; \<open>yield\<close> and \<open>sleep\<close> are
  cut the same way, and \<open>scheduler_run\<close> and \<open>scheduler_back\<close> are the two halves of the scheduler's
  turn on a slot. Here \<^verbatim>\<open>ptable.lock\<close> is held across the switch, so it is acquired and released
  explicitly.
\<close>

record kthr = kfile +
  tss_esp0 :: "nat \<Rightarrow> u32"
  forkret_first :: bool

definition switchuvm :: "nat option \<Rightarrow> 'a kthr_scheme \<Rightarrow> 'a kthr_scheme kres" where
  "switchuvm p s =
     (case p of
        None \<Rightarrow> Inl (Panic ''switchuvm: no process'')
      | Some i \<Rightarrow>
          if kstack (ptable s ! i) = 0 then Inl (Panic ''switchuvm: no kstack'')
          else if p_pgdir (ptable s ! i) = 0 then Inl (Panic ''switchuvm: no pgdir'')
          else
            andThen (pushcli s) (\<lambda>s.
            andThen (mycpu s) (\<lambda>c.
            let s = s\<lparr>tss_esp0 := (tss_esp0 s)(c := kstack (ptable s ! i) + KSTACKSIZE),
                      cr3 := V2P (p_pgdir (ptable s ! i))\<rparr>
            in popcli s)))"

text \<open>\<^verbatim>\<open>safestrcpy\<close> into an array held by value.\<close>

definition set_name :: "u8 list \<Rightarrow> u8 list \<Rightarrow> u8 list" where
  "set_name dst src = splice 0 (takeWhile (\<lambda>c. c \<noteq> 0) (take (length dst - 1) src) @ [0]) dst"

definition zero_tf :: trapframe where
  "zero_tf = \<lparr>t_edi = 0, t_esi = 0, t_ebp = 0, t_oesp = 0, t_ebx = 0, t_edx = 0, t_ecx = 0,
     t_eax = 0, t_gs = 0, t_fs = 0, t_es = 0, t_ds = 0, t_trapno = 0, t_err = 0, t_eip = 0,
     t_cs = 0, t_eflags = 0, t_esp = 0, t_ss = 0\<rparr>"

abbreviation (input) UCODE_SEL :: u16 where "UCODE_SEL \<equiv> 0x1B"
abbreviation (input) UDATA_SEL :: u16 where "UDATA_SEL \<equiv> 0x23"
abbreviation (input) FL_IF :: u32 where "FL_IF \<equiv> 0x200"

text \<open>The image of \<^verbatim>\<open>initcode\<close>, which the build links into the kernel, is at \<open>start\<close>.\<close>

definition userinit :: "u32 \<Rightarrow> u32 \<Rightarrow> 'a kthr_scheme \<Rightarrow> 'a kthr_scheme kres" where
  "userinit start len s =
     (case allocproc s of
        (None, s) \<Rightarrow> Inl Fault
      | (Some p, s) \<Rightarrow>
          andThen (setupkvm (s\<lparr>initproc := Some p\<rparr>)) (\<lambda>(d, s).
          let s = upd_proc p (\<lambda>q. q\<lparr>p_pgdir := d\<rparr>) s
          in if d = 0 then Inl (Panic ''userinit: out of memory?'')
             else
               andThen (inituvm d start len s) (\<lambda>s.
               let s = upd_proc p (\<lambda>q. q\<lparr>p_sz := PGSIZE,
                     tf := zero_tf\<lparr>t_cs := UCODE_SEL, t_ds := UDATA_SEL, t_es := UDATA_SEL,
                                   t_ss := UDATA_SEL, t_eflags := FL_IF, t_esp := PGSIZE, t_eip := 0\<rparr>,
                     p_name := set_name (p_name q) (map of_char ''initcode'')\<rparr>) s
               in andThen (namei [SLASH] s) (\<lambda>(ip, s).
                  Inr (upd_proc p (\<lambda>q. q\<lparr>cwd := ip, p_state := RUNNABLE\<rparr>) s)))))"

definition growproc :: "u32 \<Rightarrow> 'a kthr_scheme \<Rightarrow> (u32 \<times> 'a kthr_scheme) kres" where
  "growproc n s =
     andThen (curproc s) (\<lambda>c.
     let sz = p_sz (ptable s ! c);
         pgdir = p_pgdir (ptable s ! c);
         done = (\<lambda>sz s. andThen (switchuvm (Some c) (upd_proc c (\<lambda>q. q\<lparr>p_sz := sz\<rparr>) s)) (\<lambda>s. Inr (0, s)))
     in if sint n > 0 then
          andThen (allocuvm pgdir sz (sz + n) s) (\<lambda>(sz, s). if sz = 0 then Inr (-1, s) else done sz s)
        else if sint n < 0 then
          andThen (deallocuvm pgdir sz (sz + n) s) (\<lambda>(sz, s). if sz = 0 then Inr (-1, s) else done sz s)
        else done sz s)"

subsection \<open>fork and exit\<close>

text \<open>The descriptors \<open>fds\<close> of the parent, duplicated into slot \<open>np\<close>.\<close>

fun fork_files :: "nat \<Rightarrow> nat \<Rightarrow> nat list \<Rightarrow> 'a kthr_scheme \<Rightarrow> 'a kthr_scheme kres" where
  "fork_files c np [] s = Inr s"
| "fork_files c np (fd # fds) s =
     (case ofile (ptable s ! c) ! fd of
        None \<Rightarrow> fork_files c np fds s
      | Some f \<Rightarrow>
          andThen (filedup f s) (\<lambda>s.
          fork_files c np fds (upd_proc np (\<lambda>q. q\<lparr>ofile := (ofile q)[fd := Some f]\<rparr>) s)))"

definition fork :: "'a kthr_scheme \<Rightarrow> (u32 \<times> 'a kthr_scheme) kres" where
  "fork s =
     andThen (curproc s) (\<lambda>c.
     case allocproc s of
       (None, s) \<Rightarrow> Inr (-1, s)
     | (Some np, s) \<Rightarrow>
         andThen (copyuvm (p_pgdir (ptable s ! c)) (p_sz (ptable s ! c)) s) (\<lambda>(d, s).
         let s = upd_proc np (\<lambda>q. q\<lparr>p_pgdir := d\<rparr>) s
         in if d = 0 then
              andThen (kfree (kstack (ptable s ! np)) s) (\<lambda>s.
              Inr (-1, upd_proc np (\<lambda>q. q\<lparr>kstack := 0, p_state := UNUSED\<rparr>) s))
            else
              let cp = ptable s ! c;
                  s = upd_proc np (\<lambda>q. q\<lparr>p_sz := p_sz cp, parent := Some c,
                                        tf := (tf cp)\<lparr>t_eax := 0\<rparr>\<rparr>) s
              in andThen (fork_files c np [0..<NOFILE] s) (\<lambda>s.
                 case cwd (ptable s ! c) of
                   None \<Rightarrow> Inl Fault
                 | Some ip \<Rightarrow>
                     let (ip, s) = idup ip s;
                         s = upd_proc np (\<lambda>q. q\<lparr>cwd := Some ip,
                               p_name := set_name (p_name q) (p_name (ptable s ! c))\<rparr>) s;
                         pid = p_pid (ptable s ! np)
                     in Inr (pid, upd_proc np (\<lambda>q. q\<lparr>p_state := RUNNABLE\<rparr>) s))))"

definition sched :: "'a kthr_scheme \<Rightarrow> (bool \<times> 'a kthr_scheme) kres" where
  "sched s =
     andThen (curproc s) (\<lambda>p.
     andThen (holding PTABLE_LOCK s) (\<lambda>(h, s).
     if \<not> h then Inl (Panic ''sched ptable.lock'')
     else
       andThen (mycpu s) (\<lambda>c.
       if ncli (cpus s ! c) \<noteq> 1 then Inl (Panic ''sched locks'')
       else if p_state (ptable s ! p) = RUNNING then Inl (Panic ''sched running'')
       else if readeflags s then Inl (Panic ''sched interruptible'')
       else Inr (intena (cpus s ! c), s))))"

definition sched_back :: "bool \<Rightarrow> 'a kthr_scheme \<Rightarrow> 'a kthr_scheme kres" where
  "sched_back ena s =
     andThen (mycpu s) (\<lambda>c. Inr (s\<lparr>cpus := (cpus s)[c := (cpus s ! c)\<lparr>intena := ena\<rparr>]\<rparr>))"

fun exit_files :: "nat \<Rightarrow> nat list \<Rightarrow> 'a kthr_scheme \<Rightarrow> 'a kthr_scheme kres" where
  "exit_files c [] s = Inr s"
| "exit_files c (fd # fds) s =
     (case ofile (ptable s ! c) ! fd of
        None \<Rightarrow> exit_files c fds s
      | Some f \<Rightarrow>
          andThen (fileclose f s) (\<lambda>s.
          exit_files c fds (upd_proc c (\<lambda>q. q\<lparr>ofile := (ofile q)[fd := None]\<rparr>) s)))"

text \<open>Pass the children of \<open>c\<close> among the slots \<open>is\<close> to \<^verbatim>\<open>init\<close>.\<close>

fun reparent :: "nat \<Rightarrow> nat list \<Rightarrow> 'a kthr_scheme \<Rightarrow> 'a kthr_scheme" where
  "reparent c [] s = s"
| "reparent c (i # is) s =
     (if parent (ptable s ! i) = Some c then
        let s = upd_proc i (\<lambda>q. q\<lparr>parent := initproc s\<rparr>) s;
            s = (if p_state (ptable s ! i) = ZOMBIE then wakeup1 (ChProc (initproc s)) s else s)
        in reparent c is s
      else reparent c is s)"

text \<open>\<^verbatim>\<open>exit\<close> up to the switch from which it never returns.\<close>

definition exit :: "'a kthr_scheme \<Rightarrow> 'a kthr_scheme kres" where
  "exit s =
     andThen (curproc s) (\<lambda>c.
     if Some c = initproc s then Inl (Panic ''init exiting'')
     else
       andThen (exit_files c [0..<NOFILE] s) (\<lambda>s.
       andThen (begin_op_now s) (\<lambda>s.
       case cwd (ptable s ! c) of
         None \<Rightarrow> Inl Fault
       | Some ip \<Rightarrow>
           andThen (iput ip s) (\<lambda>s.
           andThen (end_op s) (\<lambda>s.
           andThen (acquire PTABLE_LOCK (upd_proc c (\<lambda>q. q\<lparr>cwd := None\<rparr>) s)) (\<lambda>s.
           let s = wakeup1 (ChProc (parent (ptable s ! c))) s;
               s = reparent c [0..<length (ptable s)] s;
               s = upd_proc c (\<lambda>q. q\<lparr>p_state := ZOMBIE, p_sz := 0\<rparr>) s
           in andThen (sched s) (\<lambda>(ena, s). Inr s)))))))"

subsection \<open>Scheduling\<close>

definition yield :: "'a kthr_scheme \<Rightarrow> (bool \<times> 'a kthr_scheme) kres" where
  "yield s =
     andThen (curproc s) (\<lambda>c.
     andThen (acquire PTABLE_LOCK s) (\<lambda>s.
     sched (upd_proc c (\<lambda>q. q\<lparr>p_state := RUNNABLE\<rparr>) s)))"

definition yield_back :: "bool \<Rightarrow> 'a kthr_scheme \<Rightarrow> 'a kthr_scheme kres" where
  "yield_back ena s = andThen (sched_back ena s) (release PTABLE_LOCK)"

text \<open>\<open>lk\<close> is the lock to release, if any.\<close>

definition sleep :: "chan \<Rightarrow> nat option \<Rightarrow> 'a kthr_scheme \<Rightarrow> (bool \<times> 'a kthr_scheme) kres" where
  "sleep ch lk s =
     (case cproc (cpus s ! this s) of
        None \<Rightarrow> Inl (Panic ''sleep'')
      | Some p \<Rightarrow>
          andThen
            (if lk \<noteq> Some PTABLE_LOCK then
               andThen (acquire PTABLE_LOCK s) (\<lambda>s.
               case lk of None \<Rightarrow> Inr s | Some l \<Rightarrow> release l s)
             else Inr s) (\<lambda>s.
          sched (upd_proc p (\<lambda>q. q\<lparr>p_chan := Some ch, p_state := SLEEPING\<rparr>) s)))"

definition sleep_back :: "nat \<Rightarrow> bool \<Rightarrow> nat option \<Rightarrow> 'a kthr_scheme \<Rightarrow> 'a kthr_scheme kres" where
  "sleep_back p ena lk s =
     andThen (sched_back ena s) (\<lambda>s.
     let s = upd_proc p (\<lambda>q. q\<lparr>p_chan := None\<rparr>) s
     in if lk \<noteq> Some PTABLE_LOCK then
          andThen (release PTABLE_LOCK s) (\<lambda>s.
          case lk of None \<Rightarrow> Inr s | Some l \<Rightarrow> acquire l s)
        else Inr s)"

definition forkret :: "'a kthr_scheme \<Rightarrow> 'a kthr_scheme kres" where
  "forkret s =
     andThen (release PTABLE_LOCK s) (\<lambda>s.
     if forkret_first s then
       andThen (iinit ROOTDEV (s\<lparr>forkret_first := False\<rparr>)) (initlog ROOTDEV)
     else Inr s)"

text \<open>The scheduler's turn on slot \<open>p\<close>, up to the switch; \<open>False\<close> when the slot is skipped.\<close>

definition scheduler_run :: "nat \<Rightarrow> nat \<Rightarrow> 'a kthr_scheme \<Rightarrow> (bool \<times> 'a kthr_scheme) kres" where
  "scheduler_run c p s =
     (if p_state (ptable s ! p) \<noteq> RUNNABLE then Inr (False, s)
      else
        andThen (switchuvm (Some p) (s\<lparr>cpus := (cpus s)[c := (cpus s ! c)\<lparr>cproc := Some p\<rparr>]\<rparr>)) (\<lambda>s.
        Inr (True, upd_proc p (\<lambda>q. q\<lparr>p_state := RUNNING\<rparr>) s)))"

definition scheduler_back :: "nat \<Rightarrow> 'a kthr_scheme \<Rightarrow> 'a kthr_scheme" where
  "scheduler_back c s =
     (let s = switchkvm s in s\<lparr>cpus := (cpus s)[c := (cpus s ! c)\<lparr>cproc := None\<rparr>]\<rparr>)"

text \<open>The next slot the scheduler's scan from slot \<open>from\<close> runs.\<close>

definition next_runnable :: "nat \<Rightarrow> 'a kthr_scheme \<Rightarrow> nat option" where
  "next_runnable from s =
     map_option (\<lambda>i. from + i) (find_index (\<lambda>p. p_state p = RUNNABLE) (drop from (ptable s)))"

end
