(* ===== verification/Exec.thy ===== *)
theory Exec
  imports Process
begin

text \<open>
  \<^verbatim>\<open>exec.c\<close>, and \<^verbatim>\<open>loaduvm\<close> of \<^verbatim>\<open>vm.c\<close>. The ELF and program headers are decoded from the bytes
  read. The argument strings, which lie in the old image, and the array \<^verbatim>\<open>ustack\<close> are passed by
  value, so \<^verbatim>\<open>copyout\<close> appears with its source as bytes. A step that takes \<^verbatim>\<open>goto bad\<close> returns
  \<open>None\<close>.
\<close>

record elfhdr =
  e_magic :: u32
  e_entry :: u32
  e_phoff :: u32
  e_phnum :: u16

record proghdr =
  ph_type :: u32
  ph_off :: u32
  ph_vaddr :: u32
  ph_filesz :: u32
  ph_memsz :: u32

abbreviation (input) ELF_MAGIC :: u32 where "ELF_MAGIC \<equiv> 0x464C457F"
abbreviation (input) ELF_PROG_LOAD :: u32 where "ELF_PROG_LOAD \<equiv> 1"
abbreviation (input) ELFHDR_SIZE :: u32 where "ELFHDR_SIZE \<equiv> 52"
abbreviation (input) PROGHDR_SIZE :: u32 where "PROGHDR_SIZE \<equiv> 32"

definition decode_elf :: "u8 list \<Rightarrow> elfhdr" where
  "decode_elf d = \<lparr>e_magic = get32 d 0, e_entry = get32 d 24, e_phoff = get32 d 28,
                   e_phnum = get16 d 44\<rparr>"

definition decode_ph :: "u8 list \<Rightarrow> proghdr" where
  "decode_ph d = \<lparr>ph_type = get32 d 0, ph_off = get32 d 4, ph_vaddr = get32 d 8,
                  ph_filesz = get32 d 16, ph_memsz = get32 d 20\<rparr>"

fun poke :: "u32 \<Rightarrow> u8 list \<Rightarrow> memory \<Rightarrow> memory" where
  "poke a [] m = m"
| "poke a (b # bs) m = poke (a + 1) bs (m(a := b))"

subsection \<open>Loading\<close>

fun loaduvm_loop :: "u32 \<Rightarrow> u32 \<Rightarrow> nat \<Rightarrow> u32 \<Rightarrow> u32 \<Rightarrow> u32 list \<Rightarrow> 'a kthr_scheme
    \<Rightarrow> (int \<times> 'a kthr_scheme) kres" where
  "loaduvm_loop pgdir addr ip offset sz [] s = Inr (0, s)"
| "loaduvm_loop pgdir addr ip offset sz (i # is) s =
     (let pte = fst (walkpgdir pgdir (addr + i) False s)
      in if pte = 0 then Inl (Panic ''loaduvm: address should exist'')
         else
           let pa = PTE_ADDR (load32 (mem s) pte);
               n = (if sz - i < PGSIZE then sz - i else PGSIZE)
           in andThen (readi ip (offset + i) n s) (\<lambda>(r, bs, s).
              let s = s\<lparr>mem := poke (P2V pa) bs (mem s)\<rparr>
              in if r \<noteq> n then Inr (-1, s) else loaduvm_loop pgdir addr ip offset sz is s))"

definition loaduvm :: "u32 \<Rightarrow> u32 \<Rightarrow> nat \<Rightarrow> u32 \<Rightarrow> u32 \<Rightarrow> 'a kthr_scheme
    \<Rightarrow> (int \<times> 'a kthr_scheme) kres" where
  "loaduvm pgdir addr ip offset sz s =
     (if addr mod PGSIZE \<noteq> 0 then Inl (Panic ''loaduvm: addr must be page aligned'')
      else loaduvm_loop pgdir addr ip offset sz (page_seq 0 sz) s)"

text \<open>The loop over the program headers, \<open>k\<close> of them left.\<close>

fun load_segments :: "nat \<Rightarrow> u32 \<Rightarrow> nat \<Rightarrow> u32 \<Rightarrow> u32 \<Rightarrow> 'a kthr_scheme
    \<Rightarrow> (u32 option \<times> 'a kthr_scheme) kres" where
  "load_segments 0 off ip pgdir sz s = Inr (Some sz, s)"
| "load_segments (Suc k) off ip pgdir sz s =
     andThen (readi ip off PROGHDR_SIZE s) (\<lambda>(r, d, s).
     let ph = decode_ph d
     in if r \<noteq> PROGHDR_SIZE then Inr (None, s)
        else if ph_type ph \<noteq> ELF_PROG_LOAD then load_segments k (off + PROGHDR_SIZE) ip pgdir sz s
        else if ph_memsz ph < ph_filesz ph then Inr (None, s)
        else if ph_vaddr ph + ph_memsz ph < ph_vaddr ph then Inr (None, s)
        else
          andThen (allocuvm pgdir sz (ph_vaddr ph + ph_memsz ph) s) (\<lambda>(sz, s).
          if sz = 0 then Inr (None, s)
          else if ph_vaddr ph mod PGSIZE \<noteq> 0 then Inr (None, s)
          else
            andThen (loaduvm pgdir (ph_vaddr ph) ip (ph_off ph) (ph_filesz ph) s) (\<lambda>(e, s).
            if e < 0 then Inr (None, s)
            else load_segments k (off + PROGHDR_SIZE) ip pgdir sz s)))"

subsection \<open>The new stack\<close>

text \<open>A chunk of \<^verbatim>\<open>copyout\<close> is never empty, since an address is less than a page past the start of its page;
  the \<open>max 1\<close> only makes that visible to the termination proof.\<close>

function copyout_bytes :: "u32 \<Rightarrow> u32 \<Rightarrow> u8 list \<Rightarrow> 'a kmem_scheme \<Rightarrow> (int \<times> 'a kmem_scheme) kres" where
  "copyout_bytes pgdir va bs s =
     (if bs = [] then Inr (0, s)
      else
        let va0 = PGROUNDDOWN va
        in andThen (uva2ka pgdir va0 s) (\<lambda>pa0.
           if pa0 = 0 then Inr (-1, s)
           else let n = max 1 (min (unat (PGSIZE - (va - va0))) (length bs))
                in copyout_bytes pgdir (va0 + PGSIZE) (drop n bs)
                     (s\<lparr>mem := poke (pa0 + (va - va0)) (take n bs) (mem s)\<rparr>)))"
  by pat_completeness auto
termination
  by (relation "measure (\<lambda>(pgdir, va, bs, s). length bs)") auto

declare copyout_bytes.simps [simp del]

fun push_args :: "u8 list list \<Rightarrow> u32 \<Rightarrow> u32 \<Rightarrow> u32 list \<Rightarrow> 'a kmem_scheme
    \<Rightarrow> ((u32 \<times> u32 list) option \<times> 'a kmem_scheme) kres" where
  "push_args [] pgdir sp ust s = Inr (Some (sp, ust), s)"
| "push_args (a # as) pgdir sp ust s =
     (if length ust \<ge> MAXARG then Inr (None, s)
      else
        let sp = and (sp - (word_of_nat (length a) + 1)) (NOT 3)
        in andThen (copyout_bytes pgdir sp (a @ [0]) s) (\<lambda>(e, s).
           if e < 0 then Inr (None, s) else push_args as pgdir sp (ust @ [sp]) s))"

text \<open>The words of \<^verbatim>\<open>ustack\<close> for the argument addresses \<open>us\<close> and stack pointer \<open>sp\<close>.\<close>

definition ustack :: "u32 \<Rightarrow> u32 list \<Rightarrow> u32 list" where
  "ustack sp us =
     (let argc = word_of_nat (length us)
      in [0xffffffff, argc, sp - (argc + 1) * 4] @ us @ [0])"

fun last_elem :: "u8 list \<Rightarrow> u8 list \<Rightarrow> u8 list" where
  "last_elem l [] = l"
| "last_elem l (c # cs) = last_elem (if c = SLASH then cs else l) cs"

text \<open>The code at \<^verbatim>\<open>bad:\<close>.\<close>

definition exec_bad :: "u32 \<Rightarrow> nat option \<Rightarrow> 'a kthr_scheme \<Rightarrow> (u32 \<times> 'a kthr_scheme) kres" where
  "exec_bad pgdir ip s =
     andThen (if pgdir \<noteq> 0 then freevm pgdir s else Inr s) (\<lambda>s.
     case ip of
       None \<Rightarrow> Inr (-1, s)
     | Some i \<Rightarrow> andThen (iunlockput i s) (\<lambda>s. andThen (end_op s) (\<lambda>s. Inr (-1, s))))"

text \<open>From the allocation of the stack on, with the program loaded up to \<open>sz\<close>.\<close>

definition exec_stack :: "u8 list \<Rightarrow> u8 list list \<Rightarrow> u32 \<Rightarrow> u32 \<Rightarrow> u32 \<Rightarrow> 'a kthr_scheme
    \<Rightarrow> (u32 \<times> 'a kthr_scheme) kres" where
  "exec_stack path argv entry pgdir sz s =
     (let sz = PGROUNDUP sz
      in andThen (allocuvm pgdir sz (sz + 2 * PGSIZE) s) (\<lambda>(sz, s).
         if sz = 0 then exec_bad pgdir None s
         else
           andThen (clearpteu pgdir (sz - 2 * PGSIZE) s) (\<lambda>s.
           andThen (push_args argv pgdir sz [] s) (\<lambda>(r, s).
           case r of
             None \<Rightarrow> exec_bad pgdir None s
           | Some (sp, us) \<Rightarrow>
               let ws = ustack sp us;
                   sp = sp - word_of_nat (length ws) * 4
               in andThen (copyout_bytes pgdir sp (concat (map bytes32 ws)) s) (\<lambda>(e, s).
                  if e < 0 then exec_bad pgdir None s
                  else
                    andThen (curproc s) (\<lambda>c.
                    let old = p_pgdir (ptable s ! c);
                        s = upd_proc c (\<lambda>q. q\<lparr>
                              p_name := set_name (p_name q) (last_elem path path),
                              p_pgdir := pgdir, p_sz := sz,
                              tf := (tf q)\<lparr>t_eip := entry, t_esp := sp\<rparr>\<rparr>) s
                    in andThen (switchuvm (Some c) s) (\<lambda>s.
                       andThen (freevm old s) (\<lambda>s. Inr (0, s))))))))) "

definition exec :: "u8 list \<Rightarrow> u8 list list \<Rightarrow> 'a kthr_scheme \<Rightarrow> (u32 \<times> 'a kthr_scheme) kres" where
  "exec path argv s =
     andThen (begin_op_now s) (\<lambda>s.
     andThen (namei path s) (\<lambda>(ip, s).
     case ip of
       None \<Rightarrow> andThen (end_op s) (\<lambda>s. Inr (-1, s))
     | Some ip \<Rightarrow>
         andThen (ilock ip s) (\<lambda>s.
         andThen (readi ip 0 ELFHDR_SIZE s) (\<lambda>(r, d, s).
         let elf = decode_elf d
         in if r \<noteq> ELFHDR_SIZE then exec_bad 0 (Some ip) s
            else if e_magic elf \<noteq> ELF_MAGIC then exec_bad 0 (Some ip) s
            else
              andThen (setupkvm s) (\<lambda>(pgdir, s).
              if pgdir = 0 then exec_bad 0 (Some ip) s
              else
                andThen (load_segments (unat (e_phnum elf)) (e_phoff elf) ip pgdir 0 s) (\<lambda>(r, s).
                case r of
                  None \<Rightarrow> exec_bad pgdir (Some ip) s
                | Some sz \<Rightarrow>
                    andThen (iunlockput ip s) (\<lambda>s.
                    andThen (end_op s) (\<lambda>s.
                    exec_stack path argv (e_entry elf) pgdir sz s))))))))"

end
