(* ===== verification/Rtc.thy ===== *)
theory Rtc
  imports Xv6_Prelude
begin

text \<open>
  The real-time clock: \<^verbatim>\<open>fill_rtcdate\<close> and \<^verbatim>\<open>cmostime\<close> of \<^verbatim>\<open>lapic.c\<close>. What the CMOS registers hold
  each time round the reading loop is an input: the six time registers, status register A, and the
  six registers again (\<open>None\<close> of \<open>cmos_loop\<close>: the inputs end before two readings agree).
\<close>

record rtcdate =
  second :: u32
  minute :: u32
  hour :: u32
  day :: u32
  month :: u32
  year :: u32

record cmos_regs =
  r_secs :: u8
  r_mins :: u8
  r_hours :: u8
  r_day :: u8
  r_month :: u8
  r_year :: u8

type_synonym cmos_pass = "cmos_regs \<times> u8 \<times> cmos_regs"

definition fill_rtcdate :: "cmos_regs \<Rightarrow> rtcdate" where
  "fill_rtcdate r = \<lparr>second = ucast (r_secs r), minute = ucast (r_mins r), hour = ucast (r_hours r),
     day = ucast (r_day r), month = ucast (r_month r), year = ucast (r_year r)\<rparr>"

abbreviation (input) CMOS_UIP :: u8 where "CMOS_UIP \<equiv> 0x80"

fun cmos_loop :: "cmos_pass list \<Rightarrow> (rtcdate \<times> cmos_pass list) option" where
  "cmos_loop [] = None"
| "cmos_loop ((a, st, b) # ps) =
     (let t1 = fill_rtcdate a; t2 = fill_rtcdate b
      in if and st CMOS_UIP \<noteq> 0 then cmos_loop ps
         else if t1 = t2 then Some (t1, ps) else cmos_loop ps)"

definition CONV :: "u32 \<Rightarrow> u32" where
  "CONV x = (drop_bit 4 x) * 10 + and x 0xf"

definition conv_date :: "rtcdate \<Rightarrow> rtcdate" where
  "conv_date t = \<lparr>second = CONV (second t), minute = CONV (minute t), hour = CONV (hour t),
     day = CONV (day t), month = CONV (month t), year = CONV (year t)\<rparr>"

definition cmostime :: "u8 \<Rightarrow> cmos_pass list \<Rightarrow> (rtcdate \<times> cmos_pass list) option" where
  "cmostime statb ps =
     map_option (\<lambda>(t, ps).
       let t = (if and statb 4 = 0 then conv_date t else t)
       in (t\<lparr>year := year t + 2000\<rparr>, ps)) (cmos_loop ps)"

subsection \<open>Decimal readings\<close>

text \<open>The BCD code of a two-digit number, as the clock keeps it.\<close>

definition bcd :: "nat \<Rightarrow> u8" where
  "bcd n = word_of_nat (16 * (n div 10) + n mod 10)"

lemma CONV_alt: "CONV x = (x div 16) * 10 + x mod 16"
proof -
  have "drop_bit 4 x = x div 16" using drop_bit_eq_div [of 4 x] by simp
  moreover have "and x 0xf = x mod 16"
    using take_bit_eq_mask [of 4 x] take_bit_eq_mod [of 4 x] by (simp add: mask_eq_exp_minus_1)
  ultimately show ?thesis by (simp add: CONV_def)
qed

lemma CONV_byte:
  assumes "v < 256"
  shows "CONV (ucast (word_of_nat v :: u8)) = word_of_nat (v div 16 * 10 + v mod 16)"
proof -
  have u: "unat (ucast (word_of_nat v :: u8) :: u32) = v"
    using assms by (simp add: unsigned_ucast_eq unsigned_of_nat take_bit_eq_mod)
  then have "ucast (word_of_nat v :: u8) = (word_of_nat v :: u32)"
    using assms by (simp add: word_unat_eq_iff unsigned_of_nat take_bit_eq_mod)
  moreover have "(word_of_nat v :: u32) div 16 = word_of_nat (v div 16)"
    "(word_of_nat v :: u32) mod 16 = word_of_nat (v mod 16)"
    using assms by (simp_all add: word_unat_eq_iff unat_div unat_mod unsigned_of_nat take_bit_eq_mod)
  ultimately show ?thesis by (simp add: CONV_alt)
qed

lemma CONV_bcd: "n < 100 \<Longrightarrow> CONV (ucast (bcd n)) = word_of_nat n"
proof -
  assume n: "n < 100"
  define v where "v = 16 * (n div 10) + n mod 10"
  have v: "v < 256" "v div 16 * 10 + v mod 16 = n" using n by (auto simp: v_def div_add1_eq)
  show ?thesis using CONV_byte [OF v(1)] v(2) by (simp add: bcd_def v_def)
qed

end
