(* ===== verification/Sysargs.thy ===== *)
theory Sysargs
  imports Exec Rtc
begin

text \<open>
  The argument fetchers of \<^verbatim>\<open>syscall.c\<close>. \<open>None\<close> is the result -1. User memory is read through the
  page table that is loaded, as the kernel does; a string is its bytes up to the NUL.
\<close>

record kdev = kthr +
  rtc_statb :: u8
  rtc_passes :: "cmos_pass list"

definition fetchint :: "u32 \<Rightarrow> 'a kproc_scheme \<Rightarrow> u32 option kres" where
  "fetchint addr s =
     andThen (curproc s) (\<lambda>c.
     let sz = p_sz (ptable s ! c)
     in if addr \<ge> sz \<or> addr + 4 > sz then Inr None
        else andThen (vload32 addr s) (\<lambda>v. Inr (Some v)))"

text \<open>The loop over the \<open>k\<close> bytes up to the end of the image.\<close>

fun fetchstr_loop :: "nat \<Rightarrow> u32 \<Rightarrow> 'a kproc_scheme \<Rightarrow> u8 list option kres" where
  "fetchstr_loop 0 a s = Inr None"
| "fetchstr_loop (Suc k) a s =
     andThen (vload8 a s) (\<lambda>b.
     if b = 0 then Inr (Some [])
     else andThen (fetchstr_loop k (a + 1) s) (\<lambda>r. Inr (map_option ((#) b) r)))"

definition fetchstr :: "u32 \<Rightarrow> 'a kproc_scheme \<Rightarrow> u8 list option kres" where
  "fetchstr addr s =
     andThen (curproc s) (\<lambda>c.
     let sz = p_sz (ptable s ! c)
     in if addr \<ge> sz then Inr None else fetchstr_loop (unat sz - unat addr) addr s)"

definition argint :: "u32 \<Rightarrow> 'a kproc_scheme \<Rightarrow> u32 option kres" where
  "argint n s =
     andThen (curproc s) (\<lambda>c. fetchint (t_esp (tf (ptable s ! c)) + 4 + 4 * n) s)"

definition argptr :: "u32 \<Rightarrow> u32 \<Rightarrow> 'a kproc_scheme \<Rightarrow> u32 option kres" where
  "argptr n len s =
     andThen (curproc s) (\<lambda>c.
     andThen (argint n s) (\<lambda>r.
     case r of
       None \<Rightarrow> Inr None
     | Some i \<Rightarrow>
         let sz = p_sz (ptable s ! c)
         in if sint len < 0 \<or> i \<ge> sz \<or> i + len > sz then Inr None else Inr (Some i)))"

definition argstr :: "u32 \<Rightarrow> 'a kproc_scheme \<Rightarrow> u8 list option kres" where
  "argstr n s =
     andThen (argint n s) (\<lambda>r. case r of None \<Rightarrow> Inr None | Some addr \<Rightarrow> fetchstr addr s)"

text \<open>Continue with an argument, or return \<open>fail\<close>.\<close>

definition with_arg :: "'b option kres \<Rightarrow> 'c kres \<Rightarrow> ('b \<Rightarrow> 'c kres) \<Rightarrow> 'c kres" where
  "with_arg m fail k = andThen m (\<lambda>r. case r of None \<Rightarrow> fail | Some x \<Rightarrow> k x)"

end
