(* ===== verification/Sysfile.thy ===== *)
theory Sysfile
  imports Sysargs
begin

text \<open>
  The file-system system calls of \<^verbatim>\<open>sysfile.c\<close>. Each returns its result, the value left in
  \<^verbatim>\<open>%eax\<close>. A local that the code reads without having set it is a parameter of the definition
  (\<open>junk\<close> of \<open>sys_dup2\<close>).
\<close>

abbreviation (input) FAIL :: u32 where "FAIL \<equiv> -1"
abbreviation (input) O_RDONLY :: u32 where "O_RDONLY \<equiv> 0"
abbreviation (input) O_WRONLY :: u32 where "O_WRONLY \<equiv> 1"
abbreviation (input) O_RDWR :: u32 where "O_RDWR \<equiv> 2"
abbreviation (input) O_CREATE :: u32 where "O_CREATE \<equiv> 0x200"

type_synonym 's syscall = "'s \<Rightarrow> (u32 \<times> 's) kres"

text \<open>User memory as the source of a write.\<close>

definition ubytes :: "u32 \<Rightarrow> 'a kvm_scheme source" where
  "ubytes a off n s = vload (a + word_of_nat off) n s"

definition argfd :: "u32 \<Rightarrow> 'a kproc_scheme \<Rightarrow> (nat \<times> nat) option kres" where
  "argfd n s =
     with_arg (argint n s) (Inr None) (\<lambda>fd.
     andThen (curproc s) (\<lambda>c.
     if sint fd < 0 \<or> sint fd \<ge> int NOFILE then Inr None
     else case ofile (ptable s ! c) ! nat (sint fd) of
            None \<Rightarrow> Inr None
          | Some f \<Rightarrow> Inr (Some (nat (sint fd), f))))"

definition fdalloc :: "nat \<Rightarrow> 'a kproc_scheme \<Rightarrow> (nat option \<times> 'a kproc_scheme) kres" where
  "fdalloc f s =
     andThen (curproc s) (\<lambda>c.
     case find_index (\<lambda>o'. o' = None) (ofile (ptable s ! c)) of
       None \<Rightarrow> Inr (None, s)
     | Some fd \<Rightarrow> Inr (Some fd, upd_proc c (\<lambda>q. q\<lparr>ofile := (ofile q)[fd := Some f]\<rparr>) s))"

definition sys_dup :: "'a kdev_scheme syscall" where
  "sys_dup s =
     with_arg (argfd 0 s) (Inr (FAIL, s)) (\<lambda>(_, f).
     andThen (fdalloc f s) (\<lambda>(r, s).
     case r of
       None \<Rightarrow> Inr (FAIL, s)
     | Some fd \<Rightarrow> andThen (filedup f s) (\<lambda>s. Inr (word_of_nat fd, s))))"

text \<open>
  The store \<^verbatim>\<open>ofile[newfd] = ...\<close> at any index, in the layout of \<^verbatim>\<open>struct proc\<close>: outside the array it
  overwrites another field (\<open>Fault\<close>).
\<close>

definition set_ofile :: "nat \<Rightarrow> int \<Rightarrow> nat option \<Rightarrow> 'a kproc_scheme \<Rightarrow> 'a kproc_scheme kres" where
  "set_ofile c fd f s =
     (if 0 \<le> fd \<and> fd < int NOFILE
      then Inr (upd_proc c (\<lambda>q. q\<lparr>ofile := (ofile q)[nat fd := f]\<rparr>) s) else Inl Fault)"

definition sys_dup2 :: "u32 \<Rightarrow> 'a kdev_scheme syscall" where
  "sys_dup2 junk s =
     with_arg (argfd 0 s) (Inr (FAIL, s)) (\<lambda>(oldfd, oldfile).
     andThen
       (andThen (argfd 1 s) (\<lambda>r. case r of
          Some (newfd, newfile) \<Rightarrow> andThen (fileclose newfile s) (\<lambda>s. Inr (word_of_nat newfd, s))
        | None \<Rightarrow> Inr (junk, s))) (\<lambda>(newfd, s).
     andThen (filedup oldfile s) (\<lambda>s.
     andThen (curproc s) (\<lambda>c.
     andThen (set_ofile c (sint newfd) (ofile (ptable s ! c) ! oldfd) s) (\<lambda>s.
     Inr (newfd, s))))))"

definition sys_read :: "'a kdev_scheme syscall" where
  "sys_read s =
     with_arg (argfd 0 s) (Inr (FAIL, s)) (\<lambda>(_, f).
     with_arg (argint 2 s) (Inr (FAIL, s)) (\<lambda>n.
     with_arg (argptr 1 n s) (Inr (FAIL, s)) (\<lambda>p.
     andThen (fileread f n s) (\<lambda>(r, bs, s).
     andThen (vstore p bs s) (\<lambda>s. Inr (r, s))))))"

definition sys_write :: "'a kdev_scheme syscall" where
  "sys_write s =
     with_arg (argfd 0 s) (Inr (FAIL, s)) (\<lambda>(_, f).
     with_arg (argint 2 s) (Inr (FAIL, s)) (\<lambda>n.
     with_arg (argptr 1 n s) (Inr (FAIL, s)) (\<lambda>p.
     filewrite f (ubytes p) n s)))"

definition sys_close :: "'a kdev_scheme syscall" where
  "sys_close s =
     with_arg (argfd 0 s) (Inr (FAIL, s)) (\<lambda>(fd, f).
     andThen (curproc s) (\<lambda>c.
     andThen (fileclose f (upd_proc c (\<lambda>q. q\<lparr>ofile := (ofile q)[fd := None]\<rparr>) s)) (\<lambda>s.
     Inr (0, s))))"

text \<open>The stores of \<^verbatim>\<open>stati\<close> into a user \<^verbatim>\<open>struct stat\<close> (fields at 0, 4, 8, 12 and 16).\<close>

definition put_stat :: "u32 \<Rightarrow> stat \<Rightarrow> 'a kvm_scheme \<Rightarrow> 'a kvm_scheme kres" where
  "put_stat a st s =
     andThen (vstore32 (a + 4) (st_dev st) s) (\<lambda>s.
     andThen (vstore32 (a + 8) (st_ino st) s) (\<lambda>s.
     andThen (vstore a (bytes16 (st_type st)) s) (\<lambda>s.
     andThen (vstore (a + 12) (bytes16 (st_nlink st)) s) (\<lambda>s.
     vstore32 (a + 16) (st_size st) s))))"

definition sys_fstat :: "'a kdev_scheme syscall" where
  "sys_fstat s =
     with_arg (argfd 0 s) (Inr (FAIL, s)) (\<lambda>(_, f).
     with_arg (argptr 1 20 s) (Inr (FAIL, s)) (\<lambda>st.
     andThen (filestat f s) (\<lambda>(r, s).
     case r of
       None \<Rightarrow> Inr (FAIL, s)
     | Some x \<Rightarrow> andThen (put_stat st x s) (\<lambda>s. Inr (0, s)))))"

text \<open>End the operation and return.\<close>

definition end_ret :: "u32 \<Rightarrow> 'a kdev_scheme syscall" where
  "end_ret r s = andThen (end_op s) (\<lambda>s. Inr (r, s))"

definition add_nlink :: "nat \<Rightarrow> u16 \<Rightarrow> 'a kfs_scheme \<Rightarrow> 'a kfs_scheme kres" where
  "add_nlink ip d s = iupdate ip (upd_inode ip (\<lambda>i. i\<lparr>i_nlink := i_nlink i + d\<rparr>) s)"

text \<open>The code at \<^verbatim>\<open>bad:\<close> of \<^verbatim>\<open>sys_link\<close>.\<close>

definition link_bad :: "nat \<Rightarrow> 'a kdev_scheme syscall" where
  "link_bad ip s =
     andThen (ilock ip s) (\<lambda>s.
     andThen (add_nlink ip (-1) s) (\<lambda>s.
     andThen (iunlockput ip s) (end_ret FAIL)))"

definition sys_link :: "'a kdev_scheme syscall" where
  "sys_link s =
     with_arg (argstr 0 s) (Inr (FAIL, s)) (\<lambda>old.
     with_arg (argstr 1 s) (Inr (FAIL, s)) (\<lambda>new.
     andThen (begin_op_now s) (\<lambda>s.
     andThen (namei old s) (\<lambda>(r, s).
     case r of
       None \<Rightarrow> end_ret FAIL s
     | Some ip \<Rightarrow>
         andThen (ilock ip s) (\<lambda>s.
         if i_type (icache s ! ip) = T_DIR then andThen (iunlockput ip s) (end_ret FAIL)
         else
           andThen (add_nlink ip 1 s) (\<lambda>s.
           andThen (iunlock ip s) (\<lambda>s.
           andThen (nameiparent new s) (\<lambda>(r, s).
           case r of
             None \<Rightarrow> link_bad ip s
           | Some (dp, name) \<Rightarrow>
               andThen (ilock dp s) (\<lambda>s.
               andThen
                 (if i_dev (icache s ! dp) \<noteq> i_dev (icache s ! ip) then Inr (-1, s)
                  else dirlink dp name (i_inum (icache s ! ip)) s) (\<lambda>(e, s).
               andThen (iunlockput dp s) (\<lambda>s.
               if sint e < 0 then link_bad ip s
               else andThen (iput ip s) (end_ret 0))))))))))))"

fun isdirempty_scan :: "nat \<Rightarrow> u32 list \<Rightarrow> 'a kdev_scheme \<Rightarrow> (bool \<times> 'a kdev_scheme) kres" where
  "isdirempty_scan dp [] s = Inr (True, s)"
| "isdirempty_scan dp (off # offs) s =
     andThen (read_dirent ''isdirempty: readi'' dp off s) (\<lambda>(de, s).
     if de_inum de \<noteq> 0 then Inr (False, s) else isdirempty_scan dp offs s)"

definition isdirempty :: "nat \<Rightarrow> 'a kdev_scheme \<Rightarrow> (bool \<times> 'a kdev_scheme) kres" where
  "isdirempty dp s = isdirempty_scan dp (drop 2 (dir_offs (i_size (icache s ! dp)))) s"

definition unlink_bad :: "nat \<Rightarrow> 'a kdev_scheme syscall" where
  "unlink_bad dp s = andThen (iunlockput dp s) (end_ret FAIL)"

text \<open>\<^verbatim>\<open>sys_unlink\<close> from the point where the entry's inode \<open>ip\<close>, found at \<open>off\<close>, is locked.\<close>

definition unlink_entry :: "nat \<Rightarrow> nat \<Rightarrow> u32 \<Rightarrow> 'a kdev_scheme syscall" where
  "unlink_entry dp ip off s =
     (if sint (i_nlink (icache s ! ip)) < 1 then Inl (Panic ''unlink: nlink < 1'')
      else
        andThen
          (if i_type (icache s ! ip) = T_DIR then isdirempty ip s else Inr (True, s)) (\<lambda>(ok, s).
        if \<not> ok then andThen (iunlockput ip s) (unlink_bad dp)
        else
          andThen (writei dp (kbytes (replicate DIRENT_SIZE 0)) off 16 s) (\<lambda>(r, s).
          if r \<noteq> 16 then Inl (Panic ''unlink: writei'')
          else
            andThen (if i_type (icache s ! ip) = T_DIR then add_nlink dp (-1) s else Inr s) (\<lambda>s.
            andThen (iunlockput dp s) (\<lambda>s.
            andThen (add_nlink ip (-1) s) (\<lambda>s.
            andThen (iunlockput ip s) (end_ret 0)))))))"

definition sys_unlink :: "'a kdev_scheme syscall" where
  "sys_unlink s =
     with_arg (argstr 0 s) (Inr (FAIL, s)) (\<lambda>path.
     andThen (begin_op_now s) (\<lambda>s.
     andThen (nameiparent path s) (\<lambda>(r, s).
     case r of
       None \<Rightarrow> end_ret FAIL s
     | Some (dp, name) \<Rightarrow>
         andThen (ilock dp s) (\<lambda>s.
         if namecmp name [46] = 0 \<or> namecmp name [46, 46] = 0 then unlink_bad dp s
         else
           andThen (dirlookup dp name s) (\<lambda>(r, s).
           case r of
             None \<Rightarrow> unlink_bad dp s
           | Some (ip, off) \<Rightarrow> andThen (ilock ip s) (unlink_entry dp ip off))))))"

text \<open>\<^verbatim>\<open>dirlink\<close> that must succeed.\<close>

definition link_or_panic :: "string \<Rightarrow> nat \<Rightarrow> u8 list \<Rightarrow> u32 \<Rightarrow> 'a kdev_scheme \<Rightarrow> 'a kdev_scheme kres" where
  "link_or_panic msg dp name inum s =
     andThen (dirlink dp name inum s) (\<lambda>(e, s). if sint e < 0 then Inl (Panic msg) else Inr s)"

definition create :: "u8 list \<Rightarrow> u16 \<Rightarrow> u16 \<Rightarrow> u16 \<Rightarrow> 'a kdev_scheme \<Rightarrow> (nat option \<times> 'a kdev_scheme) kres" where
  "create path ty maj min' s =
     andThen (nameiparent path s) (\<lambda>(r, s).
     case r of
       None \<Rightarrow> Inr (None, s)
     | Some (dp, name) \<Rightarrow>
         andThen (ilock dp s) (\<lambda>s.
         andThen (dirlookup dp name s) (\<lambda>(r, s).
         case r of
           Some (ip, _) \<Rightarrow>
             andThen (iunlockput dp s) (\<lambda>s.
             andThen (ilock ip s) (\<lambda>s.
             if ty = T_FILE \<and> i_type (icache s ! ip) = T_FILE then Inr (Some ip, s)
             else andThen (iunlockput ip s) (\<lambda>s. Inr (None, s))))
         | None \<Rightarrow>
             andThen (ialloc (i_dev (icache s ! dp)) ty s) (\<lambda>(ip, s).
             andThen (ilock ip s) (\<lambda>s.
             andThen (iupdate ip (upd_inode ip (\<lambda>i. i\<lparr>i_major := maj, i_minor := min', i_nlink := 1\<rparr>) s)) (\<lambda>s.
             andThen
               (if ty = T_DIR then
                  andThen (add_nlink dp 1 s) (\<lambda>s.
                  andThen (link_or_panic ''create dots'' ip [46] (i_inum (icache s ! ip)) s) (\<lambda>s.
                  link_or_panic ''create dots'' ip [46, 46] (i_inum (icache s ! dp)) s))
                else Inr s) (\<lambda>s.
             andThen (link_or_panic ''create: dirlink'' dp name (i_inum (icache s ! ip)) s) (\<lambda>s.
             andThen (iunlockput dp s) (\<lambda>s. Inr (Some ip, s)))))))))) "

text \<open>\<^verbatim>\<open>sys_open\<close> from the point where \<open>ip\<close> is found and locked.\<close>

definition open_inode :: "nat \<Rightarrow> u32 \<Rightarrow> 'a kdev_scheme syscall" where
  "open_inode ip omode s =
     (let fail = (\<lambda>s. andThen (iunlockput ip s) (end_ret FAIL))
      in case filealloc s of
           (None, s) \<Rightarrow> fail s
         | (Some f, s) \<Rightarrow>
             andThen (fdalloc f s) (\<lambda>(r, s).
             case r of
               None \<Rightarrow> andThen (fileclose f s) fail
             | Some fd \<Rightarrow>
                 andThen (iunlock ip s) (\<lambda>s.
                 andThen (end_op s) (\<lambda>s.
                 Inr (word_of_nat fd, upd_file f (\<lambda>g. g\<lparr>f_type := FD_INODE, f_ip := Some ip,
                   f_off := 0, f_readable := (and omode O_WRONLY = 0),
                   f_writable := (and omode O_WRONLY \<noteq> 0 \<or> and omode O_RDWR \<noteq> 0)\<rparr>) s)))))"

definition sys_open :: "'a kdev_scheme syscall" where
  "sys_open s =
     with_arg (argstr 0 s) (Inr (FAIL, s)) (\<lambda>path.
     with_arg (argint 1 s) (Inr (FAIL, s)) (\<lambda>omode.
     andThen (begin_op_now s) (\<lambda>s.
     if and omode O_CREATE \<noteq> 0 then
       andThen (create path T_FILE 0 0 s) (\<lambda>(r, s).
       case r of None \<Rightarrow> end_ret FAIL s | Some ip \<Rightarrow> open_inode ip omode s)
     else
       andThen (namei path s) (\<lambda>(r, s).
       case r of
         None \<Rightarrow> end_ret FAIL s
       | Some ip \<Rightarrow>
           andThen (ilock ip s) (\<lambda>s.
           if i_type (icache s ! ip) = T_DIR \<and> omode \<noteq> O_RDONLY
           then andThen (iunlockput ip s) (end_ret FAIL)
           else open_inode ip omode s)))))"

text \<open>What \<^verbatim>\<open>sys_mkdir\<close> and \<^verbatim>\<open>sys_mknod\<close> do with the result of \<^verbatim>\<open>create\<close>.\<close>

definition created :: "nat option \<Rightarrow> 'a kdev_scheme syscall" where
  "created r s = (case r of None \<Rightarrow> end_ret FAIL s | Some ip \<Rightarrow> andThen (iunlockput ip s) (end_ret 0))"

definition sys_mkdir :: "'a kdev_scheme syscall" where
  "sys_mkdir s =
     andThen (begin_op_now s) (\<lambda>s.
     with_arg (argstr 0 s) (end_ret FAIL s) (\<lambda>path.
     andThen (create path T_DIR 0 0 s) (\<lambda>(r, s). created r s)))"

definition sys_mknod :: "'a kdev_scheme syscall" where
  "sys_mknod s =
     andThen (begin_op_now s) (\<lambda>s.
     with_arg (argstr 0 s) (end_ret FAIL s) (\<lambda>path.
     with_arg (argint 1 s) (end_ret FAIL s) (\<lambda>maj.
     with_arg (argint 2 s) (end_ret FAIL s) (\<lambda>min'.
     andThen (create path T_DEV (ucast maj) (ucast min') s) (\<lambda>(r, s). created r s)))))"

definition sys_chdir :: "'a kdev_scheme syscall" where
  "sys_chdir s =
     andThen (curproc s) (\<lambda>c.
     andThen (begin_op_now s) (\<lambda>s.
     with_arg (argstr 0 s) (end_ret FAIL s) (\<lambda>path.
     andThen (namei path s) (\<lambda>(r, s).
     case r of
       None \<Rightarrow> end_ret FAIL s
     | Some ip \<Rightarrow>
         andThen (ilock ip s) (\<lambda>s.
         if i_type (icache s ! ip) \<noteq> T_DIR then andThen (iunlockput ip s) (end_ret FAIL)
         else
           andThen (iunlock ip s) (\<lambda>s.
           case cwd (ptable s ! c) of
             None \<Rightarrow> Inl Fault
           | Some old \<Rightarrow>
               andThen (iput old s) (\<lambda>s.
               andThen (end_op s) (\<lambda>s.
               Inr (0, upd_proc c (\<lambda>q. q\<lparr>cwd := Some ip\<rparr>) s)))))))))"

text \<open>The loop of \<^verbatim>\<open>sys_exec\<close> with room for \<open>k\<close> more entries of \<^verbatim>\<open>argv\<close>.\<close>

fun fetch_argv :: "nat \<Rightarrow> u32 \<Rightarrow> 'a kproc_scheme \<Rightarrow> u8 list list option kres" where
  "fetch_argv 0 a s = Inr None"
| "fetch_argv (Suc k) a s =
     with_arg (fetchint a s) (Inr None) (\<lambda>uarg.
     if uarg = 0 then Inr (Some [])
     else with_arg (fetchstr uarg s) (Inr None) (\<lambda>str.
          andThen (fetch_argv k (a + 4) s) (\<lambda>r. Inr (map_option ((#) str) r))))"

definition sys_exec :: "'a kdev_scheme syscall" where
  "sys_exec s =
     with_arg (argstr 0 s) (Inr (FAIL, s)) (\<lambda>path.
     with_arg (argint 1 s) (Inr (FAIL, s)) (\<lambda>uargv.
     with_arg (fetch_argv MAXARG uargv s) (Inr (FAIL, s)) (\<lambda>argv.
     exec path argv s)))"

definition sys_pipe :: "'a kdev_scheme syscall" where
  "sys_pipe s =
     with_arg (argptr 0 8 s) (Inr (FAIL, s)) (\<lambda>fd.
     andThen (pipealloc s) (\<lambda>(r, s).
     case r of
       None \<Rightarrow> Inr (FAIL, s)
     | Some (rf, wfile) \<Rightarrow>
         let fail = (\<lambda>s. andThen (fileclose rf s) (\<lambda>s. andThen (fileclose wfile s) (\<lambda>s. Inr (FAIL, s))))
         in andThen (fdalloc rf s) (\<lambda>(r0, s).
            case r0 of
              None \<Rightarrow> fail s
            | Some fd0 \<Rightarrow>
                andThen (fdalloc wfile s) (\<lambda>(r1, s).
                case r1 of
                  None \<Rightarrow> andThen (curproc s) (\<lambda>c.
                    fail (upd_proc c (\<lambda>q. q\<lparr>ofile := (ofile q)[fd0 := None]\<rparr>) s))
                | Some fd1 \<Rightarrow>
                    andThen (vstore32 fd (word_of_nat fd0) s) (\<lambda>s.
                    andThen (vstore32 (fd + 4) (word_of_nat fd1) s) (\<lambda>s. Inr (0, s)))))))"

end
