(* ===== verification/Syscall.thy ===== *)
theory Syscall
  imports Sysfile
begin

text \<open>
  The process system calls of \<^verbatim>\<open>sysproc.c\<close>, the dispatcher \<^verbatim>\<open>syscall\<close> of \<^verbatim>\<open>syscall.c\<close> and \<^verbatim>\<open>trap\<close> of
  \<^verbatim>\<open>trap.c\<close>. A system call ends in one of three ways: it returns a value, it is asleep in the kernel
  (and will run again when it is woken), or its process has exited.
\<close>

datatype sysres = SRet u32 | SSleep chan | SExit

type_synonym 's ksyscall = "'s \<Rightarrow> (sysres \<times> 's) kres"

definition returns :: "('a kdev_scheme \<Rightarrow> (u32 \<times> 'a kdev_scheme) kres) \<Rightarrow> 'a kdev_scheme ksyscall" where
  "returns f s = andThen (f s) (\<lambda>(r, s). Inr (SRet r, s))"

definition outcomes :: "('a kdev_scheme \<Rightarrow> (u32 outcome \<times> 'a kdev_scheme) kres) \<Rightarrow> 'a kdev_scheme ksyscall" where
  "outcomes f s =
     andThen (f s) (\<lambda>(r, s). Inr (case r of Ret x \<Rightarrow> SRet x | SleepOn ch \<Rightarrow> SSleep ch, s))"

subsection \<open>sysproc.c\<close>

definition sys_fork :: "'a kdev_scheme ksyscall" where
  "sys_fork = returns fork"

definition sys_exit :: "'a kdev_scheme ksyscall" where
  "sys_exit s = andThen (exit s) (\<lambda>s. Inr (SExit, s))"

definition sys_wait :: "'a kdev_scheme ksyscall" where
  "sys_wait = outcomes wait"

definition sys_kill :: "'a kdev_scheme ksyscall" where
  "sys_kill = returns (\<lambda>s. with_arg (argint 0 s) (Inr (FAIL, s)) (\<lambda>pid. Inr (kill pid s)))"

definition sys_getpid :: "'a kdev_scheme ksyscall" where
  "sys_getpid = returns (\<lambda>s. andThen (curproc s) (\<lambda>c. Inr (p_pid (ptable s ! c), s)))"

definition sys_sbrk :: "'a kdev_scheme ksyscall" where
  "sys_sbrk = returns (\<lambda>s.
     with_arg (argint 0 s) (Inr (FAIL, s)) (\<lambda>n.
     andThen (curproc s) (\<lambda>c.
     let addr = p_sz (ptable s ! c)
     in andThen (growproc n s) (\<lambda>(r, s).
        Inr (if sint r < 0 then FAIL else addr, s)))))"

text \<open>The loop of \<^verbatim>\<open>sys_sleep\<close>, entered or continued with the local \<open>ticks0\<close>. The comparison is one of
  unsigned words.\<close>

definition sleep_loop :: "u32 \<Rightarrow> u32 \<Rightarrow> 'a kdev_scheme \<Rightarrow> (u32 outcome \<times> 'a kdev_scheme) kres" where
  "sleep_loop ticks0 n s =
     (if ticks s - ticks0 < n then
        andThen (curproc s) (\<lambda>c.
        if killed (ptable s ! c) then Inr (Ret FAIL, s)
        else andThen (sleep_on ChTicks s) (\<lambda>s. Inr (SleepOn ChTicks, s)))
      else Inr (Ret 0, s))"

definition sys_sleep :: "'a kdev_scheme ksyscall" where
  "sys_sleep = outcomes (\<lambda>s.
     with_arg (argint 0 s) (Inr (Ret FAIL, s)) (\<lambda>n. sleep_loop (ticks s) n s))"

definition sys_uptime :: "'a kdev_scheme ksyscall" where
  "sys_uptime = returns (\<lambda>s. Inr (ticks s, s))"

definition sys_halt :: "'a kdev_scheme ksyscall" where
  "sys_halt = returns (\<lambda>s. andThen (do_shutdown s) (\<lambda>s. Inr (0, s)))"

definition sys_cps :: "'a kdev_scheme ksyscall" where
  "sys_cps = returns cps"

definition sys_getppid :: "'a kdev_scheme ksyscall" where
  "sys_getppid = returns (\<lambda>s. andThen (getppid s) (\<lambda>r. Inr (r, s)))"

definition sys_getsz :: "'a kdev_scheme ksyscall" where
  "sys_getsz = returns (\<lambda>s. andThen (getsz s) (\<lambda>r. Inr (r, s)))"

definition sys_chpr :: "'a kdev_scheme ksyscall" where
  "sys_chpr = returns (\<lambda>s.
     with_arg (argint 0 s) (Inr (FAIL, s)) (\<lambda>pid.
     with_arg (argint 1 s) (Inr (FAIL, s)) (\<lambda>prio. Inr (chpr pid prio s))))"

definition sys_getcount :: "'a kdev_scheme ksyscall" where
  "sys_getcount = returns (\<lambda>s.
     with_arg (argint 0 s) (Inr (FAIL, s)) (\<lambda>procno.
     andThen (getcount procno s) (\<lambda>r. Inr (r, s))))"

definition sys_time :: "'a kdev_scheme ksyscall" where
  "sys_time = outcomes (\<lambda>s.
     with_arg (argptr 0 4 s) (Inr (Ret 12, s)) (\<lambda>waitt.
     with_arg (argptr 1 4 s) (Inr (Ret 13, s)) (\<lambda>burstt. time waitt burstt s)))"

text \<open>\<^verbatim>\<open>*r = t1\<close> writes the six words of the structure.\<close>

definition put_rtcdate :: "u32 \<Rightarrow> rtcdate \<Rightarrow> 'a kvm_scheme \<Rightarrow> 'a kvm_scheme kres" where
  "put_rtcdate a t s =
     vstore a (concat (map bytes32 [second t, minute t, hour t, day t, month t, year t])) s"

definition utctime :: "u32 \<Rightarrow> 'a kdev_scheme \<Rightarrow> (u32 \<times> 'a kdev_scheme) kres" where
  "utctime r s =
     (case cmostime (rtc_statb s) (rtc_passes s) of
        None \<Rightarrow> Inl Block
      | Some (t, ps) \<Rightarrow> andThen (put_rtcdate r t (s\<lparr>rtc_passes := ps\<rparr>)) (\<lambda>s. Inr (0, s)))"

definition sys_utctime :: "'a kdev_scheme ksyscall" where
  "sys_utctime = returns (\<lambda>s.
     with_arg (argptr 0 4 s) (Inr (FAIL, s)) (\<lambda>r. utctime r s))"

subsection \<open>Dispatch\<close>

text \<open>The table \<^verbatim>\<open>syscalls\<close>, numbered by \<^verbatim>\<open>syscall.h\<close>; \<open>junk\<close> is what \<^verbatim>\<open>sys_dup2\<close> finds in its
  uninitialised local.\<close>

definition syscalls :: "u32 \<Rightarrow> nat \<Rightarrow> 'a kdev_scheme ksyscall option" where
  "syscalls junk num =
     (if num = 0 \<or> num \<ge> 31 then None
      else Some ([sys_fork, sys_exit, sys_wait, returns sys_pipe, returns sys_read, sys_kill,
        returns sys_exec, returns sys_fstat, returns sys_chdir, returns sys_dup, sys_getpid,
        sys_sbrk, sys_sleep, sys_uptime, returns sys_open, returns sys_write, returns sys_mknod,
        returns sys_unlink, returns sys_link, returns sys_mkdir, returns sys_close, sys_halt,
        sys_cps, sys_getppid, sys_getsz, sys_chpr, sys_getcount, sys_time, sys_utctime,
        returns (sys_dup2 junk)] ! (num - 1)))"

definition set_eax :: "nat \<Rightarrow> u32 \<Rightarrow> 'a kproc_scheme \<Rightarrow> 'a kproc_scheme" where
  "set_eax c v s = upd_proc c (\<lambda>p. p\<lparr>tf := (tf p)\<lparr>t_eax := v\<rparr>\<rparr>) s"

definition syscall :: "u32 \<Rightarrow> 'a kdev_scheme \<Rightarrow> (sysres \<times> 'a kdev_scheme) kres" where
  "syscall junk s =
     andThen (curproc s) (\<lambda>c.
     let num = sint (t_eax (tf (ptable s ! c)))
     in case (if num > 0 then syscalls junk (nat num) else None) of
          Some f \<Rightarrow>
            andThen (count_inc (ptable s ! c) (num - 1)) (\<lambda>p.
            andThen (f (upd_proc c (\<lambda>_. p) s)) (\<lambda>(r, s).
            case r of SRet v \<Rightarrow> Inr (r, set_eax c v s) | _ \<Rightarrow> Inr (r, s)))
        | None \<Rightarrow>
            andThen (cprintf (''%d %s: unknown sys call %d'' @ [CHR 0x0A])
              [CInt (p_pid (ptable s ! c)), CStr (p_name (ptable s ! c)), CInt (word_of_int num)] s) (\<lambda>s.
            Inr (SRet FAIL, set_eax c FAIL s)))"

subsection \<open>Traps\<close>

abbreviation (input) T_SYSCALL :: u32 where "T_SYSCALL \<equiv> 64"
abbreviation (input) T_IRQ0 :: u32 where "T_IRQ0 \<equiv> 32"
abbreviation (input) SCHED_INTERVAL :: u32 where "SCHED_INTERVAL \<equiv> 10"

text \<open>How a trap ends: back to the interrupted code, asleep, exited, or at the switch of \<^verbatim>\<open>yield\<close>.\<close>

datatype trapres = TBack | TSleep chan | TExit | TYield bool

definition exit_if :: "bool \<Rightarrow> 'a kdev_scheme \<Rightarrow> (trapres \<times> 'a kdev_scheme) kres
    \<Rightarrow> (trapres \<times> 'a kdev_scheme) kres" where
  "exit_if b s k = (if b then andThen (exit s) (\<lambda>s. Inr (TExit, s)) else k)"

definition user_mode :: "trapframe \<Rightarrow> bool" where
  "user_mode t \<longleftrightarrow> and (t_cs t) 3 = 3"

definition trap_syscall :: "u32 \<Rightarrow> trapframe \<Rightarrow> 'a kdev_scheme \<Rightarrow> (trapres \<times> 'a kdev_scheme) kres" where
  "trap_syscall junk t s =
     andThen (curproc s) (\<lambda>c.
     exit_if (killed (ptable s ! c)) s (
     andThen (syscall junk (upd_proc c (\<lambda>p. p\<lparr>tf := t\<rparr>) s)) (\<lambda>(r, s).
     case r of
       SSleep ch \<Rightarrow> Inr (TSleep ch, s)
     | SExit \<Rightarrow> Inr (TExit, s)
     | SRet _ \<Rightarrow> exit_if (killed (ptable s ! c)) s (Inr (TBack, s)))))"

text \<open>
  The \<^verbatim>\<open>switch\<close> on the trap number. \<open>chars\<close> is what the keyboard or the serial line delivers and
  \<open>cr2\<close> the faulting address. The disk is that of the memory-disk kernel, whose interrupt handler is
  empty; the handler of the IDE disk is in \<open>Ide\<close>. A device needs no acknowledgement in the model.
\<close>

definition trap_device :: "trapframe \<Rightarrow> int list \<Rightarrow> u32 \<Rightarrow> 'a kdev_scheme \<Rightarrow> 'a kdev_scheme kres" where
  "trap_device t chars cr2 s =
     (let n = t_trapno t
      in if n = T_IRQ0 then
           andThen (cpuid s) (\<lambda>c.
           Inr (if c = 0 then wakeup ChTicks (s\<lparr>ticks := ticks s + 1\<rparr>) else s))
         else if n = T_IRQ0 + 14 \<or> n = T_IRQ0 + 15 then Inr s
         else if n = T_IRQ0 + 1 \<or> n = T_IRQ0 + 4 then consoleintr chars s
         else if n = T_IRQ0 + 7 \<or> n = T_IRQ0 + 31 then
           andThen (cpuid s) (\<lambda>c.
           cprintf (''cpu%d: spurious interrupt at %x:%x'' @ [CHR 0x0A])
             [CInt (word_of_nat c), CInt (ucast (t_cs t)), CInt (t_eip t)] s)
         else
           (case cproc (cpus s ! this s) of
              None \<Rightarrow> Inl (Panic ''trap'')
            | Some p \<Rightarrow>
                if and (t_cs t) 3 = 0 then Inl (Panic ''trap'')
                else
                  andThen (cpuid s) (\<lambda>c.
                  andThen (cprintf (''pid %d %s: trap %d err %d on cpu %d eip 0x%x addr 0x%x--kill proc'' @
                                    [CHR 0x0A])
                    [CInt (p_pid (ptable s ! p)), CStr (p_name (ptable s ! p)), CInt n,
                     CInt (t_err t), CInt (word_of_nat c), CInt (t_eip t), CInt cr2] s) (\<lambda>s.
                  Inr (upd_proc p (\<lambda>q. q\<lparr>killed := True\<rparr>) s)))))"

definition dies :: "trapframe \<Rightarrow> 'a kdev_scheme \<Rightarrow> bool" where
  "dies t s = (case cproc (cpus s ! this s) of
     None \<Rightarrow> False | Some p \<Rightarrow> killed (ptable s ! p) \<and> user_mode t)"

definition must_yield :: "trapframe \<Rightarrow> 'a kdev_scheme \<Rightarrow> bool" where
  "must_yield t s = (case cproc (cpus s ! this s) of
     None \<Rightarrow> False
   | Some p \<Rightarrow> p_state (ptable s ! p) = RUNNING \<and> t_trapno t = T_IRQ0 \<and>
                ticks s mod SCHED_INTERVAL = 0)"

definition trap :: "u32 \<Rightarrow> trapframe \<Rightarrow> int list \<Rightarrow> u32 \<Rightarrow> 'a kdev_scheme \<Rightarrow> (trapres \<times> 'a kdev_scheme) kres" where
  "trap junk t chars cr2 s =
     (if t_trapno t = T_SYSCALL then trap_syscall junk t s
      else
        andThen (trap_device t chars cr2 s) (\<lambda>s.
        exit_if (dies t s) s (
        if must_yield t s then andThen (yield s) (\<lambda>(ena, s). Inr (TYield ena, s))
        else exit_if (dies t s) s (Inr (TBack, s)))))"

text \<open>What is left of a trap that yielded, when the process runs again.\<close>

definition trap_back :: "trapframe \<Rightarrow> bool \<Rightarrow> 'a kdev_scheme \<Rightarrow> (trapres \<times> 'a kdev_scheme) kres" where
  "trap_back t ena s =
     andThen (yield_back ena s) (\<lambda>s. exit_if (dies t s) s (Inr (TBack, s)))"

end
