(* ===== verification/Ring.thy ===== *)
theory Ring
  imports Xv6_Prelude
begin

text \<open>
  Ring buffers with free-running 32-bit indices, as the pipes (512 bytes) and the console input
  (128 bytes) have them: the slot of index \<open>i\<close> is \<open>i\<close> modulo the capacity, and the indices wrap
  around at \<open>2 ^ 32\<close>, a multiple of the capacity. The bytes between a read index and a write index
  are a queue.
\<close>

definition ring_view :: "nat \<Rightarrow> 'b list \<Rightarrow> u32 \<Rightarrow> u32 \<Rightarrow> 'b list" where
  "ring_view cap buf r w = map (\<lambda>k. buf ! ((unat r + k) mod cap)) [0..<unat (w - r)]"

lemma length_ring_view [simp]: "length (ring_view cap buf r w) = unat (w - r)"
  by (simp add: ring_view_def)

lemma ring_view_empty [simp]: "ring_view cap buf r r = []"
  by (simp add: ring_view_def)

text \<open>The number of bytes in the ring after one is taken at either end.\<close>

lemma count_pop: "r \<noteq> w \<Longrightarrow> unat (w - r :: u32) = Suc (unat (w - (r + 1)))"
proof -
  assume "r \<noteq> w"
  then have "w - r \<noteq> 0" by simp
  then have "unat (w - r - 1) = unat (w - r) - 1" "0 < unat (w - r)"
    by (simp_all only: unat_minus_one unat_gt_0 not_False_eq_True)
  then have "unat (w - r) = Suc (unat (w - r - 1))" by linarith
  moreover have "w - (r + 1) = w - r - 1" by simp
  ultimately show ?thesis by (simp only:)
qed

lemma count_back: "r \<noteq> w \<Longrightarrow> unat (w - r :: u32) = Suc (unat (w - 1 - r))"
proof -
  assume a: "r \<noteq> w"
  have "w - 1 - r = w - (r + 1)" by simp
  then show ?thesis using count_pop [OF a] by (simp only:)
qed

locale ring_buffer =
  fixes cap :: nat
  assumes cap_pos: "0 < cap"
    and cap_dvd: "cap dvd 2 ^ 32"
    and cap_small: "cap < 2 ^ 32"
begin

lemma slot_add: "unat (r + d :: u32) mod cap = (unat r + unat d) mod cap"
proof -
  have "unat (r + d) = (unat r + unat d) mod 2 ^ 32" by (simp add: unat_word_ariths)
  then show ?thesis using mod_mod_cancel [OF cap_dvd] by simp
qed

lemma slot_diff: "unat w mod cap = (unat (r :: u32) + unat (w - r)) mod cap"
  using slot_add [of r "w - r"] by simp

lemma slot_le: "j \<le> k \<Longrightarrow> k < cap \<Longrightarrow> (a + j) mod cap = (a + k) mod cap \<Longrightarrow> j = k"
proof -
  assume a: "j \<le> k" "k < cap" "(a + j) mod cap = (a + k) mod cap"
  then have "cap dvd (a + k) - (a + j)" using mod_eq_dvd_iff_nat [of "a + j" "a + k" cap] by simp
  then have "cap dvd k - j" by simp
  then show "j = k" using a(1,2) nat_dvd_not_less [of "k - j" cap] by (cases "j = k") auto
qed

lemma slot_inj: "j < cap \<Longrightarrow> k < cap \<Longrightarrow> (a + j) mod cap = (a + k) mod cap \<Longrightarrow> j = k"
  using slot_le [of j k a] slot_le [of k j a] by (cases "j \<le> k") auto

text \<open>Writing at the write index appends to the queue.\<close>

lemma count_push: "unat (w - r) < cap \<Longrightarrow> unat (w + 1 - r) = Suc (unat (w - r :: u32))"
proof -
  assume "unat (w - r) < cap"
  then have "Suc (unat (w - r)) < 2 ^ 32" using cap_small by linarith
  moreover have "w + 1 - r = (w - r) + 1" by simp
  ultimately show ?thesis by (simp only:) (simp add: unat_word_ariths)
qed

lemma view_push:
  assumes "length buf = cap" "unat (w - r) < cap"
  shows "ring_view cap (buf[unat w mod cap := b]) r (w + 1) = ring_view cap buf r w @ [b]"
proof -
  let ?n = "unat (w - r)"
  have s: "unat w mod cap = (unat r + ?n) mod cap" by (rule slot_diff)
  have old: "buf[(unat r + ?n) mod cap := b] ! ((unat r + k) mod cap) = buf ! ((unat r + k) mod cap)"
    if "k < ?n" for k
  proof -
    have "(unat r + ?n) mod cap \<noteq> (unat r + k) mod cap"
      using slot_inj [of ?n k "unat r"] that assms(2) by auto
    then show ?thesis by simp
  qed
  have "(unat r + ?n) mod cap < length buf" using assms(1) cap_pos by simp
  then show ?thesis using old by (simp add: ring_view_def count_push [OF assms(2)] s)
qed

text \<open>Reading at the read index takes the first element.\<close>

lemma view_pop:
  assumes "r \<noteq> w"
  shows "ring_view cap buf r w = buf ! (unat r mod cap) # ring_view cap buf (r + 1) w"
proof -
  have n: "unat (w - r) = Suc (unat (w - (r + 1)))" by (rule count_pop [OF assms])
  have "(unat r + Suc k) mod cap = (unat (r + 1) + k) mod cap" for k
  proof -
    have "(unat (r + 1) + k) mod cap = (unat (r + 1) mod cap + k) mod cap" by (simp add: mod_add_left_eq)
    also have "\<dots> = ((unat r + 1) mod cap + k) mod cap" using slot_add [of r 1] by simp
    also have "\<dots> = (unat r + 1 + k) mod cap" by (simp add: mod_add_left_eq)
    finally show ?thesis by simp
  qed
  then show ?thesis
    by (simp add: ring_view_def n upt_conv_Cons map_Suc_upt [symmetric] del: upt_Suc)
qed

end

end
