(* ===== verification/Pipe_Inv.thy ===== *)
theory Pipe_Inv
  imports File Ring Bio_Inv
begin

text \<open>
  A pipe is a bounded first-in first-out queue: the abstraction \<open>pipe_queue\<close> reads the bytes between
  the two counters of the ring, \<^verbatim>\<open>pipewrite\<close> appends to it and \<^verbatim>\<open>piperead\<close> takes from its front.
\<close>

interpretation pring: ring_buffer "512"
  by unfold_locales auto

definition pipe_ok :: "pipe \<Rightarrow> bool" where
  "pipe_ok q \<longleftrightarrow> length (pdata q) = PIPESIZE \<and> unat (nwrite q - nread q) \<le> PIPESIZE"

definition pipe_queue :: "pipe \<Rightarrow> u8 list" where
  "pipe_queue q = ring_view PIPESIZE (pdata q) (nread q) (nwrite q)"

lemma pipe_full_iff: "pipe_full q \<longleftrightarrow> unat (nwrite q - nread q) = PIPESIZE"
proof -
  have "pipe_full q \<longleftrightarrow> nwrite q - nread q = 512" by (auto simp: pipe_full_def algebra_simps)
  also have "\<dots> \<longleftrightarrow> unat (nwrite q - nread q) = unat (512 :: u32)" by (simp only: word_unat_eq_iff)
  finally show ?thesis by simp
qed

lemma pipe_full_queue: "pipe_full q \<longleftrightarrow> length (pipe_queue q) = PIPESIZE"
  by (simp add: pipe_full_iff pipe_queue_def)

lemma pipe_put_queue:
  assumes "pipe_ok q" "\<not> pipe_full q"
  shows "pipe_ok (pipe_put b q)" "pipe_queue (pipe_put b q) = pipe_queue q @ [b]"
proof -
  have n: "length (pdata q) = 512" "unat (nwrite q - nread q) < 512"
    using assms by (auto simp: pipe_ok_def pipe_full_iff)
  show "pipe_queue (pipe_put b q) = pipe_queue q @ [b]"
    using pring.view_push [OF n] by (simp add: pipe_put_def pipe_queue_def)
  show "pipe_ok (pipe_put b q)"
    using pring.count_push [OF n(2)] n by (simp add: pipe_put_def pipe_ok_def)
qed

lemma pipe_copy_queue:
  "pipe_copy k q = (bs, q') \<Longrightarrow> pipe_ok q \<Longrightarrow>
    bs = take k (pipe_queue q) \<and> pipe_queue q' = drop k (pipe_queue q) \<and> pipe_ok q'"
proof (induction k q arbitrary: bs q' rule: pipe_copy.induct)
  case (1 q)
  then show ?case by simp
next
  case (2 k q)
  show ?case
  proof (cases "nread q = nwrite q")
    case True
    with 2 show ?thesis by (simp add: pipe_queue_def)
  next
    case False
    let ?q1 = "q\<lparr>nread := nread q + 1\<rparr>"
    let ?b = "pdata q ! (unat (nread q) mod 512)"
    from 2(2) False obtain bs1 where r: "pipe_copy k ?q1 = (bs1, q')" "bs = ?b # bs1"
      by (auto simp: Let_def split: prod.splits)
    have v: "pipe_queue q = ?b # pipe_queue ?q1"
      using pring.view_pop [of "nread q" "nwrite q" "pdata q"] False by (simp add: pipe_queue_def)
    then have "length (pipe_queue q) = Suc (length (pipe_queue ?q1))" by simp
    then have "pipe_ok ?q1" using 2(3) by (simp add: pipe_ok_def pipe_queue_def)
    from 2(1) [OF False refl r(1) this] show ?thesis using r(2) v by simp
  qed
qed

lemma pipes_frames [simp]:
  "pipes (wakeup ch s) = pipes s" "pipes (upd_proc i f s) = pipes s"
  "pipes (upd_pipe p g s) = (pipes s)(p := g (pipes s p))"
  by (simp_all add: wakeup_def wakeup1_def upd_proc_def upd_pipe_def)

lemma sleep_on_pipes: "sleep_on ch s = Inr s' \<Longrightarrow> pipes s' = pipes s"
  by (auto simp: sleep_on_def)

text \<open>
  The write loop stores a prefix of what it was given; it is complete when the loop returns true, and
  otherwise it stopped at a full pipe.
\<close>

lemma pipewrite_loop_queue:
  "pipewrite_loop p (kbytes data) k i s = Inr (r, i', s') \<Longrightarrow> pipe_ok (pipes s p) \<Longrightarrow>
    i + k \<le> length data \<Longrightarrow>
    i \<le> i' \<and> i' \<le> i + k \<and> pipe_ok (pipes s' p) \<and>
    pipe_queue (pipes s' p) = pipe_queue (pipes s p) @ take (i' - i) (drop i data) \<and>
    (if r = Ret True then i' = i + k else pipe_full (pipes s' p))"
proof (induction k arbitrary: i s)
  case 0
  then show ?case by simp
next
  case (Suc k)
  show ?case
  proof (cases "pipe_full (pipes s p)")
    case True
    with Suc.prems have "i' = i" "pipes s' = pipes s" "r \<noteq> Ret True"
      by (auto split: if_splits dest!: sleep_on_pipes)
    with Suc.prems True show ?thesis by simp
  next
    case False
    let ?s1 = "upd_pipe p (pipe_put (data ! i)) s"
    have d: "drop i data = data ! i # drop (Suc i) data" "hd (take 1 (drop i data)) = data ! i"
      using Suc.prems(3) by (simp_all add: Cons_nth_drop_Suc hd_drop_conv_nth)
    have "kbytes data i 1 s = Inr [data ! i]" using d(1) by (simp add: kbytes_def)
    then have run: "pipewrite_loop p (kbytes data) k (Suc i) ?s1 = Inr (r, i', s')"
      using Suc.prems(1) False by simp
    have q: "pipe_ok (pipes ?s1 p)" "pipe_queue (pipes ?s1 p) = pipe_queue (pipes s p) @ [data ! i]"
      using pipe_put_queue [OF Suc.prems(2) False] by simp_all
    have IH: "Suc i \<le> i' \<and> i' \<le> Suc i + k \<and> pipe_ok (pipes s' p) \<and>
        pipe_queue (pipes s' p) = pipe_queue (pipes ?s1 p) @ take (i' - Suc i) (drop (Suc i) data) \<and>
        (if r = Ret True then i' = Suc i + k else pipe_full (pipes s' p))"
      using Suc.IH [OF run q(1)] Suc.prems(3) by simp
    then have "take (i' - i) (drop i data) = data ! i # take (i' - Suc i) (drop (Suc i) data)"
      using d(1) by (simp add: Suc_diff_Suc [symmetric] take_Cons' Suc_le_eq)
    then show ?thesis using IH q(2) by simp
  qed
qed

lemma pipewrite_queue:
  assumes "pipewrite p (kbytes data) n s = Inr (r, m, s')" "pipe_ok (pipes s p)"
    "nat (sint n) \<le> length data"
  shows "pipe_ok (pipes s' p)" "m \<le> nat (sint n)"
    "pipe_queue (pipes s' p) = pipe_queue (pipes s p) @ take m data"
proof -
  from assms(1) obtain r1 m1 s1 where l1: "pipewrite_loop p (kbytes data) (nat (sint n)) 0 s = Inr (r1, m1, s1)"
    by (auto simp: pipewrite_def)
  with assms(1) have "m1 = m" "pipes s' = pipes s1"
    by (auto simp: pipewrite_def split: outcome.splits bool.splits)
  with l1 have l: "pipewrite_loop p (kbytes data) (nat (sint n)) 0 s = Inr (r1, m, s1)"
    "pipes s' = pipes s1" by simp_all
  from pipewrite_loop_queue [OF l(1) assms(2)] assms(3) l(2)
  show "pipe_ok (pipes s' p)" "m \<le> nat (sint n)"
    "pipe_queue (pipes s' p) = pipe_queue (pipes s p) @ take m data"
    by simp_all
qed

lemma piperead_queue:
  assumes "piperead p n s = Inr (r, bs, s')" "pipe_ok (pipes s p)"
  shows "pipe_ok (pipes s' p)" "pipe_queue (pipes s p) = bs @ pipe_queue (pipes s' p)"
proof -
  have "pipe_ok (pipes s' p) \<and> pipe_queue (pipes s p) = bs @ pipe_queue (pipes s' p)"
    using assms pipe_copy_queue [of "nat (sint n)" "pipes s p"]
    by (fastforce simp: piperead_def Let_def split: if_splits prod.splits dest!: sleep_on_pipes)
  then show "pipe_ok (pipes s' p)" "pipe_queue (pipes s p) = bs @ pipe_queue (pipes s' p)"
    by simp_all
qed

text \<open>
  A history of pipe \<open>p\<close>: any sequence of reads and writes, interrupted ones included, with the
  bytes the writes stored and the bytes the reads delivered.
\<close>

inductive pipe_run :: "u32 \<Rightarrow> 'a kfile_scheme \<Rightarrow> u8 list \<Rightarrow> u8 list \<Rightarrow> 'a kfile_scheme \<Rightarrow> bool"
  for p s where
  start: "pipe_run p s [] [] s"
| put: "pipe_run p s w r s1 \<Longrightarrow> pipewrite p (kbytes data) n s1 = Inr (oc, m, s2) \<Longrightarrow>
    nat (sint n) \<le> length data \<Longrightarrow> pipe_run p s (w @ take m data) r s2"
| get: "pipe_run p s w r s1 \<Longrightarrow> piperead p n s1 = Inr (oc, bs, s2) \<Longrightarrow>
    pipe_run p s w (r @ bs) s2"

text \<open>C14: a pipe is a first-in first-out queue. In every history of reads and writes of an empty
  pipe, whatever sleeps and early returns they take, the bytes stored by the writes are the bytes
  delivered by the reads followed by the bytes still in the pipe: nothing is lost, repeated or
  reordered, and at most 512 bytes are in the pipe.\<close>

theorem pipe_fifo:
  assumes "pipe_run p s w r s'" "pipe_ok (pipes s p)" "pipe_queue (pipes s p) = []"
  shows "w = r @ pipe_queue (pipes s' p) \<and> length (pipe_queue (pipes s' p)) \<le> PIPESIZE"
proof -
  from assms have "pipe_ok (pipes s' p) \<and> w = r @ pipe_queue (pipes s' p)"
  proof (induction rule: pipe_run.induct)
    case start
    then show ?case by simp
  next
    case (put w r s1 data n oc m s2)
    then show ?case using pipewrite_queue [OF put(2)] by simp
  next
    case (get w r s1 n oc bs s2)
    then show ?case using piperead_queue [OF get(2)] by simp
  qed
  then show ?thesis by (simp add: pipe_ok_def pipe_queue_def)
qed


definition zero_file :: filerec where
  "zero_file = \<lparr>f_type = FD_NONE, f_ref = 0, f_readable = False, f_writable = False, f_pipe = 0,
     f_ip = None, f_off = 0\<rparr>"

definition zero_inode :: inode where
  "zero_inode = \<lparr>i_dev = 0, i_inum = 0, i_ref = 0, i_lock = initsleeplock, i_valid = False, i_type = 0,
     i_major = 0, i_minor = 0, i_nlink = 0, i_size = 0, i_addrs = replicate 13 0\<rparr>"

definition zero_sb :: superblock where
  "zero_sb = \<lparr>sb_size = 0, sb_nblocks = 0, sb_ninodes = 0, sb_nlog = 0, sb_logstart = 0,
     sb_inodestart = 0, sb_bmapstart = 0\<rparr>"

definition zero_pipe :: pipe where
  "zero_pipe = \<lparr>pdata = replicate PIPESIZE 0, nread = 0, nwrite = 0, readopen = True, writeopen = True\<rparr>"

definition boot_file :: kfile where
  "boot_file = kbio.extend boot_bio \<lparr>l_start = 0, l_size = 0, l_outstanding = 0, l_committing = False,
     l_dev = 0, lh_n = 0, lh_block = replicate LOGSIZE 0, fs_sb = zero_sb,
     icache = replicate NINODE zero_inode, in_buf = replicate INPUT_BUF 0, in_r = 0, in_w = 0, in_e = 0,
     devsw_console = False, power_off = False, pipes = (\<lambda>_. zero_pipe), ftab = replicate NFILE zero_file\<rparr>"

lemma boot_file_simps [simp]:
  "pipes boot_file = (\<lambda>_. zero_pipe)" "ftab boot_file = replicate NFILE zero_file"
  "icache boot_file = replicate NINODE zero_inode" "in_buf boot_file = replicate INPUT_BUF 0"
  by (simp_all add: boot_file_def kbio.defs)

lemma zero_pipe_ok [simp]: "pipe_ok zero_pipe" "pipe_queue zero_pipe = []"
  by (simp_all add: pipe_ok_def pipe_queue_def zero_pipe_def)

theorem pipe_fifo_witness:
  "\<exists>s'. pipe_run 0 boot_file [65, 66] [65] s' \<and> [65, 66] = [65] @ pipe_queue (pipes s' 0)"
proof -
  have n: "nat (sint (2 :: u32)) = Suc (Suc 0)" by code_simp
  have "pipewrite_loop 0 (kbytes [65, 66]) (Suc (Suc 0)) 0 boot_file =
      Inr (Ret True, 2, upd_pipe 0 (pipe_put 66) (upd_pipe 0 (pipe_put 65) boot_file))"
    by (simp add: kbytes_def pipe_full_def pipe_put_def zero_pipe_def)
  then have "pipewrite 0 (kbytes [65, 66]) 2 boot_file = Inr (Ret 2, 2, wakeup (ChPipeR (unat (0 :: u32)))
      (upd_pipe 0 (pipe_put 66) (upd_pipe 0 (pipe_put 65) boot_file)))"
    by (simp only: pipewrite_def n andThen_Inr prod.case outcome.case bool.case)
  then obtain s1 where s1: "pipewrite 0 (kbytes [65, 66]) 2 boot_file = Inr (Ret 2, 2, s1)"
    "pipes s1 0 = pipe_put 66 (pipe_put 65 zero_pipe)"
    by simp
  then have "pipe_run 0 boot_file ([] @ take 2 [65, 66]) [] s1"
    by (intro pipe_run.put [OF pipe_run.start s1(1)]) simp
  then have r1: "pipe_run 0 boot_file [65, 66] [] s1" by simp
  obtain s2 where s2: "piperead 0 1 s1 = Inr (Ret 1, [65], s2)"
    using s1(2) by (auto simp: piperead_def pipe_put_def zero_pipe_def)
  have "pipe_run 0 boot_file [65, 66] ([] @ [65]) s2" by (rule pipe_run.get [OF r1 s2])
  then have r2: "pipe_run 0 boot_file [65, 66] [65] s2" by simp
  from pipe_fifo [OF r2] have "[65, 66] = [65] @ pipe_queue (pipes s2 0)" by simp
  with r2 show ?thesis by blast
qed

end
