(* ===== verification/Console_Inv.thy ===== *)
theory Console_Inv
  imports Console Ring Pipe_Inv
begin

text \<open>
  The console: the input ring as a queue of committed bytes followed by the line being edited, and
  the bounds of the screen.
\<close>

interpretation cring: ring_buffer "128"
  by unfold_locales auto

text \<open>All bytes typed and not yet read, and how many of them are committed.\<close>

definition typed :: "'a kcons_scheme \<Rightarrow> u8 list" where
  "typed s = ring_view INPUT_BUF (in_buf s) (in_r s) (in_e s)"

definition ncommitted :: "'a kcons_scheme \<Rightarrow> nat" where
  "ncommitted s = unat (in_w s - in_r s)"

definition committed :: "'a kcons_scheme \<Rightarrow> u8 list" where
  "committed s = take (ncommitted s) (typed s)"

definition cons_ok :: "'a kcons_scheme \<Rightarrow> bool" where
  "cons_ok s \<longleftrightarrow> length (in_buf s) = INPUT_BUF \<and> ncommitted s \<le> length (typed s) \<and>
     length (typed s) \<le> INPUT_BUF"

lemma length_typed: "length (typed s) = unat (in_e s - in_r s)"
  by (simp add: typed_def)

lemma cons_frames [simp]:
  "in_buf (consputc c s) = in_buf s" "in_r (consputc c s) = in_r s" "in_w (consputc c s) = in_w s"
  "in_e (consputc c s) = in_e s" "in_buf (wakeup ch s) = in_buf s" "in_r (wakeup ch s) = in_r s"
  "in_w (wakeup ch s) = in_w s" "in_e (wakeup ch s) = in_e s"
  by (simp_all add: consputc_def wakeup_def wakeup1_def)

lemma cons_views [simp]:
  "typed (consputc c s) = typed s" "ncommitted (consputc c s) = ncommitted s"
  "typed (wakeup ch s) = typed s" "ncommitted (wakeup ch s) = ncommitted s"
  by (simp_all add: typed_def ncommitted_def)

text \<open>What an input step may do: nothing that is committed changes.\<close>

definition input_step :: "'a kcons_scheme \<Rightarrow> 'a kcons_scheme \<Rightarrow> bool" where
  "input_step s s' \<longleftrightarrow> cons_ok s' \<and> ncommitted s \<le> ncommitted s' \<and>
     take (ncommitted s) (typed s') = committed s"

lemma input_step_refl: "cons_ok s \<Longrightarrow> input_step s s"
  by (simp add: input_step_def committed_def)

lemma input_step_trans:
  assumes "input_step s1 s2" "input_step s2 s3"
  shows "input_step s1 s3"
proof -
  have n: "ncommitted s1 \<le> ncommitted s2" "ncommitted s2 \<le> ncommitted s3" "cons_ok s3"
    and t: "take (ncommitted s1) (typed s2) = committed s1" "take (ncommitted s2) (typed s3) = committed s2"
    using assms by (auto simp: input_step_def)
  have "take (ncommitted s1) (typed s3) = take (ncommitted s1) (take (ncommitted s2) (typed s3))"
    using n(1) by (simp add: min_def)
  also have "\<dots> = committed s1" using t n(1) by (simp add: committed_def min_def)
  finally show ?thesis using n by (simp add: input_step_def)
qed

text \<open>Taking back the last byte of the line being edited.\<close>

lemma erase_step:
  assumes ok: "cons_ok s" and ne: "in_e s \<noteq> in_w s"
  shows "input_step s (consputc BACKSPACE (s\<lparr>in_e := in_e s - 1\<rparr>))"
proof -
  let ?s1 = "s\<lparr>in_e := in_e s - 1\<rparr>"
  have "unat (in_w s - in_r s) \<noteq> unat (in_e s - in_r s)"
    using ne by (metis diff_add_cancel word_unat_eq_iff)
  then have lt: "ncommitted s < length (typed s)"
    using ok by (simp add: cons_ok_def ncommitted_def length_typed)
  have "in_r s \<noteq> in_e s" using lt by (auto simp: length_typed ncommitted_def)
  from count_back [OF this] have l: "length (typed ?s1) = length (typed s) - 1"
    by (simp add: length_typed)
  have t: "typed ?s1 = take (length (typed s) - 1) (typed s)"
    using l by (simp add: typed_def ring_view_def take_map length_typed)
  have n: "ncommitted ?s1 = ncommitted s" by (simp add: ncommitted_def)
  have le: "ncommitted s \<le> length (typed s) - 1" using lt by linarith
  then have "take (ncommitted s) (typed ?s1) = committed s"
    by (simp add: t committed_def min_def)
  moreover have "cons_ok ?s1" using ok le n l by (auto simp: cons_ok_def)
  ultimately show ?thesis by (simp add: input_step_def n cons_ok_def)
qed

lemma putback_step: "cons_ok s \<Longrightarrow> input_step s (putback s)"
  using erase_step [of s] by (simp add: putback_def input_step_refl)

lemma kill_line_step: "cons_ok s \<Longrightarrow> input_step s (kill_line s)"
proof (induction s rule: kill_line.induct)
  case (1 s)
  let ?s1 = "consputc BACKSPACE (s\<lparr>in_e := in_e s - 1\<rparr>)"
  show ?case
  proof (cases "in_e s \<noteq> in_w s \<and> in_buf s ! in_slot (in_e s - 1) \<noteq> 10")
    case True
    then have k: "kill_line s = kill_line ?s1" by (subst kill_line.simps) simp
    have e: "input_step s ?s1" using True 1(2) by (intro erase_step) auto
    then have "cons_ok ?s1" by (simp add: input_step_def)
    from input_step_trans [OF e 1(1) [OF True this]] show ?thesis by (simp only: k)
  next
    case False
    then have "kill_line s = s" by (subst kill_line.simps) (simp only: if_False)
    then show ?thesis using 1(2) by (simp add: input_step_refl)
  qed
qed

lemma in_char_step:
  assumes ok: "cons_ok s"
  shows "input_step s (in_char c s)"
proof (cases "c \<noteq> 0 \<and> in_e s - in_r s < 128")
  case False
  then have "in_char c s = s" by (simp only: in_char_def if_False)
  then show ?thesis using ok by (simp add: input_step_refl)
next
  case True
  define d where "d = (if c = 13 then 10 else c)"
  define s1 where "s1 = s\<lparr>in_buf := (in_buf s)[in_slot (in_e s) := word_of_int d], in_e := in_e s + 1\<rparr>"
  have room: "unat (in_e s - in_r s) < 128" using True by (simp add: word_less_nat_alt)
  have len: "length (in_buf s) = 128" using ok by (simp add: cons_ok_def)
  have t: "typed s1 = typed s @ [word_of_int d]"
    using cring.view_push [OF len room] by (simp add: typed_def s1_def in_slot_def)
  have n: "ncommitted s1 = ncommitted s" by (simp add: ncommitted_def s1_def)
  have ok1: "cons_ok s1" "take (ncommitted s) (typed s1) = committed s"
    using ok room len t n by (auto simp: cons_ok_def committed_def length_typed s1_def)
  define s2 where "s2 = s1\<lparr>in_w := in_e s1\<rparr>"
  have t2: "typed s2 = typed s1" "ncommitted s2 = length (typed s1)"
    by (simp_all add: s2_def typed_def ncommitted_def)
  have "in_char c s = consputc d s1 \<or> in_char c s = wakeup ChInput ((consputc d s1)\<lparr>in_w := in_e s1\<rparr>)"
    using True by (simp add: in_char_def Let_def d_def [symmetric] s1_def)
  moreover have "(consputc d s1)\<lparr>in_w := in_e s1\<rparr> = consputc d s2" by (simp add: consputc_def s2_def)
  moreover have "input_step s (consputc d s1)"
    using ok1 n by (simp add: input_step_def cons_ok_def)
  moreover have "input_step s (wakeup ChInput (consputc d s2))"
    using ok1 t2 ok by (auto simp: input_step_def cons_ok_def t s2_def n)
  ultimately show ?thesis by auto
qed

lemma intr_loop_step:
  "intr_loop cs dump sd s = (dump', sd', s') \<Longrightarrow> cons_ok s \<Longrightarrow> input_step s s'"
proof (induction cs arbitrary: dump sd s)
  case Nil
  then show ?case by (simp add: input_step_refl)
next
  case (Cons c cs)
  consider "c = 0x10" | "c = 4" | "c = 0x15" | "c = 8 \<or> c = 0x7f"
    | "c \<notin> {0x10, 4, 0x15, 8, 0x7f}" by auto
  then obtain d1 d2 s1 where "intr_loop cs d1 d2 s1 = (dump', sd', s')" "input_step s s1"
    using Cons.prems putback_step [of s] kill_line_step [of s] in_char_step [of s c]
      input_step_refl [of s]
    by cases auto
  then show ?case using Cons.IH [of d1 d2 s1] input_step_trans [of s s1 s']
    by (simp add: input_step_def)
qed

subsection \<open>Reading\<close>

lemma pop_typed:
  assumes "cons_ok s" "in_r s \<noteq> in_w s"
  shows "typed s = in_buf s ! in_slot (in_r s) # typed (s\<lparr>in_r := in_r s + 1\<rparr>)"
    "ncommitted s = Suc (ncommitted (s\<lparr>in_r := in_r s + 1\<rparr>))"
proof -
  show n: "ncommitted s = Suc (ncommitted (s\<lparr>in_r := in_r s + 1\<rparr>))"
    using count_pop [OF assms(2)] by (simp add: ncommitted_def)
  then have "length (typed s) \<noteq> 0" using assms(1) by (auto simp: cons_ok_def)
  then have "in_r s \<noteq> in_e s" by (auto simp: length_typed)
  from cring.view_pop [OF this, of "in_buf s"]
  show "typed s = in_buf s ! in_slot (in_r s) # typed (s\<lparr>in_r := in_r s + 1\<rparr>)"
    by (simp add: typed_def in_slot_def)
qed

lemma pop_committed:
  assumes "cons_ok s" "in_r s \<noteq> in_w s"
  shows "committed s = in_buf s ! in_slot (in_r s) # committed (s\<lparr>in_r := in_r s + 1\<rparr>)"
    "cons_ok (s\<lparr>in_r := in_r s + 1\<rparr>)"
  using pop_typed [OF assms] assms(1) by (simp_all add: committed_def cons_ok_def)

text \<open>
  A read takes from the front of the committed bytes: those it delivers, and the end-of-file mark if
  that is what ends the read and nothing was delivered before it.
\<close>

lemma consread_loop_takes:
  "consread_loop n got s = Inr (Some bs, s') \<Longrightarrow> cons_ok s \<Longrightarrow>
    cons_ok s' \<and> length bs \<le> n \<and> 4 \<notin> set bs \<and> 10 \<notin> set (butlast bs) \<and>
    (committed s = bs @ committed s' \<or> bs = [] \<and> \<not> got \<and> committed s = 4 # committed s')"
proof (induction n got s arbitrary: bs rule: consread_loop.induct)
  case (1 got s)
  then show ?case by simp
next
  case (2 n got s)
  define c where "c = in_buf s ! in_slot (in_r s)"
  define s1 where "s1 = s\<lparr>in_r := in_r s + 1\<rparr>"
  have ne: "in_r s \<noteq> in_w s" using 2(2) by (auto split: if_splits)
  have p: "committed s = c # committed s1" "cons_ok s1"
    using pop_committed [OF 2(3) ne] by (simp_all add: c_def s1_def)
  have bk: "s1\<lparr>in_r := in_r s1 - 1\<rparr> = s" by (simp add: s1_def)
  consider (eof) "c = 4" | (nl) "c = 10" | (more) "c \<noteq> 4" "c \<noteq> 10" by auto
  then show ?case
  proof cases
    case eof
    then have "bs = [] \<and> s' = (if got then s else s1)"
      using 2(2) ne bk by (auto simp: Let_def c_def s1_def split: if_splits)
    then show ?thesis using p 2(3) eof by auto
  next
    case nl
    then have "bs = [c] \<and> s' = s1" using 2(2) ne by (auto simp: Let_def c_def s1_def)
    then show ?thesis using p nl by simp
  next
    case more
    then obtain r1 where r: "consread_loop n True s1 = Inr (Some r1, s')" "bs = c # r1"
      using 2(2) ne by (auto simp: Let_def c_def s1_def)
    have "cons_ok s' \<and> length r1 \<le> n \<and> 4 \<notin> set r1 \<and> 10 \<notin> set (butlast r1) \<and>
        committed s1 = r1 @ committed s'"
      using 2(1) [OF ne c_def, of s1 r1] r(1) p(2) more by (auto simp: s1_def c_def)
    then show ?thesis using p r(2) more by auto
  qed
qed

text \<open>C16: console input is a queue of committed lines. Whatever characters the keyboard delivers,
  editing (backspace, kill line) never changes or drops a byte that has been committed, the ring
  never overflows, and a read that returns takes from the front of the committed bytes: at most as
  many as were asked for, at most one line, and the end-of-file mark is consumed only by a read that
  delivers nothing.\<close>

theorem console_input_queue:
  assumes "cons_ok s" "intr_loop cs False False s = (dump, sd, s1)"
    "consread_loop n False s1 = Inr (Some bs, s2)"
  shows "(\<exists>more. committed s1 = committed s @ more) \<and> cons_ok s2 \<and> length bs \<le> n \<and>
    10 \<notin> set (butlast bs) \<and>
    (committed s1 = bs @ committed s2 \<or> bs = [] \<and> committed s1 = 4 # committed s2)"
proof -
  have step: "input_step s s1" by (rule intr_loop_step [OF assms(2,1)])
  then have "cons_ok s1" by (simp add: input_step_def)
  moreover have "committed s1 = committed s @ drop (ncommitted s) (committed s1)"
    using step append_take_drop_id [of "ncommitted s" "committed s1"]
    by (auto simp: input_step_def committed_def min_def)
  ultimately show ?thesis using consread_loop_takes [OF assms(3)] by blast
qed


lemma boot_cons_ok: "cons_ok boot_file" "in_r boot_file = 0" "in_w boot_file = 0" "in_e boot_file = 0"
  by (simp_all add: cons_ok_def ncommitted_def typed_def boot_file_def kbio.defs)

theorem console_input_queue_witness:
  "\<exists>s1 s2. intr_loop [13] False False boot_file = (False, False, s1) \<and>
     consread_loop 1 False s1 = Inr (Some [10], s2) \<and> committed s1 = [10] @ committed s2"
proof -
  define s1 where "s1 = in_char 13 boot_file"
  have i: "intr_loop [13] False False boot_file = (False, False, s1)" by (simp add: s1_def)
  have f: "in_r s1 = 0" "in_w s1 = 1" "in_buf s1 ! 0 = 10"
    by (simp_all add: s1_def in_char_def boot_cons_ok in_slot_def)
  obtain s2 where r: "consread_loop 1 False s1 = Inr (Some [10], s2)"
    using f by (simp add: in_slot_def Let_def)
  from console_input_queue [OF boot_cons_ok(1) i r] have "committed s1 = [10] @ committed s2" by simp
  with i r show ?thesis by blast
qed

subsection \<open>The screen\<close>

definition cga_ok :: "cga \<Rightarrow> bool" where
  "cga_ok g \<longleftrightarrow> length (crt g) = CRTSIZE \<and> 0 \<le> cpos g \<and> cpos g < 24 * 80"

lemma crt_put_ok: "0 \<le> p \<Longrightarrow> p < 24 * 80 \<Longrightarrow> crt_put p w g = Inr (g\<lparr>crt := (crt g)[nat p := w]\<rparr>)"
  by (simp add: crt_put_def)

lemma crt_scroll_ok:
  assumes "length (crt g) = CRTSIZE" "24 * 80 \<le> cpos g" "cpos g < 25 * 80"
  shows "cga_ok (crt_scroll g)"
  using assms by (simp add: cga_ok_def crt_scroll_def Let_def)

lemma cgaputc_ok:
  assumes "cga_ok g"
  shows "\<exists>g'. cgaputc c g = Inr g' \<and> cga_ok g'"
proof -
  have l: "length (crt g) = CRTSIZE" and p: "0 \<le> cpos g" "cpos g < 1920"
    using assms by (auto simp: cga_ok_def)
  have nl: "cpos g + (80 - cpos g mod 80) \<le> 1920" "0 < 80 - cpos g mod 80" using p by presburger+
  define step where "step =
     (if c = 10 then Inr (g\<lparr>cpos := cpos g + (80 - cpos g mod 80)\<rparr>)
      else if c = BACKSPACE then Inr (if cpos g > 0 then g\<lparr>cpos := cpos g - 1\<rparr> else g)
      else andThen (crt_put (cpos g) (or (word_of_int (c mod 256)) 0x0700) g) (\<lambda>g.
           Inr (g\<lparr>cpos := cpos g + 1\<rparr>)))"
  have "\<exists>h. step = Inr h \<and> length (crt h) = CRTSIZE \<and> 0 \<le> cpos h \<and> cpos h \<le> 1920"
    using l p nl by (auto simp: step_def crt_put_def)
  then obtain h where h: "step = Inr h" "length (crt h) = CRTSIZE" "0 \<le> cpos h" "cpos h \<le> 1920"
    by blast
  define k where "k = (if cpos h div 80 \<ge> 24 then crt_scroll h else h)"
  have k: "cga_ok k"
  proof (cases "cpos h div 80 \<ge> 24")
    case True
    then have "cpos h = 1920" using h(4) by linarith
    then show ?thesis using crt_scroll_ok [of h] h(2) True by (simp add: k_def)
  next
    case False
    then have "cpos h < 1920" by linarith
    then show ?thesis using h False by (simp add: k_def cga_ok_def)
  qed
  have "cgaputc c g = crt_put (cpos k) (or 32 0x0700) k"
    using h by (simp add: cgaputc_def step_def [symmetric] k_def Let_def)
  then show ?thesis using k by (simp add: crt_put_ok cga_ok_def)
qed

text \<open>C17: console output stays on the screen. From a cursor position on the first 24 rows, any
  sequence of characters whatever (newlines, backspaces, scrolling) is printed without the
  position panic and without a write outside the 25 rows of screen memory, and leaves the cursor on
  the first 24 rows again.\<close>

theorem cga_bounds:
  assumes "length (crt g) = CRTSIZE" "0 \<le> cpos g" "cpos g < 24 * 80"
  shows "\<exists>g'. cga_run cs g = Inr g' \<and> length (crt g') = CRTSIZE \<and> 0 \<le> cpos g' \<and> cpos g' < 24 * 80"
proof -
  have "cga_ok g \<Longrightarrow> \<exists>g'. cga_run cs g = Inr g' \<and> cga_ok g'"
  proof (induction cs arbitrary: g)
    case Nil
    then show ?case by simp
  next
    case (Cons c cs)
    from cgaputc_ok [OF Cons.prems] obtain h where "cgaputc c g = Inr h" "cga_ok h" by blast
    with Cons.IH [of h] show ?case by simp
  qed
  then show ?thesis using assms by (simp add: cga_ok_def)
qed

theorem cga_bounds_witness:
  "\<exists>g'. cga_run [72, 105, 10, 256] \<lparr>crt = replicate CRTSIZE 0, cpos = 1919\<rparr> = Inr g' \<and>
     length (crt g') = CRTSIZE \<and> 0 \<le> cpos g' \<and> cpos g' < 24 * 80"
  by (rule cga_bounds) simp_all

end
