(* ===== verification/Fs_Inv.thy ===== *)
theory Fs_Inv
  imports Fs
begin

text \<open>
  The on-disk formats of the file system and the functions that read and write them: inodes, the
  block bitmap, directory entries and path names.
\<close>

subsection \<open>Sixteen-bit fields\<close>

lemma length_bytes16 [simp]: "length (bytes16 w) = 2"
  by (simp add: bytes16_def)

lemma length_put16 [simp]: "k + 2 \<le> length d \<Longrightarrow> length (put16 d k w) = length d"
  by (simp add: put16_def)

lemma join16: "or (ucast (ucast w :: u8)) (push_bit 8 (ucast (ucast (drop_bit 8 w) :: u8))) = (w :: u16)"
  by (rule bit_word_eqI) (auto simp: bit_or_iff bit_push_bit_iff bit_ucast_iff bit_drop_bit_eq)

lemma get16_bytes16: "get16 (bytes16 w @ xs) 0 = w"
  by (simp add: get16_def bytes16_def join16)

lemma nth_put16: "k + 2 \<le> length d \<Longrightarrow> i < length d \<Longrightarrow>
    put16 d k w ! i = (if i = k then ucast w else if i = k + 1 then ucast (drop_bit 8 w) else d ! i)"
  by (auto simp: put16_def nth_splice bytes16_def nth_Cons')

lemma get16_put16_same [simp]: "k + 2 \<le> length d \<Longrightarrow> get16 (put16 d k w) k = w"
  by (simp add: get16_def nth_put16 join16)

lemma get16_put16_other [simp]:
  "k + 2 \<le> length d \<Longrightarrow> j + 2 \<le> length d \<Longrightarrow> j + 2 \<le> k \<or> k + 2 \<le> j \<Longrightarrow>
    get16 (put16 d k w) j = get16 d j"
  by (auto simp: get16_def nth_put16)

lemma get32_put16 [simp]:
  "k + 2 \<le> length d \<Longrightarrow> j + 4 \<le> length d \<Longrightarrow> j + 4 \<le> k \<or> k + 2 \<le> j \<Longrightarrow>
    get32 (put16 d k w) j = get32 d j"
  by (auto simp: get32_def nth_put16)

lemma get16_put32 [simp]:
  "k + 4 \<le> length d \<Longrightarrow> j + 2 \<le> length d \<Longrightarrow> j + 2 \<le> k \<or> k + 4 \<le> j \<Longrightarrow>
    get16 (put32 d k w) j = get16 d j"
  by (auto simp: get16_def put32_def nth_splice)

subsection \<open>Arrays of words\<close>

lemma length_put_words [simp]: "off + 4 * length ws \<le> length d \<Longrightarrow> length (put_words off ws d) = length d"
  by (induction off ws d rule: put_words.induct) auto

lemma get32_put_words_other:
  "off + 4 * length ws \<le> length d \<Longrightarrow> j + 4 \<le> length d \<Longrightarrow> j + 4 \<le> off \<or> off + 4 * length ws \<le> j \<Longrightarrow>
    get32 (put_words off ws d) j = get32 d j"
  by (induction off ws d rule: put_words.induct) auto

lemma get16_put_words_other:
  "off + 4 * length ws \<le> length d \<Longrightarrow> j + 2 \<le> length d \<Longrightarrow> j + 2 \<le> off \<or> off + 4 * length ws \<le> j \<Longrightarrow>
    get16 (put_words off ws d) j = get16 d j"
  by (induction off ws d rule: put_words.induct) auto

lemma get32_put_words:
  "off + 4 * length ws \<le> length d \<Longrightarrow> i < length ws \<Longrightarrow>
    get32 (put_words off ws d) (off + 4 * i) = ws ! i"
proof (induction off ws d arbitrary: i rule: put_words.induct)
  case (1 off d)
  then show ?case by simp
next
  case (2 off w ws d)
  show ?case
  proof (cases i)
    case 0
    then show ?thesis using 2 by (simp add: get32_put_words_other)
  next
    case (Suc j)
    then show ?thesis using 2(1) [of j] 2(2,3) by (simp add: algebra_simps)
  qed
qed

subsection \<open>The on-disk inode\<close>

lemma get_put_dinode:
  assumes "k + DINODE_SIZE \<le> length d" "length (d_addrs di) = NDIRECT + 1"
  shows "get_dinode (put_dinode d k di) k = di"
proof -
  have "map (\<lambda>i. get32 (put_dinode d k di) (k + 12 + 4 * i)) [0..<NDIRECT + 1] = d_addrs di"
    using assms by (intro nth_equalityI) (simp_all add: put_dinode_def get32_put_words del: upt_Suc)
  then show ?thesis
    using assms
    by (simp add: get_dinode_def put_dinode_def get16_put_words_other get32_put_words_other del: upt_Suc)
qed

lemma get_put_dinode_other:
  assumes "k + DINODE_SIZE \<le> length d" "length (d_addrs di) = NDIRECT + 1"
    "j + DINODE_SIZE \<le> length d" "j + DINODE_SIZE \<le> k \<or> k + DINODE_SIZE \<le> j"
  shows "get_dinode (put_dinode d k di) j = get_dinode d j"
  using assms
  by (auto simp: get_dinode_def put_dinode_def get16_put_words_other get32_put_words_other
      simp del: upt_Suc intro!: map_cong)

lemma inode_off_bound: "inode_off inum + DINODE_SIZE \<le> BSIZE"
  by (simp add: inode_off_def)

lemma inode_off_disjoint:
  "unat i mod IPB \<noteq> unat j mod IPB \<Longrightarrow>
    inode_off i + DINODE_SIZE \<le> inode_off j \<or> inode_off j + DINODE_SIZE \<le> inode_off i"
  by (simp add: inode_off_def) linarith

text \<open>C18: the inode format round-trips. The bytes \<^verbatim>\<open>iupdate\<close> stores for an inode are read back by
  \<^verbatim>\<open>ilock\<close> as exactly that inode's fields, and the other seven inodes of the block are unchanged.\<close>

theorem dinode_roundtrip:
  assumes "length d = BSIZE" "length (i_addrs ip) = NDIRECT + 1"
  shows "(let d' = put_dinode d (inode_off inum) (to_dinode ip)
          in length d' = BSIZE \<and>
             to_dinode (of_dinode (get_dinode d' (inode_off inum)) jp) = to_dinode ip \<and>
             (unat other mod IPB = unat inum mod IPB \<or>
                get_dinode d' (inode_off other) = get_dinode d (inode_off other)))"
proof -
  let ?k = "inode_off inum" and ?di = "to_dinode ip"
  have b: "?k + DINODE_SIZE \<le> length d" "inode_off other + DINODE_SIZE \<le> length d"
    using assms(1) inode_off_bound [of inum] inode_off_bound [of other] by simp_all
  have a: "length (d_addrs ?di) = NDIRECT + 1" using assms(2) by (simp add: to_dinode_def)
  have "length (put_dinode d ?k ?di) = BSIZE" using a b(1) assms(1) by (simp add: put_dinode_def)
  moreover have "to_dinode (of_dinode di jp) = di" for di
    by (cases di) (simp add: to_dinode_def of_dinode_def)
  moreover have "get_dinode (put_dinode d ?k ?di) (inode_off other) = get_dinode d (inode_off other)"
    if "unat other mod IPB \<noteq> unat inum mod IPB"
    using get_put_dinode_other [OF b(1) a b(2)] inode_off_disjoint [OF that] by blast
  ultimately show ?thesis using get_put_dinode [OF b(1) a] by (auto simp: Let_def)
qed

definition sample_inode :: inode where
  "sample_inode = \<lparr>i_dev = 1, i_inum = 3, i_ref = 1, i_lock = initsleeplock, i_valid = True, i_type = 2,
     i_major = 0, i_minor = 0, i_nlink = 1, i_size = 700, i_addrs = [60, 61] @ replicate 11 0\<rparr>"

theorem dinode_roundtrip_witness:
  "to_dinode (of_dinode (get_dinode (put_dinode (replicate BSIZE 7) (inode_off 3)
      (to_dinode sample_inode)) (inode_off 3)) sample_inode) = to_dinode sample_inode"
proof -
  have a: "length (replicate BSIZE (7 :: u8)) = BSIZE" "length (i_addrs sample_inode) = NDIRECT + 1"
    by (simp_all add: sample_inode_def)
  show ?thesis
    using dinode_roundtrip [where inum = 3 and jp = sample_inode and other = 4, OF a]
    by (simp only: Let_def)
qed

subsection \<open>The bitmap\<close>

lemma bit_clear_iff: "bit_clear d bi \<longleftrightarrow> \<not> bit (d ! (bi div 8)) (bi mod 8)"
proof -
  have "and x (push_bit k 1) = 0 \<longleftrightarrow> \<not> bit x k" if "k < 8" for x :: u8 and k
    using that by (subst bit_eq_iff) (auto simp: bit_and_iff bit_exp_iff)
  then show ?thesis by (simp add: bit_clear_def bit_mask_def)
qed

lemma bit_mark_used:
  assumes "bi div 8 < length d"
  shows "bit_clear (mark_used bi d) bj \<longleftrightarrow> bit_clear d bj \<and> bj \<noteq> bi"
proof (cases "bj div 8 = bi div 8")
  case True
  then have "bj = bi \<longleftrightarrow> bj mod 8 = bi mod 8" by (metis div_mult_mod_eq)
  then show ?thesis
    using True assms
    by (auto simp: bit_clear_iff mark_used_def bit_mask_def bit_or_iff bit_exp_iff)
next
  case False
  then show ?thesis using assms by (auto simp: bit_clear_iff mark_used_def)
qed

lemma bit_mark_free:
  assumes "bi div 8 < length d"
  shows "bit_clear (mark_free bi d) bj \<longleftrightarrow> bit_clear d bj \<or> bj = bi"
proof (cases "bj div 8 = bi div 8")
  case True
  then have "bj = bi \<longleftrightarrow> bj mod 8 = bi mod 8" by (metis div_mult_mod_eq)
  then show ?thesis
    using True assms
    by (auto simp: bit_clear_iff mark_free_def bit_mask_def bit_and_iff bit_not_iff bit_exp_iff)
next
  case False
  then show ?thesis using assms by (auto simp: bit_clear_iff mark_free_def)
qed

subsection \<open>Directory entries\<close>

lemma strncmp_bytes_l: "strncmp_bytes n p q = strncmp_l n p q"
  by (induction n arbitrary: p q) (simp_all add: cdef_def Let_def)

lemma namecmp_iff: "namecmp s t = 0 \<longleftrightarrow> cname DIRSIZ s = cname DIRSIZ t"
  by (simp add: namecmp_def strncmp_bytes_l strncmp_l_0_iff)

lemma length_mk_dirent [simp]: "length (mk_dirent name inum) = DIRENT_SIZE"
  by (simp add: mk_dirent_def)

lemma cname_padded: "cname n (take n (takeWhile (\<lambda>c. c \<noteq> 0) xs @ replicate n 0)) = cname n xs"
proof (induction xs arbitrary: n)
  case Nil
  then show ?case by (cases n) (simp_all add: cname_def)
next
  case (Cons x xs)
  show ?case
  proof (cases n)
    case 0
    then show ?thesis by (simp add: cname_def)
  next
    case (Suc m)
    have "cname m (take m (takeWhile (\<lambda>c. c \<noteq> 0) xs @ replicate (Suc m) 0)) =
        cname m (take m (takeWhile (\<lambda>c. c \<noteq> 0) xs @ replicate m 0))"
      by (simp add: cname_def replicate_append_same [symmetric])
    then show ?thesis using Suc Cons.IH [of m] by (auto simp: cname_def)
  qed
qed


subsection \<open>Path names\<close>

text \<open>The elements of a path: the non-empty pieces between slashes, cut to the length of a name.\<close>

fun split_slash :: "u8 list \<Rightarrow> u8 list list" where
  "split_slash [] = [[]]"
| "split_slash (c # cs) =
     (if c = SLASH then [] # split_slash cs
      else case split_slash cs of [] \<Rightarrow> [[c]] | e # es \<Rightarrow> (c # e) # es)"

definition path_elems :: "u8 list \<Rightarrow> u8 list list" where
  "path_elems path = map (take DIRSIZ) (filter (\<lambda>e. e \<noteq> []) (split_slash path))"

text \<open>The elements \<^verbatim>\<open>namex\<close> visits: what repeated calls of \<^verbatim>\<open>skipelem\<close> return.\<close>

function skip_all :: "u8 list \<Rightarrow> u8 list list" where
  "skip_all path = (case skipelem path of None \<Rightarrow> [] | Some (name, rest) \<Rightarrow> name # skip_all rest)"
  by pat_completeness auto
termination
  by (relation "measure length") (auto dest: skipelem_shorter)

declare skip_all.simps [simp del]

lemma split_slash_cons: "split_slash p =
    takeWhile (\<lambda>c. c \<noteq> SLASH) p #
      (case dropWhile (\<lambda>c. c \<noteq> SLASH) p of [] \<Rightarrow> [] | _ # r \<Rightarrow> split_slash r)"
  by (induction p) (auto split: list.splits)

lemma path_elems_slash: "path_elems (dropWhile (\<lambda>c. c = SLASH) p) = path_elems p"
  by (induction p) (auto simp: path_elems_def)

lemma skipelem_elems:
  "path_elems path = (case skipelem path of None \<Rightarrow> [] | Some (name, rest) \<Rightarrow> name # path_elems rest)"
proof -
  define p where "p = dropWhile (\<lambda>c. c = SLASH) path"
  have pe: "path_elems path = path_elems p" by (simp add: p_def path_elems_slash)
  show ?thesis
  proof (cases p)
    case Nil
    then have "skipelem path = None" by (simp add: skipelem_def p_def)
    then show ?thesis using pe Nil by (simp add: path_elems_def)
  next
    case (Cons c cs)
    then have c: "c \<noteq> SLASH" using hd_dropWhile [of "\<lambda>c. c = SLASH" path] by (simp add: p_def)
    let ?rest = "dropWhile (\<lambda>c. c \<noteq> SLASH) p"
    have sk: "skipelem path = Some (take DIRSIZ (takeWhile (\<lambda>c. c \<noteq> SLASH) p),
        dropWhile (\<lambda>c. c = SLASH) ?rest)"
      using Cons by (simp add: skipelem_def p_def [symmetric] Let_def)
    have ne: "takeWhile (\<lambda>c. c \<noteq> SLASH) p \<noteq> []" using Cons c by simp
    have sp: "path_elems p = take DIRSIZ (takeWhile (\<lambda>c. c \<noteq> SLASH) p) #
        map (take DIRSIZ) (filter (\<lambda>e. e \<noteq> []) (case ?rest of [] \<Rightarrow> [] | _ # r \<Rightarrow> split_slash r))"
      by (simp only: path_elems_def split_slash_cons [of p]) (simp only: filter.simps ne if_True list.map simp_thms)
    have "path_elems p = take DIRSIZ (takeWhile (\<lambda>c. c \<noteq> SLASH) p) # path_elems ?rest"
    proof (cases ?rest)
      case Nil
      then show ?thesis by (simp only: sp) (simp add: path_elems_def)
    next
      case (Cons d r)
      then have "d = SLASH" using hd_dropWhile [of "\<lambda>c. c \<noteq> SLASH" p] by simp
      then show ?thesis by (simp only: sp Cons) (simp add: path_elems_def)
    qed
    then show ?thesis using sk pe by (simp add: path_elems_slash)
  qed
qed

text \<open>C19: \<^verbatim>\<open>skipelem\<close> splits a path as documented. The elements that \<^verbatim>\<open>namex\<close> obtains by repeated calls
  are the non-empty pieces of the path between slashes, in order, each cut to fourteen bytes,
  whatever the number of leading, repeated and trailing slashes.\<close>

theorem skipelem_splits: "skip_all path = path_elems path"
proof (induction path rule: skip_all.induct)
  case (1 path)
  then show ?case
    by (subst skip_all.simps, subst skipelem_elems) (auto split: option.splits)
qed

end
