(* ===== verification/Sched_Inv.thy ===== *)
theory Sched_Inv
  imports Process Pipe_Inv
begin

text \<open>
  The scheduler's scan of the process table is fair. The tables the scheduler sees at its successive
  turns are an arbitrary sequence of states, since processes run in between.
\<close>

lemma next_runnable_bound:
  assumes "from \<le> p" "p < length (ptable s)" "p_state (ptable s ! p) = RUNNABLE"
  obtains i where "next_runnable from s = Some i" "from \<le> i" "i \<le> p"
proof -
  let ?P = "\<lambda>q. p_state q = RUNNABLE"
  have "drop from (ptable s) ! (p - from) = ptable s ! p" "p - from < length (drop from (ptable s))"
    using assms(1,2) by auto
  then have "ptable s ! p \<in> set (drop from (ptable s))"
    using nth_mem [of "p - from" "drop from (ptable s)"] by (simp only:)
  then obtain k where k: "find_index ?P (drop from (ptable s)) = Some k"
    using find_index_ex [of "ptable s ! p" _ ?P] assms(3) by blast
  have "k \<le> p - from"
  proof (rule ccontr)
    assume "\<not> k \<le> p - from"
    then have "\<not> ?P (drop from (ptable s) ! (p - from))"
      using find_index_SomeD [OF k] by auto
    then show False using assms by simp
  qed
  then show thesis using that [of "from + k"] k assms(1) by (simp add: next_runnable_def)
qed

lemma next_runnable_SomeD:
  assumes "next_runnable from s = Some i"
  shows "from \<le> i" "i < length (ptable s)" "p_state (ptable s ! i) = RUNNABLE"
proof -
  from assms obtain k where k: "find_index (\<lambda>q. p_state q = RUNNABLE) (drop from (ptable s)) = Some k"
    "i = from + k"
    by (auto simp: next_runnable_def)
  from find_index_SomeD [OF k(1)] k(2)
  show "from \<le> i" "i < length (ptable s)" "p_state (ptable s ! i) = RUNNABLE" by auto
qed

text \<open>Where the scan stands at turn \<open>k\<close>, over the states \<open>T\<close> of the turns: behind the slot it ran
  last, or at the start of a new pass.\<close>

fun scan_at :: "(nat \<Rightarrow> 'a kthr_scheme) \<Rightarrow> nat \<Rightarrow> nat" where
  "scan_at T 0 = 0"
| "scan_at T (Suc k) = (case next_runnable (scan_at T k) (T k) of None \<Rightarrow> 0 | Some i \<Rightarrow> Suc i)"

definition runs_at :: "(nat \<Rightarrow> 'a kthr_scheme) \<Rightarrow> nat \<Rightarrow> nat \<Rightarrow> bool" where
  "runs_at T k p \<longleftrightarrow> next_runnable (scan_at T k) (T k) = Some p"

lemma runs_ahead:
  "scan_at T k \<le> p \<Longrightarrow> (\<And>k. length (ptable (T k)) = N) \<Longrightarrow> p < N \<Longrightarrow>
    (\<And>k. p_state (ptable (T k) ! p) = RUNNABLE) \<Longrightarrow>
    \<exists>j. k \<le> j \<and> j \<le> k + (p - scan_at T k) \<and> runs_at T j p"
proof (induction "p - scan_at T k" arbitrary: k rule: less_induct)
  case less
  have "p < length (ptable (T k))" using less.prems(2,3) by simp
  from next_runnable_bound [OF less.prems(1) this less.prems(4)]
  obtain i where i: "next_runnable (scan_at T k) (T k) = Some i" "scan_at T k \<le> i" "i \<le> p" .
  show ?case
  proof (cases "i = p")
    case True
    then show ?thesis using i(1) by (auto simp: runs_at_def)
  next
    case False
    then have s: "scan_at T (Suc k) = Suc i" "Suc i \<le> p" using i by auto
    then have "p - scan_at T (Suc k) < p - scan_at T k" using i(2) by simp
    from less.hyps [OF this _ less.prems(2-4)] s
    obtain j where "Suc k \<le> j" "j \<le> Suc k + (p - Suc i)" "runs_at T j p" by auto
    moreover have "Suc k + (p - Suc i) \<le> k + (p - scan_at T k)" using i(2) s(2) by linarith
    ultimately show ?thesis by (meson Suc_leD le_trans)
  qed
qed

text \<open>From a position beyond \<open>p\<close> the scan reaches the end of the table and starts again.\<close>

lemma scan_wraps:
  "(\<And>k. length (ptable (T k)) = N) \<Longrightarrow> scan_at T k \<le> N \<Longrightarrow>
    \<exists>j. k \<le> j \<and> j \<le> k + Suc (N - scan_at T k) \<and> scan_at T j = 0"
proof (induction "N - scan_at T k" arbitrary: k rule: less_induct)
  case less
  show ?case
  proof (cases "next_runnable (scan_at T k) (T k)")
    case None
    then have "scan_at T (Suc k) = 0" by simp
    then show ?thesis by (intro exI [of _ "Suc k"]) auto
  next
    case (Some i)
    then have s: "scan_at T (Suc k) = Suc i" "scan_at T k \<le> i" "i < N"
      using next_runnable_SomeD [OF Some] less.prems(1) [of k] by auto
    then have "N - scan_at T (Suc k) < N - scan_at T k" "scan_at T (Suc k) \<le> N" by auto
    from less.hyps [OF this(1) less.prems(1) this(2)] s
    obtain j where "Suc k \<le> j" "j \<le> Suc k + Suc (N - Suc i)" "scan_at T j = 0" by auto
    moreover have "Suc k + Suc (N - Suc i) \<le> k + Suc (N - scan_at T k)" using s by linarith
    ultimately show ?thesis by (meson Suc_leD le_trans)
  qed
qed

lemma scan_at_le: "(\<And>k. length (ptable (T k)) = N) \<Longrightarrow> scan_at T k \<le> N"
proof (induction k)
  case 0
  then show ?case by simp
next
  case (Suc k)
  then show ?case
    using next_runnable_SomeD(2) [of "scan_at T k" "T k"] by (auto split: option.splits simp: Suc_leI)
qed

text \<open>C15: no runnable process starves. If the process in slot \<open>p\<close> stays runnable, then after any
  turn of the scheduler's scan it is chosen within as many further turns as two passes over the
  table take, whatever the other processes do.\<close>

theorem scheduler_fair:
  assumes "\<And>k. length (ptable (T k)) = NPROC" "p < NPROC"
    "\<And>k. p_state (ptable (T k) ! p) = RUNNABLE"
  shows "\<exists>k. m \<le> k \<and> k \<le> m + 2 * NPROC + 1 \<and> next_runnable (scan_at T k) (T k) = Some p"
proof -
  have le: "scan_at T m \<le> NPROC" by (rule scan_at_le) (rule assms(1))
  have "\<exists>j. m \<le> j \<and> j \<le> m + Suc (NPROC - scan_at T m) \<and> scan_at T j = 0"
    by (rule scan_wraps) (rule assms(1), rule le)
  then obtain j where j: "m \<le> j" "j \<le> m + Suc (NPROC - scan_at T m)" "scan_at T j = 0" by blast
  have "\<exists>k. j \<le> k \<and> k \<le> j + (p - scan_at T j) \<and> runs_at T k p"
    by (rule runs_ahead) (simp add: j(3), rule assms(1), rule assms(2), rule assms(3))
  then obtain k where k: "j \<le> k" "k \<le> j + (p - scan_at T j)" "runs_at T k p" by blast
  have "m \<le> k" using k(1) j(1) by simp
  moreover have "k \<le> m + 2 * NPROC + 1" using k(2) j(2,3) assms(2) by linarith
  ultimately show ?thesis using k(3) unfolding runs_at_def by blast
qed

definition boot_thr :: kthr where
  "boot_thr = kfile.extend boot_file \<lparr>tss_esp0 = (\<lambda>_. 0), forkret_first = True\<rparr>"

text \<open>A table in which the processes in slots 2 and 5 are runnable.\<close>

definition two_runnable :: kthr where
  "two_runnable = boot_thr\<lparr>ptable := (replicate NPROC zero_proc)[2 := zero_proc\<lparr>p_state := RUNNABLE\<rparr>,
     5 := zero_proc\<lparr>p_state := RUNNABLE\<rparr>]\<rparr>"

theorem scheduler_fair_witness:
  "\<exists>k. 3 \<le> k \<and> k \<le> 3 + 2 * NPROC + 1 \<and>
     next_runnable (scan_at (\<lambda>_. two_runnable) k) two_runnable = Some 5"
proof (rule scheduler_fair)
  have sel: "ptable (s\<lparr>ptable := xs\<rparr>) = xs" for s :: kthr and xs by simp
  have l: "length (xs[2 := a, 5 := b]) = NPROC" "xs[2 := a, 5 := b] ! 5 = b"
    if "length xs = NPROC" for xs :: "proc list" and a b
    using that by simp_all
  have r: "p_state (zero_proc\<lparr>p_state := RUNNABLE\<rparr>) = RUNNABLE" by simp
  show "length (ptable two_runnable) = NPROC" "p_state (ptable two_runnable ! 5) = RUNNABLE"
    by (simp_all only: two_runnable_def sel l [OF length_replicate] r)
qed simp

end
