(* ===== verification/Grep.thy ===== *)
theory Grep
  imports Xv6_Prelude
begin

text \<open>
  The user program \<^verbatim>\<open>grep.c\<close>. Patterns and lines are byte lists without the terminating NUL.

  The reading loop of \<^verbatim>\<open>grep\<close> works on a 1024-byte buffer of which \<open>pend\<close> holds the bytes of the line
  not yet complete. The input is the rest of the file; each \<^verbatim>\<open>read\<close> delivers at most the number of
  bytes it was asked for and at most the next number of \<open>ks\<close> (a pipe or the console may deliver less
  than was asked for), and nothing when \<open>ks\<close> is used up.
\<close>

abbreviation (input) CARET :: u8 where "CARET \<equiv> 94"
abbreviation (input) DOLLAR :: u8 where "DOLLAR \<equiv> 36"
abbreviation (input) DOT :: u8 where "DOT \<equiv> 46"
abbreviation (input) ASTERISK :: u8 where "ASTERISK \<equiv> 42"
abbreviation (input) NL :: u8 where "NL \<equiv> 10"

subsection \<open>The matcher\<close>

function (sequential) matchhere :: "u8 list \<Rightarrow> u8 list \<Rightarrow> bool"
  and matchstar :: "u8 \<Rightarrow> u8 list \<Rightarrow> u8 list \<Rightarrow> bool" where
  "matchhere [] text = True"
| "matchhere (c # re) text =
     (if re \<noteq> [] \<and> hd re = ASTERISK then matchstar c (tl re) text
      else if c = DOLLAR \<and> re = [] then text = []
      else if text \<noteq> [] \<and> (c = DOT \<or> c = hd text) then matchhere re (tl text)
      else False)"
| "matchstar c re text =
     (if matchhere re text then True
      else if text \<noteq> [] \<and> (hd text = c \<or> c = DOT) then matchstar c re (tl text)
      else False)"
  by pat_completeness auto
termination
  by (relation "measures [\<lambda>x. case x of Inl (re, t) \<Rightarrow> 2 * length re | Inr (c, re, t) \<Rightarrow> 2 * length re + 1,
        \<lambda>x. case x of Inl (re, t) \<Rightarrow> length t | Inr (c, re, t) \<Rightarrow> length t]")
    (auto simp: neq_Nil_conv)

declare matchhere.simps [simp del] matchstar.simps [simp del]

fun match_loop :: "u8 list \<Rightarrow> u8 list \<Rightarrow> bool" where
  "match_loop re [] = matchhere re []"
| "match_loop re (c # text) = (if matchhere re (c # text) then True else match_loop re text)"

definition match :: "u8 list \<Rightarrow> u8 list \<Rightarrow> bool" where
  "match re text =
     (if re \<noteq> [] \<and> hd re = CARET then matchhere (tl re) text else match_loop re text)"

subsection \<open>The reading loop\<close>

text \<open>The inner loop over the lines of the buffer: the bytes written, and \<^verbatim>\<open>p\<close> at the end. \<^verbatim>\<open>strchr\<close> looks
  no further than a NUL.\<close>

function grep_lines :: "u8 list \<Rightarrow> u8 list \<Rightarrow> u8 list \<times> u8 list" where
  "grep_lines pat p =
     (if NL \<in> set (takeWhile (\<lambda>c. c \<noteq> 0) p) then
        let line = takeWhile (\<lambda>c. c \<noteq> NL) p;
            (w, rest) = grep_lines pat (tl (dropWhile (\<lambda>c. c \<noteq> NL) p))
        in ((if match pat line then line @ [NL] else []) @ w, rest)
      else ([], p))"
  by pat_completeness auto
termination
proof (relation "measure (\<lambda>(pat, p). length p)", goal_cases)
  case 1
  then show ?case by simp
next
  case (2 pat p)
  then have "NL \<in> set p" by (meson set_takeWhileD)
  then have "dropWhile (\<lambda>c. c \<noteq> NL) p \<noteq> []" by (auto simp: dropWhile_eq_Nil_conv)
  then show ?case
    using length_dropWhile_le [of "\<lambda>c. c \<noteq> NL" p]
    by (cases "dropWhile (\<lambda>c. c \<noteq> NL) p") auto
qed

declare grep_lines.simps [simp del]

text \<open>\<open>length rest = length buf\<close> is \<^verbatim>\<open>p == buf\<close>.\<close>

primrec grep :: "u8 list \<Rightarrow> nat list \<Rightarrow> u8 list \<Rightarrow> u8 list \<Rightarrow> u8 list" where
  "grep pat [] inp pend = []"
| "grep pat (k # ks) inp pend =
     (let got = take (min k (1024 - length pend - 1)) inp
      in if got = [] then []
         else
           let buf = pend @ got;
               (w, rest) = grep_lines pat buf;
               pend = (if length rest = length buf then [] else rest)
           in w @ grep pat ks (drop (length got) inp) pend)"

subsection \<open>What a pattern means\<close>

text \<open>
  The pieces of a pattern: a character (or any, for a dot) once, or repeated; and whether the pattern
  ends in an end-of-line anchor.
\<close>

datatype piece = One u8 | Many u8

fun parse_re :: "u8 list \<Rightarrow> piece list \<times> bool" where
  "parse_re [] = ([], False)"
| "parse_re [c] = (if c = DOLLAR then ([], True) else ([One c], False))"
| "parse_re (c # d # re) =
     (if d = ASTERISK then (case parse_re re of (ps, eol) \<Rightarrow> (Many c # ps, eol))
      else (case parse_re (d # re) of (ps, eol) \<Rightarrow> (One c # ps, eol)))"

definition char_ok :: "u8 \<Rightarrow> u8 \<Rightarrow> bool" where
  "char_ok c x \<longleftrightarrow> c = DOT \<or> x = c"

fun piece_word :: "piece \<Rightarrow> u8 list \<Rightarrow> bool" where
  "piece_word (One c) w = (\<exists>x. w = [x] \<and> char_ok c x)"
| "piece_word (Many c) w = (\<forall>x \<in> set w. char_ok c x)"

text \<open>A pattern matches at the beginning of a text: the text starts with words of its pieces, one after
  the other, and ends there if the pattern is anchored.\<close>

definition starts :: "piece list \<times> bool \<Rightarrow> u8 list \<Rightarrow> bool" where
  "starts pe text \<longleftrightarrow> (\<exists>ws rest. list_all2 piece_word (fst pe) ws \<and> text = concat ws @ rest \<and>
     (snd pe \<longrightarrow> rest = []))"

definition matches :: "u8 list \<Rightarrow> u8 list \<Rightarrow> bool" where
  "matches re text \<longleftrightarrow>
     (if re \<noteq> [] \<and> hd re = CARET then starts (parse_re (tl re)) text
      else \<exists>before text'. text = before @ text' \<and> starts (parse_re re) text')"

lemma starts_Nil: "starts ([], eol) text \<longleftrightarrow> (eol \<longrightarrow> text = [])"
  by (auto simp: starts_def)

lemma starts_One: "starts (One c # ps, eol) text \<longleftrightarrow>
    (\<exists>x xs. text = x # xs \<and> char_ok c x \<and> starts (ps, eol) xs)"
proof
  assume "starts (One c # ps, eol) text"
  then show "\<exists>x xs. text = x # xs \<and> char_ok c x \<and> starts (ps, eol) xs"
    by (fastforce simp: starts_def list_all2_Cons1)
next
  assume "\<exists>x xs. text = x # xs \<and> char_ok c x \<and> starts (ps, eol) xs"
  then obtain x ws rest where "text = x # concat ws @ rest" "char_ok c x"
    "list_all2 piece_word ps ws" "eol \<longrightarrow> rest = []"
    by (auto simp: starts_def)
  then show "starts (One c # ps, eol) text"
    unfolding starts_def by (intro exI [of _ "[x] # ws"] exI [of _ rest]) auto
qed

lemma starts_run: "starts (Many c # ps, eol) text \<longleftrightarrow>
    (\<exists>w t. text = w @ t \<and> (\<forall>x \<in> set w. char_ok c x) \<and> starts (ps, eol) t)"
proof
  assume "starts (Many c # ps, eol) text"
  then obtain ws rest where t: "list_all2 piece_word (Many c # ps) ws" "text = concat ws @ rest"
    "eol \<longrightarrow> rest = []"
    by (auto simp: starts_def)
  then obtain w vs where "ws = w # vs" "\<forall>x \<in> set w. char_ok c x" "list_all2 piece_word ps vs"
    by (auto simp: list_all2_Cons1)
  then show "\<exists>w t. text = w @ t \<and> (\<forall>x \<in> set w. char_ok c x) \<and> starts (ps, eol) t"
    using t unfolding starts_def by (intro exI [of _ w] exI [of _ "concat vs @ rest"]) auto
next
  assume "\<exists>w t. text = w @ t \<and> (\<forall>x \<in> set w. char_ok c x) \<and> starts (ps, eol) t"
  then obtain w ws rest where "text = w @ concat ws @ rest" "\<forall>x \<in> set w. char_ok c x"
    "list_all2 piece_word ps ws" "eol \<longrightarrow> rest = []"
    by (auto simp: starts_def)
  then show "starts (Many c # ps, eol) text"
    unfolding starts_def by (intro exI [of _ "w # ws"] exI [of _ rest]) auto
qed

lemma starts_Many: "starts (Many c # ps, eol) text \<longleftrightarrow>
    starts (ps, eol) text \<or> (\<exists>x xs. text = x # xs \<and> char_ok c x \<and> starts (Many c # ps, eol) xs)"
proof
  assume "starts (Many c # ps, eol) text"
  then obtain w t where t: "text = w @ t" "\<forall>x \<in> set w. char_ok c x" "starts (ps, eol) t"
    by (auto simp: starts_run)
  show "starts (ps, eol) text \<or> (\<exists>x xs. text = x # xs \<and> char_ok c x \<and> starts (Many c # ps, eol) xs)"
  proof (cases w)
    case Nil
    then show ?thesis using t by simp
  next
    case (Cons x v)
    then have "starts (Many c # ps, eol) (v @ t)" using t by (auto simp: starts_run)
    then show ?thesis using t Cons by auto
  qed
next
  assume "starts (ps, eol) text \<or> (\<exists>x xs. text = x # xs \<and> char_ok c x \<and> starts (Many c # ps, eol) xs)"
  then show "starts (Many c # ps, eol) text"
  proof
    assume "starts (ps, eol) text"
    then show ?thesis unfolding starts_run by (intro exI [of _ "[]"] exI [of _ "text"]) simp
  next
    assume "\<exists>x xs. text = x # xs \<and> char_ok c x \<and> starts (Many c # ps, eol) xs"
    then obtain x w t where "text = x # w @ t" "char_ok c x" "\<forall>x \<in> set w. char_ok c x" "starts (ps, eol) t"
      by (auto simp: starts_run)
    then show ?thesis unfolding starts_run by (intro exI [of _ "x # w"] exI [of _ t]) simp
  qed
qed

lemma matcher_spec:
  "matchhere re tx = starts (parse_re re) tx"
  "matchstar c re tx = starts (Many c # fst (parse_re re), snd (parse_re re)) tx"
proof (induction re tx and c re tx rule: matchhere_matchstar.induct)
  case (1 tx)
  then show ?case by (simp add: matchhere.simps starts_Nil)
next
  case (2 c re tx)
  show ?case
  proof (cases re)
    case Nil
    then show ?thesis
      using 2(2) by (cases tx) (auto simp: matchhere.simps starts_Nil starts_One char_ok_def)
  next
    case (Cons d re')
    show ?thesis
    proof (cases "d = ASTERISK")
      case True
      then show ?thesis using Cons 2(1) by (simp add: matchhere.simps(2) split: prod.splits)
    next
      case False
      then show ?thesis
        using Cons 2(2)
        by (cases tx) (auto simp: matchhere.simps(2) starts_One char_ok_def split: prod.splits)
    qed
  qed
next
  case (3 c re tx)
  have s: "starts (Many c # fst (parse_re re), snd (parse_re re)) tx \<longleftrightarrow>
      starts (parse_re re) tx \<or> (\<exists>x xs. tx = x # xs \<and> char_ok c x \<and>
        starts (Many c # fst (parse_re re), snd (parse_re re)) xs)"
    by (subst starts_Many) simp
  show ?case
    using 3 by (subst s) (cases tx; auto simp: matchstar.simps char_ok_def)
qed

lemma match_loop_spec: "match_loop re tx \<longleftrightarrow> (\<exists>before tx'. tx = before @ tx' \<and> matchhere re tx')"
proof (induction tx)
  case Nil
  then show ?case by simp
next
  case (Cons c tx)
  then show ?case by (auto simp: Cons_eq_append_conv)
qed

text \<open>C21: the regular-expression matcher is correct. \<^verbatim>\<open>match\<close> returns true exactly when the text contains
  the pattern: starting anywhere, or at its beginning if the pattern begins with a caret, it
  continues with a character for each plain character or dot of the pattern and with a run of
  characters for each starred one, and ends there if the pattern ends with a dollar sign. The
  search of \<^verbatim>\<open>matchstar\<close> for the shortest run loses no match.\<close>

theorem match_correct: "match re text = matches re text"
  by (simp add: match_def matches_def match_loop_spec matcher_spec)


subsection \<open>Filtering a file\<close>

definition nl_line :: "u8 list \<Rightarrow> u8 list" where
  "nl_line l = l @ [NL]"

definition plain :: "u8 list \<Rightarrow> bool" where
  "plain l \<longleftrightarrow> 0 \<notin> set l \<and> NL \<notin> set l"

definition joined :: "u8 list list \<Rightarrow> u8 list" where
  "joined ls = concat (map nl_line ls)"

lemma joined_simps [simp]: "joined [] = []" "joined (l # ls) = l @ NL # joined ls"
  by (simp_all add: joined_def nl_line_def)

lemma joined_append [simp]: "joined (ls @ ms) = joined ls @ joined ms"
  by (simp add: joined_def)

lemma grep_lines_joined:
  "list_all plain ls \<Longrightarrow> NL \<notin> set rest \<Longrightarrow>
    grep_lines pat (joined ls @ rest) = (joined (filter (match pat) ls), rest)"
proof (induction ls)
  case Nil
  then have "NL \<notin> set (takeWhile (\<lambda>c. c \<noteq> 0) rest)" by (meson set_takeWhileD)
  then show ?case by (subst grep_lines.simps) simp
next
  case (Cons l ls)
  have l: "0 \<notin> set l" "NL \<notin> set l" using Cons.prems(1) by (auto simp: plain_def)
  have t: "takeWhile (\<lambda>c. c \<noteq> NL) (l @ NL # joined ls @ rest) = l"
    "dropWhile (\<lambda>c. c \<noteq> NL) (l @ NL # joined ls @ rest) = NL # joined ls @ rest"
    using l(2) by (auto simp: takeWhile_append dropWhile_append)
  have "NL \<in> set (takeWhile (\<lambda>c. c \<noteq> 0) (l @ NL # joined ls @ rest))"
    using l(1) by (simp add: takeWhile_append)
  then show ?case
    using Cons.IH Cons.prems t by (subst grep_lines.simps) simp
qed

lemma joined_prefix:
  "list_all plain ls \<Longrightarrow> n \<le> length (joined ls) \<Longrightarrow>
    \<exists>done more rest. ls = done @ more \<and> take n (joined ls) = joined done @ rest \<and> NL \<notin> set rest \<and>
      rest @ drop n (joined ls) = joined more \<and> (more \<noteq> [] \<longrightarrow> length rest \<le> length (hd more))"
proof (induction ls arbitrary: n)
  case Nil
  then show ?case by simp
next
  case (Cons l ls)
  show ?case
  proof (cases "n \<le> length l")
    case True
    then have "take n (joined (l # ls)) = take n l" "NL \<notin> set (take n l)"
      using Cons.prems(1) by (auto simp: plain_def dest: in_set_takeD)
    moreover have "take n l @ drop n (joined (l # ls)) = joined (l # ls)"
      using True by (simp add: append_take_drop_id [symmetric] del: append_take_drop_id) simp
    ultimately show ?thesis
      using True by (intro exI [of _ "[]"] exI [of _ "l # ls"] exI [of _ "take n l"]) simp
  next
    case False
    then obtain m where m: "n = length l + Suc m" by (metis add_Suc_right less_imp_Suc_add not_le)
    then have t: "take n (joined (l # ls)) = l @ NL # take m (joined ls)"
      "drop n (joined (l # ls)) = drop m (joined ls)" by simp_all
    have "m \<le> length (joined ls)" "list_all plain ls" using Cons.prems m by simp_all
    from Cons.IH [OF this(2,1)] obtain dn more rest where
      d: "ls = dn @ more" "take m (joined ls) = joined dn @ rest" "NL \<notin> set rest"
        "rest @ drop m (joined ls) = joined more" "more \<noteq> [] \<longrightarrow> length rest \<le> length (hd more)"
      by blast
    show ?thesis
      using d t by (intro exI [of _ "l # dn"] exI [of _ more] exI [of _ rest]) simp
  qed
qed

lemma joined_no_nl: "rest = joined ls \<Longrightarrow> NL \<notin> set rest \<Longrightarrow> ls = []"
  by (cases ls) auto

lemma grep_joined:
  "list_all plain ls \<Longrightarrow> \<forall>l \<in> set ls. length l < 1023 \<Longrightarrow> pend @ inp = joined ls \<Longrightarrow>
    NL \<notin> set pend \<Longrightarrow> length pend < 1023 \<Longrightarrow> length inp < n \<Longrightarrow>
    grep pat (replicate n 1024) inp pend = joined (filter (match pat) ls)"
proof (induction n arbitrary: inp pend ls)
  case 0
  then show ?case by simp
next
  case (Suc n)
  let ?k = "1023 - length pend"
  have mn: "min 1024 (1024 - length pend - 1) = ?k" by simp
  show ?case
  proof (cases "inp = []")
    case True
    then have "ls = []" using Suc.prems(3,4) joined_no_nl [of pend ls] by simp
    then show ?thesis using True by simp
  next
    case False
    define got where "got = take ?k inp"
    have g: "got \<noteq> []" using False Suc.prems(5) by (simp add: got_def)
    define b where "b = length pend + length got"
    have b: "take b (joined ls) = pend @ got" "drop b (joined ls) = drop (length got) inp"
      "b \<le> length (joined ls)"
      by (simp_all add: Suc.prems(3) [symmetric] b_def got_def min_def)
    have "length got \<le> ?k" by (simp add: got_def)
    then have b4: "b \<le> 1023" using Suc.prems(5) by (simp add: b_def)
    from joined_prefix [OF Suc.prems(1) b(3)] obtain dn more rest where
      d: "ls = dn @ more" "pend @ got = joined dn @ rest" "NL \<notin> set rest"
        "rest @ drop (length got) inp = joined more" "more \<noteq> [] \<longrightarrow> length rest \<le> length (hd more)"
      unfolding b by blast
    have "dn \<noteq> []"
    proof
      assume dn: "dn = []"
      then have r: "rest = pend @ got" using d(2) by simp
      have "more \<noteq> []" using d(4) r g by auto
      then have "length rest < 1023" using d(1,5) dn Suc.prems(2) by (cases more) auto
      then have "length got < ?k" using r by simp
      then have "drop (length got) inp = []" by (simp add: got_def)
      then show False using d(3,4) joined_no_nl [of rest more] \<open>more \<noteq> []\<close> by simp
    qed
    then have len: "length rest < length (pend @ got)" using d(2) by (cases dn) simp_all
    have gl: "grep_lines pat (pend @ got) = (joined (filter (match pat) dn), rest)"
      using grep_lines_joined [of dn rest pat] Suc.prems(1) d(1-3) by simp
    have IH: "grep pat (replicate n 1024) (drop (length got) inp) rest = joined (filter (match pat) more)"
    proof (rule Suc.IH)
      show "list_all plain more" "\<forall>l \<in> set more. length l < 1023"
        using Suc.prems(1,2) d(1) by auto
      show "rest @ drop (length got) inp = joined more" "NL \<notin> set rest" by (fact d(4), fact d(3))
      show "length rest < 1023" using len b4 by (simp add: b_def)
      show "length (drop (length got) inp) < n"
      proof -
        have "0 < length got" "0 < length inp" using g False by simp_all
        then show ?thesis using Suc.prems(6) unfolding length_drop by linarith
      qed
    qed
    have "grep pat (replicate (Suc n) 1024) inp pend =
        joined (filter (match pat) dn) @ grep pat (replicate n 1024) (drop (length got) inp) rest"
      using g gl len by (simp add: mn got_def [symmetric])
    then show ?thesis using IH d(1) by simp
  qed
qed

text \<open>C22: \<^verbatim>\<open>grep\<close> on a regular file prints exactly the matching lines. For a file of lines shorter than
  1023 bytes, each ended by a newline and free of NULs, the reading loop with its 1024-byte buffer
  writes the lines that match, each once, complete and in order.\<close>

theorem grep_file:
  assumes "list_all plain ls" "\<forall>l \<in> set ls. length l < 1023" "length (joined ls) < n"
  shows "grep pat (replicate n 1024) (joined ls) [] = joined (filter (match pat) ls)"
  using grep_joined [OF assms(1,2), of "[]" "joined ls" n pat] assms(3) by simp

theorem grep_file_witness:
  "grep [98] (replicate 10 1024) (joined [[97], [98, 99]]) [] = joined (filter (match [98]) [[97], [98, 99]])"
  by (rule grep_file) (simp_all add: plain_def)


end
