(* ===== verification/Shell.thy ===== *)
theory Shell
  imports Xv6_Prelude
begin

text \<open>
  The shell \<^verbatim>\<open>sh.c\<close>: its command-line parser, \<^verbatim>\<open>nulterminate\<close>, \<^verbatim>\<open>runcmd\<close> and what \<^verbatim>\<open>main\<close> does with a line.

  The command line is the list \<open>b\<close> of its bytes without the terminating NUL; pointers into it are
  indices, and the byte at index \<open>length b\<close> is the NUL. A word is the pair of the pointers to its first
  byte and past its last one, as the code keeps it. \<^verbatim>\<open>parseexec\<close> wraps redirections around a command it
  goes on filling; here it collects the redirections and wraps them at the end. The mutually
  recursive functions take a bound on the depth of calls; \<open>NoFuel\<close> is not a result of the program.
  The constructors assume that \<^verbatim>\<open>malloc\<close> succeeds (the code does not test it).
\<close>

type_synonym tok = "nat \<times> nat"

datatype redir = Redir (rfile: tok) (rmode: u32) (rfd: nat)

datatype cmd = EXEC "tok list" | REDIR cmd redir | PIPE cmd cmd | LIST cmd cmd | BACK cmd

datatype sherr = Syntax string | NoFuel

abbreviation (input) MAXARGS :: nat where "MAXARGS \<equiv> 10"

subsection \<open>Tokens\<close>

definition at :: "u8 list \<Rightarrow> nat \<Rightarrow> u8" where
  "at b i = (if i < length b then b ! i else 0)"

definition whitespace :: "u8 list" where
  "whitespace = [32, 9, 13, 10, 11]"

definition symbols :: "u8 list" where
  "symbols = [60, 124, 62, 38, 59, 40, 41]"

function skip_ws :: "u8 list \<Rightarrow> nat \<Rightarrow> nat" where
  "skip_ws b s = (if s < length b \<and> b ! s \<in> set whitespace then skip_ws b (s + 1) else s)"
  by pat_completeness auto
termination
  by (relation "measure (\<lambda>(b, s). length b - s)") auto

definition word_char :: "u8 \<Rightarrow> bool" where
  "word_char c \<longleftrightarrow> c \<notin> set whitespace \<and> c \<notin> set symbols"

function skip_word :: "u8 list \<Rightarrow> nat \<Rightarrow> nat" where
  "skip_word b s = (if s < length b \<and> word_char (b ! s) then skip_word b (s + 1) else s)"
  by pat_completeness auto
termination
  by (relation "measure (\<lambda>(b, s). length b - s)") auto

declare skip_ws.simps [simp del] skip_word.simps [simp del]

text \<open>The token's kind (0 at the end, \<^verbatim>\<open>a\<close> for a word, \<^verbatim>\<open>+\<close> for \<^verbatim>\<open>>>\<close>, otherwise the symbol itself), its
  bounds, and the position after it.\<close>

definition gettoken :: "u8 list \<Rightarrow> nat \<Rightarrow> u8 \<times> tok \<times> nat" where
  "gettoken b s =
     (let q = skip_ws b s;
          c = at b q;
          (ret, e) =
            (if c = 0 then (c, q)
             else if c \<in> set [124, 40, 41, 59, 38, 60] then (c, q + 1)
             else if c = 62 then (if at b (q + 1) = 62 then (43, q + 2) else (c, q + 1))
             else (97, skip_word b q))
      in (ret, (q, e), skip_ws b e))"

definition peek :: "u8 list \<Rightarrow> nat \<Rightarrow> u8 list \<Rightarrow> bool \<times> nat" where
  "peek b s toks = (let s = skip_ws b s in (at b s \<noteq> 0 \<and> at b s \<in> set toks, s))"

lemma skip_ws_ge: "s \<le> skip_ws b s"
  by (induction b s rule: skip_ws.induct) (subst skip_ws.simps, auto)

lemma skip_word_ge: "s \<le> skip_word b s"
  by (induction b s rule: skip_word.induct) (subst skip_word.simps, auto)

lemma skip_ws_le: "s \<le> length b \<Longrightarrow> skip_ws b s \<le> length b"
  by (induction b s rule: skip_ws.induct) (subst skip_ws.simps, auto)

lemma skip_word_le: "s \<le> length b \<Longrightarrow> skip_word b s \<le> length b"
  by (induction b s rule: skip_word.induct) (subst skip_word.simps, auto)

lemma at_pos: "at b s \<noteq> 0 \<Longrightarrow> s < length b"
  by (auto simp: at_def split: if_splits)

lemma skip_ws_stop: "skip_ws b s < length b \<Longrightarrow> b ! skip_ws b s \<notin> set whitespace"
  by (induction b s rule: skip_ws.induct) (subst skip_ws.simps, subst (asm) skip_ws.simps, auto split: if_splits)

lemma skip_ws_idem [simp]: "skip_ws b (skip_ws b s) = skip_ws b s"
  using skip_ws_stop [of b s] by (subst skip_ws.simps) auto

lemma skip_word_step:
  assumes "s < length b" "word_char (b ! s)"
  shows "s < skip_word b s"
  using assms skip_word_ge [of "s + 1" b] by (subst skip_word.simps) auto

text \<open>A token other than the end moves past at least one byte.\<close>

lemma gettoken_progress:
  assumes "gettoken b s = (ret, (q, e), s')" "s \<le> length b"
  shows "s \<le> q" "q \<le> e" "e \<le> s'" "s' \<le> length b" "ret \<noteq> 0 \<Longrightarrow> q < e" "ret = 0 \<longleftrightarrow> at b q = 0" "q = skip_ws b s"
proof -
  have q: "q = skip_ws b s" "s' = skip_ws b e"
    using assms(1) by (auto simp: gettoken_def Let_def split: prod.splits if_splits)
  have ql: "s \<le> q" "q \<le> length b" using skip_ws_ge skip_ws_le assms(2) by (auto simp: q)
  have sym: "word_char (b ! q)" if "q < length b" "b ! q \<notin> set [124, 40, 41, 59, 38, 60]" "b ! q \<noteq> 62"
    using that skip_ws_stop [of b s] by (auto simp: word_char_def symbols_def q)
  have e: "q \<le> e \<and> e \<le> length b \<and> (ret \<noteq> 0 \<longrightarrow> q < e) \<and> (ret = 0 \<longleftrightarrow> at b q = 0)"
  proof (cases "at b q = 0")
    case True
    then show ?thesis using assms(1) ql by (auto simp: gettoken_def Let_def q(1) [symmetric])
  next
    case False
    then have l: "q < length b" "at b q = b ! q" by (auto simp: at_def split: if_splits)
    consider (s1) "b ! q \<in> set [124, 40, 41, 59, 38, 60]" | (s2) "b ! q = 62"
      | (wd) "b ! q \<notin> set [124, 40, 41, 59, 38, 60]" "b ! q \<noteq> 62" by blast
    then show ?thesis
    proof cases
      case s1
      then have "ret = b ! q \<and> e = q + 1"
        using assms(1) l False by (auto simp: gettoken_def Let_def q(1) [symmetric])
      then show ?thesis using l False by auto
    next
      case s2
      then have "ret \<noteq> 0 \<and> (e = q + 1 \<or> e = q + 2 \<and> at b (q + 1) \<noteq> 0)"
        using assms(1) l by (auto simp: gettoken_def Let_def q(1) [symmetric] split: if_splits)
      then show ?thesis using l s2 False at_pos [of b "q + 1"] by auto
    next
      case wd
      then have "ret = 97 \<and> e = skip_word b q"
        using assms(1) l False by (auto simp: gettoken_def Let_def q(1) [symmetric])
      then show ?thesis
        using skip_word_step [OF l(1) sym [OF l(1) wd]] skip_word_le [OF ql(2)] l False by auto
    qed
  qed
  then show "q \<le> e" "ret \<noteq> 0 \<Longrightarrow> q < e" "ret = 0 \<longleftrightarrow> at b q = 0" by auto
  show "s \<le> q" "q = skip_ws b s" by (fact ql(1), fact q(1))
  show "e \<le> s'" "s' \<le> length b" using e skip_ws_ge skip_ws_le by (auto simp: q(2))
qed

lemma peek_progress:
  assumes "peek b s toks = (r, s')" "s \<le> length b"
  shows "s \<le> s'" "s' \<le> length b" "s' = skip_ws b s" "r \<Longrightarrow> at b s' \<noteq> 0"
  using assms skip_ws_ge [of s b] skip_ws_le [of s b] by (auto simp: peek_def Let_def)

text \<open>A token taken after a successful \<^verbatim>\<open>peek\<close> is not the end.\<close>

lemma token_after_peek:
  assumes "peek b s toks = (True, s1)" "gettoken b s1 = (ret, (q, e), s2)" "s \<le> length b"
  shows "s < s2" "s2 \<le> length b" "s1 < s2"
proof -
  note p = peek_progress [OF assms(1,3)]
  note g = gettoken_progress [OF assms(2) p(2)]
  have "q = s1" using g(7) p(3) by simp
  then have "ret \<noteq> 0" using p(4) g(6) by simp
  then have "q < e" by (rule g(5))
  then show "s < s2" "s1 < s2" using p(1) g(1,3) by linarith+
  show "s2 \<le> length b" by (rule g(4))
qed


lemma peek_bound: "peek b s toks = (True, s1) \<Longrightarrow> s < length b"
  using skip_ws_ge [of s b] at_pos [of b "skip_ws b s"] by (auto simp: peek_def Let_def)

lemma back_decreases:
  assumes "peek b s toks = (True, s1)" "gettoken b s1 = (t, w, s2)"
  shows "length b - s2 < length b - s"
proof -
  obtain q e where w: "w = (q, e)" by (cases w)
  have "s \<le> length b" using peek_bound [OF assms(1)] by simp
  from token_after_peek [OF assms(1) assms(2) [unfolded w] this] peek_bound [OF assms(1)]
  show ?thesis by linarith
qed

lemma redir_decreases:
  assumes "peek b s toks = (True, s1)" "gettoken b s1 = (t, w, s2)" "gettoken b s2 = (t', w', s3)"
  shows "length b - s3 < length b - s"
proof -
  obtain q e q' e' where w: "w = (q, e)" "w' = (q', e')" by (cases w, cases w')
  have l: "s < length b" "s \<le> length b" using peek_bound [OF assms(1)] by simp_all
  note s2 = token_after_peek [OF assms(1) assms(2) [unfolded w] l(2)]
  have "s2 \<le> s3" using gettoken_progress [OF assms(3) [unfolded w(2)] s2(2)] by linarith
  then show ?thesis using s2 l by linarith
qed

subsection \<open>The parser\<close>

abbreviation (input) O_RDONLY :: u32 where "O_RDONLY \<equiv> 0"
abbreviation (input) WRONLY_CREATE :: u32 where "WRONLY_CREATE \<equiv> 0x201"

text \<open>The redirections at \<open>s\<close>, in the order of the line.\<close>

function parseredirs :: "u8 list \<Rightarrow> nat \<Rightarrow> sherr + (redir list \<times> nat)" where
  "parseredirs b s =
     (case peek b s [60, 62] of
        (False, s1) \<Rightarrow> Inr ([], s1)
      | (True, s1) \<Rightarrow>
          (case gettoken b s1 of (tok, _, s2) \<Rightarrow>
          (case gettoken b s2 of (t, w, s3) \<Rightarrow>
           if t \<noteq> 97 then Inl (Syntax ''missing file for redirection'')
           else
             andThen (parseredirs b s3) (\<lambda>(rs, s).
             Inr ((if tok = 60 then Redir w O_RDONLY 0 else Redir w WRONLY_CREATE 1) # rs, s)))))"
  by pat_completeness auto
termination
  by (relation "measure (\<lambda>(b, s). length b - s)") (auto dest: redir_decreases [OF sym sym sym])

declare parseredirs.simps [simp del]

text \<open>The loop over \<^verbatim>\<open>&\<close> of \<^verbatim>\<open>parseline\<close>.\<close>

function parse_back :: "u8 list \<Rightarrow> cmd \<Rightarrow> nat \<Rightarrow> cmd \<times> nat" where
  "parse_back b c s =
     (case peek b s [38] of
        (False, s1) \<Rightarrow> (c, s1)
      | (True, s1) \<Rightarrow> (case gettoken b s1 of (_, _, s2) \<Rightarrow> parse_back b (BACK c) s2))"
  by pat_completeness auto
termination
  by (relation "measure (\<lambda>(b, c, s). length b - s)") (auto dest: back_decreases [OF sym sym])

declare parse_back.simps [simp del]

text \<open>The loop of \<^verbatim>\<open>parseexec\<close> with room for \<open>k\<close> more entries of \<^verbatim>\<open>argv\<close>: the words and the
  redirections between them.\<close>

fun parse_args :: "nat \<Rightarrow> u8 list \<Rightarrow> nat \<Rightarrow> sherr + ((tok list \<times> redir list) \<times> nat)" where
  "parse_args 0 b s = Inl (Syntax ''too many args'')"
| "parse_args (Suc k) b s =
     (case peek b s [124, 41, 38, 59] of
        (True, s) \<Rightarrow> Inr (([], []), s)
      | (False, s) \<Rightarrow>
          (case gettoken b s of (t, w, s) \<Rightarrow>
           if t = 0 then Inr (([], []), s)
           else if t \<noteq> 97 then Inl (Syntax ''syntax'')
           else if k = 0 then Inl (Syntax ''too many args'')
           else
             andThen (parseredirs b s) (\<lambda>(rs, s).
             andThen (parse_args k b s) (\<lambda>((ws, rs'), s).
             Inr ((w # ws, rs @ rs'), s)))))"

fun parseline :: "nat \<Rightarrow> u8 list \<Rightarrow> nat \<Rightarrow> sherr + (cmd \<times> nat)"
  and parsepipe :: "nat \<Rightarrow> u8 list \<Rightarrow> nat \<Rightarrow> sherr + (cmd \<times> nat)"
  and parseexec :: "nat \<Rightarrow> u8 list \<Rightarrow> nat \<Rightarrow> sherr + (cmd \<times> nat)"
  and parseblock :: "nat \<Rightarrow> u8 list \<Rightarrow> nat \<Rightarrow> sherr + (cmd \<times> nat)" where
  "parseline 0 b s = Inl NoFuel"
| "parseline (Suc n) b s =
     andThen (parsepipe n b s) (\<lambda>(c, s).
     case parse_back b c s of (c, s) \<Rightarrow>
     (case peek b s [59] of
        (False, s) \<Rightarrow> Inr (c, s)
      | (True, s) \<Rightarrow>
          (case gettoken b s of (_, _, s) \<Rightarrow>
           andThen (parseline n b s) (\<lambda>(c', s). Inr (LIST c c', s)))))"
| "parsepipe 0 b s = Inl NoFuel"
| "parsepipe (Suc n) b s =
     andThen (parseexec n b s) (\<lambda>(c, s).
     case peek b s [124] of
       (False, s) \<Rightarrow> Inr (c, s)
     | (True, s) \<Rightarrow>
         (case gettoken b s of (_, _, s) \<Rightarrow>
          andThen (parsepipe n b s) (\<lambda>(c', s). Inr (PIPE c c', s))))"
| "parseexec 0 b s = Inl NoFuel"
| "parseexec (Suc n) b s =
     (case peek b s [40] of
        (True, s) \<Rightarrow> parseblock n b s
      | (False, s) \<Rightarrow>
          andThen (parseredirs b s) (\<lambda>(rs, s).
          andThen (parse_args MAXARGS b s) (\<lambda>((ws, rs'), s).
          Inr (foldl REDIR (EXEC ws) (rs @ rs'), s))))"
| "parseblock 0 b s = Inl NoFuel"
| "parseblock (Suc n) b s =
     (case peek b s [40] of
        (False, s) \<Rightarrow> Inl (Syntax ''parseblock'')
      | (True, s) \<Rightarrow>
          (case gettoken b s of (_, _, s) \<Rightarrow>
           andThen (parseline n b s) (\<lambda>(c, s).
           case peek b s [41] of
             (False, s) \<Rightarrow> Inl (Syntax ''syntax - missing )'')
           | (True, s) \<Rightarrow>
               (case gettoken b s of (_, _, s) \<Rightarrow>
                andThen (parseredirs b s) (\<lambda>(rs, s). Inr (foldl REDIR c rs, s))))))"

subsection \<open>Terminating the words\<close>

text \<open>On the buffer with its NUL.\<close>

fun nulterminate :: "cmd \<Rightarrow> u8 list \<Rightarrow> u8 list" where
  "nulterminate (EXEC ws) b = fold (\<lambda>w b. b[snd w := 0]) ws b"
| "nulterminate (REDIR c r) b = (nulterminate c b)[snd (rfile r) := 0]"
| "nulterminate (PIPE l r) b = nulterminate r (nulterminate l b)"
| "nulterminate (LIST l r) b = nulterminate r (nulterminate l b)"
| "nulterminate (BACK c) b = nulterminate c b"

definition parse_fuel :: "u8 list \<Rightarrow> nat" where
  "parse_fuel b = 4 * length b + 4"

definition parsecmd :: "u8 list \<Rightarrow> sherr + (cmd \<times> u8 list)" where
  "parsecmd b =
     andThen (parseline (parse_fuel b) b 0) (\<lambda>(c, s).
     case peek b s [] of (_, s) \<Rightarrow>
     if s \<noteq> length b then Inl (Syntax ''syntax'') else Inr (c, nulterminate c (b @ [0])))"


subsection \<open>Running a command\<close>

text \<open>
  \<^verbatim>\<open>runcmd\<close> as the sequence of its programs started and messages printed, its own and its children's.
  A descriptor table is a list of sixteen entries; a pipe is named by the place of its command in the
  line. Whether \<^verbatim>\<open>open\<close>, \<^verbatim>\<open>exec\<close>, \<^verbatim>\<open>fork\<close> and \<^verbatim>\<open>pipe\<close> succeed is the kernel's answer, an input.
\<close>

datatype fdobj = Inherited nat | OpenFile "u8 list" u32 | PipeR "nat list" | PipeW "nat list"

type_synonym fdtab = "fdobj option list"

record answers =
  can_open :: "nat list \<Rightarrow> u8 list \<Rightarrow> u32 \<Rightarrow> bool"
  can_exec :: "nat list \<Rightarrow> u8 list list \<Rightarrow> bool"
  can_fork :: "nat list \<Rightarrow> bool"
  can_pipe :: "nat list \<Rightarrow> bool"

datatype event = Exec "u8 list list" fdtab | ExecFailed "u8 list" | OpenFailed "u8 list" | Panicked string

definition cstr :: "u8 list \<Rightarrow> nat \<Rightarrow> u8 list" where
  "cstr b q = takeWhile (\<lambda>c. c \<noteq> 0) (drop q b)"

definition fd_close :: "nat \<Rightarrow> fdtab \<Rightarrow> fdtab" where
  "fd_close fd t = t[fd := None]"

text \<open>The lowest free descriptor, for \<^verbatim>\<open>open\<close>, \<^verbatim>\<open>dup\<close> and \<^verbatim>\<open>pipe\<close>.\<close>

definition fd_add :: "fdobj option \<Rightarrow> fdtab \<Rightarrow> (nat \<times> fdtab) option" where
  "fd_add x t = map_option (\<lambda>fd. (fd, t[fd := x])) (find_index (\<lambda>y. y = None) t)"

text \<open>What both children of a pipe do: put their end of it at descriptor \<open>fd\<close> and close both ends.\<close>

definition pipe_end :: "nat \<Rightarrow> nat \<Rightarrow> nat \<Rightarrow> nat \<Rightarrow> fdtab \<Rightarrow> fdtab" where
  "pipe_end fd mine p0 p1 t =
     (let t = fd_close fd t;
          t = (case fd_add (t ! mine) t of None \<Rightarrow> t | Some (_, t) \<Rightarrow> t)
      in fd_close p1 (fd_close p0 t))"

fun runcmd :: "answers \<Rightarrow> u8 list \<Rightarrow> cmd \<Rightarrow> nat list \<Rightarrow> fdtab \<Rightarrow> event list" where
  "runcmd env b (EXEC ws) pl t =
     (if ws = [] then []
      else let argv = map (\<lambda>w. cstr b (fst w)) ws
           in Exec argv t # (if can_exec env pl argv then [] else [ExecFailed (hd argv)]))"
| "runcmd env b (REDIR c r) pl t =
     (let f = cstr b (fst (rfile r))
      in if \<not> can_open env pl f (rmode r) then [OpenFailed f]
         else case fd_add (Some (OpenFile f (rmode r))) (fd_close (rfd r) t) of
                None \<Rightarrow> [OpenFailed f]
              | Some (_, t) \<Rightarrow> runcmd env b c (0 # pl) t)"
| "runcmd env b (LIST l r) pl t =
     (if \<not> can_fork env (0 # pl) then [Panicked ''fork'']
      else runcmd env b l (0 # pl) t @ runcmd env b r (1 # pl) t)"
| "runcmd env b (PIPE l r) pl t =
     (if \<not> can_pipe env pl then [Panicked ''pipe'']
      else case fd_add (Some (PipeR pl)) t of
             None \<Rightarrow> [Panicked ''pipe'']
           | Some (p0, t) \<Rightarrow>
               (case fd_add (Some (PipeW pl)) t of
                  None \<Rightarrow> [Panicked ''pipe'']
                | Some (p1, t) \<Rightarrow>
                    if \<not> can_fork env (0 # pl) then [Panicked ''fork'']
                    else runcmd env b l (0 # pl) (pipe_end 1 p1 p0 p1 t) @
                         (if \<not> can_fork env (1 # pl) then [Panicked ''fork'']
                          else runcmd env b r (1 # pl) (pipe_end 0 p0 p0 p1 t))))"
| "runcmd env b (BACK c) pl t =
     (if \<not> can_fork env (0 # pl) then [Panicked ''fork''] else runcmd env b c (0 # pl) t)"

subsection \<open>The main loop\<close>

text \<open>What \<^verbatim>\<open>main\<close> does with a line: change directory, leave, or run it in a child.\<close>

datatype action = Cd "u8 list" | Leave | Run

text \<open>The library's \<^verbatim>\<open>strncmp\<close> on NUL-terminated strings: whether it returns 0.\<close>

fun strncmp_eq :: "nat \<Rightarrow> u8 list \<Rightarrow> u8 list \<Rightarrow> bool" where
  "strncmp_eq 0 p q = True"
| "strncmp_eq (Suc n) p q =
     (if at p 0 \<noteq> 0 \<and> at p 0 = at q 0 then strncmp_eq n (tl p) (tl q) else at p 0 = at q 0)"

definition main_line :: "u8 list \<Rightarrow> action" where
  "main_line buf =
     (if at buf 0 = 99 \<and> at buf 1 = 100 \<and> at buf 2 = 32 then Cd (drop 3 (butlast buf))
      else if at buf 0 \<noteq> 10 \<and> strncmp_eq (length buf - 1) buf (map of_char ''exit'') then Leave
      else Run)"

subsection \<open>The parser always answers\<close>

text \<open>A word of the line: its bytes are word characters, and it is not followed by one.\<close>

definition tok_ok :: "u8 list \<Rightarrow> tok \<Rightarrow> bool" where
  "tok_ok b w \<longleftrightarrow> fst w < snd w \<and> snd w \<le> length b \<and> (\<forall>i. fst w \<le> i \<longrightarrow> i < snd w \<longrightarrow> word_char (b ! i)) \<and>
     (snd w < length b \<longrightarrow> \<not> word_char (b ! snd w))"

fun cmd_toks :: "cmd \<Rightarrow> tok list" where
  "cmd_toks (EXEC ws) = ws"
| "cmd_toks (REDIR c r) = cmd_toks c @ [rfile r]"
| "cmd_toks (PIPE l r) = cmd_toks l @ cmd_toks r"
| "cmd_toks (LIST l r) = cmd_toks l @ cmd_toks r"
| "cmd_toks (BACK c) = cmd_toks c"

definition toks_ok :: "u8 list \<Rightarrow> tok list \<Rightarrow> bool" where
  "toks_ok b ws = list_all (tok_ok b) ws"

fun fds_ok :: "cmd \<Rightarrow> bool" where
  "fds_ok (EXEC ws) = True"
| "fds_ok (REDIR c r) = (fds_ok c \<and> rfd r \<le> 1)"
| "fds_ok (PIPE l r) = (fds_ok l \<and> fds_ok r)"
| "fds_ok (LIST l r) = (fds_ok l \<and> fds_ok r)"
| "fds_ok (BACK c) = fds_ok c"

definition redirs_ok :: "u8 list \<Rightarrow> redir list \<Rightarrow> bool" where
  "redirs_ok b rs \<longleftrightarrow> toks_ok b (map rfile rs) \<and> list_all (\<lambda>r. rfd r \<le> 1) rs"

definition cmd_ok :: "u8 list \<Rightarrow> cmd \<Rightarrow> bool" where
  "cmd_ok b c \<longleftrightarrow> toks_ok b (cmd_toks c) \<and> fds_ok c"

lemma toks_ok_append [simp]: "toks_ok b (xs @ ys) \<longleftrightarrow> toks_ok b xs \<and> toks_ok b ys"
  by (simp add: toks_ok_def)

lemma cmd_ok_simps [simp]:
  "cmd_ok b (EXEC ws) \<longleftrightarrow> toks_ok b ws" "cmd_ok b (PIPE c d) \<longleftrightarrow> cmd_ok b c \<and> cmd_ok b d"
  "cmd_ok b (LIST c d) \<longleftrightarrow> cmd_ok b c \<and> cmd_ok b d" "cmd_ok b (BACK c) \<longleftrightarrow> cmd_ok b c"
  by (auto simp: cmd_ok_def)

lemma redirs_ok_simps [simp]:
  "redirs_ok b []" "redirs_ok b (r # rs) \<longleftrightarrow> tok_ok b (rfile r) \<and> rfd r \<le> 1 \<and> redirs_ok b rs"
  "redirs_ok b (rs @ qs) \<longleftrightarrow> redirs_ok b rs \<and> redirs_ok b qs"
  by (auto simp: redirs_ok_def toks_ok_def)

lemma cmd_ok_foldl [simp]: "cmd_ok b (foldl REDIR c rs) \<longleftrightarrow> cmd_ok b c \<and> redirs_ok b rs"
  by (induction rs arbitrary: c) (auto simp: cmd_ok_def toks_ok_def)

text \<open>A parser's result: an answer that is not for want of fuel, further along the line.\<close>

definition good :: "u8 list \<Rightarrow> nat \<Rightarrow> ('x \<Rightarrow> bool) \<Rightarrow> sherr + ('x \<times> nat) \<Rightarrow> bool" where
  "good b s P r = (case r of Inl e \<Rightarrow> e \<noteq> NoFuel | Inr (x, s') \<Rightarrow> s \<le> s' \<and> s' \<le> length b \<and> P x)"

lemma good_simps [simp]:
  "good b s P (Inl (Syntax m))"
  "good b s P (Inr (x, s')) \<longleftrightarrow> s \<le> s' \<and> s' \<le> length b \<and> P x"
  by (simp_all add: good_def)

lemma good_andThen:
  assumes "good b s P m"
    "\<And>x s'. s \<le> s' \<Longrightarrow> s' \<le> length b \<Longrightarrow> P x \<Longrightarrow> good b s Q (f (x, s'))"
  shows "good b s Q (andThen m f)"
  using assms by (cases m) (auto simp: good_def)

lemma good_mono: "good b s' P r \<Longrightarrow> s \<le> s' \<Longrightarrow> good b s P r"
  by (auto simp: good_def split: sum.splits)

lemma good_peek:
  assumes "s \<le> length b"
    "\<And>s1. peek b s toks = (False, s1) \<Longrightarrow> s \<le> s1 \<Longrightarrow> s1 \<le> length b \<Longrightarrow> good b s P (f s1)"
    "\<And>s1 t w s2. peek b s toks = (True, s1) \<Longrightarrow> s \<le> s1 \<Longrightarrow> s1 \<le> length b \<Longrightarrow> gettoken b s1 = (t, w, s2) \<Longrightarrow>
       s < s2 \<Longrightarrow> s2 \<le> length b \<Longrightarrow> good b s P (g s1)"
  shows "good b s P (case peek b s toks of (False, s1) \<Rightarrow> f s1 | (True, s1) \<Rightarrow> g s1)"
proof -
  obtain r s1 where p: "peek b s toks = (r, s1)" by (cases "peek b s toks")
  note pp = peek_progress [OF p assms(1)]
  show ?thesis
  proof (cases r)
    case True
    then have pt: "peek b s toks = (True, s1)" using p by simp
    obtain t q e s2 where g: "gettoken b s1 = (t, (q, e), s2)" by (metis prod.exhaust)
    from token_after_peek [OF pt g assms(1)] assms(3) [OF pt pp(1,2) g]
    show ?thesis by (simp add: pt)
  next
    case False
    then show ?thesis using assms(2) p pp by simp
  qed
qed

lemma skip_word_chars: "s \<le> i \<Longrightarrow> i < skip_word b s \<Longrightarrow> word_char (b ! i)"
proof (induction b s rule: skip_word.induct)
  case (1 b s)
  show ?case
  proof (cases "s < length b \<and> word_char (b ! s)")
    case True
    then have "skip_word b s = skip_word b (s + 1)" by (subst skip_word.simps) simp
    then show ?thesis using 1 True by (cases "i = s") auto
  next
    case False
    then have "skip_word b s = s" by (subst skip_word.simps) (simp only: if_False)
    then show ?thesis using 1 by simp
  qed
qed

lemma skip_word_stop: "skip_word b s < length b \<Longrightarrow> \<not> word_char (b ! skip_word b s)"
  by (induction b s rule: skip_word.induct)
    (subst skip_word.simps, subst (asm) skip_word.simps, auto split: if_splits)

lemma gettoken_word:
  assumes "gettoken b s = (97, w, s')" "s \<le> length b"
  shows "tok_ok b w"
proof -
  obtain q e where w: "w = (q, e)" by (cases w)
  note g = gettoken_progress [OF assms(1) [unfolded w] assms(2)]
  have "e = skip_word b q"
    using assms(1) g(6,7) by (auto simp: gettoken_def Let_def w split: if_splits prod.splits)
  then show ?thesis
    using g(3-5) skip_word_chars [of q _ b] skip_word_stop [of b q] by (auto simp: tok_ok_def w)
qed

lemma parseredirs_good: "s \<le> length b \<Longrightarrow> good b s (\<lambda>rs. redirs_ok b rs) (parseredirs b s)"
proof (induction b s rule: parseredirs.induct)
  case (1 b s)
  show ?case
    unfolding parseredirs.simps [of b s]
  proof (rule good_peek [OF 1(2)])
    fix s1
    assume "s \<le> s1" "s1 \<le> length b"
    then show "good b s (\<lambda>rs. redirs_ok b rs) (Inr ([], s1))" by (simp add: toks_ok_def)
  next
    fix s1 tok w0 s2
    assume p: "peek b s [60, 62] = (True, s1)" "gettoken b s1 = (tok, w0, s2)" "s < s2" "s2 \<le> length b"
    obtain t w s3 where g: "gettoken b s2 = (t, w, s3)" by (metis prod.exhaust)
    have s3: "s2 \<le> s3" "s3 \<le> length b"
      using gettoken_progress [of b s2 t "fst w" "snd w" s3] g p(4) by auto
    have "good b s (\<lambda>rs. redirs_ok b rs) (andThen (parseredirs b s3) (\<lambda>(rs, s).
        Inr ((if tok = 60 then Redir w O_RDONLY 0 else Redir w WRONLY_CREATE 1) # rs, s)))"
      if t: "t = 97"
    proof (rule good_andThen)
      have "good b s3 (\<lambda>rs. redirs_ok b rs) (parseredirs b s3)"
        using 1(1) [OF p(1) [symmetric] refl p(2) [symmetric] refl g [symmetric] refl] t s3(2) by simp
      then show "good b s (\<lambda>rs. redirs_ok b rs) (parseredirs b s3)"
        by (rule good_mono) (use p(3) s3(1) in linarith)
    qed (use gettoken_word [of b s2 w s3] g t p(4) in \<open>auto simp: toks_ok_def\<close>)
    then show "good b s (\<lambda>rs. redirs_ok b rs) (case gettoken b s1 of (tok, _, s2) \<Rightarrow>
        (case gettoken b s2 of (t, w, s3) \<Rightarrow>
           if t \<noteq> 97 then Inl (Syntax ''missing file for redirection'')
           else
             andThen (parseredirs b s3) (\<lambda>(rs, s).
             Inr ((if tok = 60 then Redir w O_RDONLY 0 else Redir w WRONLY_CREATE 1) # rs, s))))"
      by (simp add: p(2) g)
  qed
qed


lemma parse_back_good:
  "s \<le> length b \<Longrightarrow> parse_back b c s = (c', s') \<Longrightarrow> cmd_ok b c \<Longrightarrow>
    s \<le> s' \<and> s' \<le> length b \<and> cmd_ok b c'"
proof (induction b c s rule: parse_back.induct)
  case (1 b c s)
  obtain r s1 where p: "peek b s [38] = (r, s1)" by (cases "peek b s [38]")
  note pp = peek_progress [OF p 1(2)]
  show ?case
  proof (cases r)
    case True
    then have pt: "peek b s [38] = (True, s1)" using p by simp
    obtain t q e s2 where g: "gettoken b s1 = (t, (q, e), s2)" by (metis prod.exhaust)
    note tp = token_after_peek [OF pt g 1(2)]
    have "parse_back b (BACK c) s2 = (c', s')"
      using 1(3) by (simp add: parse_back.simps [of b c s] pt g)
    from 1(1) [OF pt [symmetric] refl g [symmetric] refl tp(2) this] 1(4) tp(1) show ?thesis by simp
  next
    case False
    then show ?thesis using 1(3,4) pp by (simp add: parse_back.simps [of b c s] p)
  qed
qed

lemma parse_args_good:
  "s \<le> length b \<Longrightarrow>
    good b s (\<lambda>(ws, rs). toks_ok b ws \<and> redirs_ok b rs) (parse_args k b s)"
proof (induction k arbitrary: s)
  case 0
  then show ?case by simp
next
  case (Suc k)
  obtain r s1 where p: "peek b s [124, 41, 38, 59] = (r, s1)" by (cases "peek b s [124, 41, 38, 59]")
  note pp = peek_progress [OF p Suc.prems]
  obtain t q e s2 where g: "gettoken b s1 = (t, (q, e), s2)" by (metis prod.exhaust)
  note gp = gettoken_progress [OF g pp(2)]
  have s2: "s \<le> s2" "s2 \<le> length b" using pp(1) gp by linarith+
  show ?case
  proof (cases r)
    case True
    then show ?thesis using p pp by (simp add: toks_ok_def)
  next
    case False
    have "good b s (\<lambda>(ws, rs). toks_ok b ws \<and> redirs_ok b rs)
        (andThen (parseredirs b s2) (\<lambda>(rs, s).
         andThen (parse_args k b s) (\<lambda>((ws, rs'), s). Inr (((q, e) # ws, rs @ rs'), s))))"
      if t: "t = 97"
    proof (rule good_andThen)
      show "good b s (\<lambda>rs. redirs_ok b rs) (parseredirs b s2)"
        by (rule good_mono [OF parseredirs_good [OF s2(2)] s2(1)])
      fix rs s3
      assume s3: "s \<le> s3" "s3 \<le> length b" and rs: "redirs_ok b rs"
      have w: "tok_ok b (q, e)" using gettoken_word [of b s1 "(q, e)" s2] g t pp(2) by simp
      have "good b s (\<lambda>(ws, rs). toks_ok b ws \<and> redirs_ok b rs)
          (andThen (parse_args k b s3) (\<lambda>((ws, rs'), s). Inr (((q, e) # ws, rs @ rs'), s)))"
        by (rule good_andThen [OF good_mono [OF Suc.IH [OF s3(2)] s3(1)]])
          (use w rs in \<open>auto simp: toks_ok_def\<close>)
      then show "good b s (\<lambda>(ws, rs). toks_ok b ws \<and> redirs_ok b rs)
          (case (rs, s3) of (rs, s) \<Rightarrow>
             andThen (parse_args k b s) (\<lambda>((ws, rs'), s). Inr (((q, e) # ws, rs @ rs'), s)))"
        by simp
    qed
    then show ?thesis using False p g s2 by (simp add: toks_ok_def)
  qed
qed

abbreviation (input) good_cmd :: "u8 list \<Rightarrow> nat \<Rightarrow> sherr + (cmd \<times> nat) \<Rightarrow> bool" where
  "good_cmd b s r \<equiv> good b s (\<lambda>c. cmd_ok b c) r"

lemma parseline_step:
  assumes pipe: "good_cmd b s (parsepipe n b s)"
    and line: "\<And>s'. s < s' \<Longrightarrow> s' \<le> length b \<Longrightarrow> good_cmd b s' (parseline n b s')"
  shows "good_cmd b s (parseline (Suc n) b s)"
  unfolding parseline.simps
proof (rule good_andThen [OF pipe])
  fix c s1
  assume s1: "s \<le> s1" "s1 \<le> length b" and c: "cmd_ok b c"
  obtain c2 s2 where pb: "parse_back b c s1 = (c2, s2)" by (cases "parse_back b c s1")
  have s2: "s1 \<le> s2" "s2 \<le> length b" "cmd_ok b c2"
    using parse_back_good [OF s1(2) pb c] by simp_all
  have "good_cmd b s2 (case peek b s2 [59] of
        (False, s) \<Rightarrow> Inr (c2, s)
      | (True, s) \<Rightarrow>
          (case gettoken b s of (_, _, s) \<Rightarrow>
           andThen (parseline n b s) (\<lambda>(c', s). Inr (LIST c2 c', s))))"
  proof (rule good_peek [OF s2(2)])
    fix s3 assume "s2 \<le> s3" "s3 \<le> length b"
    then show "good_cmd b s2 (Inr (c2, s3))" using s2(3) by simp
  next
    fix s3 t w s4
    assume g: "gettoken b s3 = (t, w, s4)" "s2 < s4" "s4 \<le> length b"
    have "good_cmd b s2 (andThen (parseline n b s4) (\<lambda>(c', s). Inr (LIST c2 c', s)))"
      by (rule good_andThen [OF good_mono [OF line]]) (use g s1 s2 in auto)
    then show "good_cmd b s2 (case gettoken b s3 of (_, _, s) \<Rightarrow>
        andThen (parseline n b s) (\<lambda>(c', s). Inr (LIST c2 c', s)))"
      by (simp add: g(1))
  qed
  from good_mono [OF this, of s] s1(1) s2(1)
  show "good_cmd b s (case (c, s1) of (c, s) \<Rightarrow> case parse_back b c s of (c, s) \<Rightarrow>
     (case peek b s [59] of
        (False, s) \<Rightarrow> Inr (c, s)
      | (True, s) \<Rightarrow>
          (case gettoken b s of (_, _, s) \<Rightarrow>
           andThen (parseline n b s) (\<lambda>(c', s). Inr (LIST c c', s)))))"
    by (simp add: pb)
qed

lemma parsepipe_step:
  assumes ex: "good_cmd b s (parseexec n b s)"
    and pipe: "\<And>s'. s < s' \<Longrightarrow> s' \<le> length b \<Longrightarrow> good_cmd b s' (parsepipe n b s')"
  shows "good_cmd b s (parsepipe (Suc n) b s)"
  unfolding parsepipe.simps
proof (rule good_andThen [OF ex])
  fix c s1
  assume s1: "s \<le> s1" "s1 \<le> length b" and c: "cmd_ok b c"
  have "good_cmd b s1 (case peek b s1 [124] of
       (False, s) \<Rightarrow> Inr (c, s)
     | (True, s) \<Rightarrow>
         (case gettoken b s of (_, _, s) \<Rightarrow>
          andThen (parsepipe n b s) (\<lambda>(c', s). Inr (PIPE c c', s))))"
  proof (rule good_peek [OF s1(2)])
    fix s3 assume "s1 \<le> s3" "s3 \<le> length b"
    then show "good_cmd b s1 (Inr (c, s3))" using c by simp
  next
    fix s3 t w s4
    assume g: "gettoken b s3 = (t, w, s4)" "s1 < s4" "s4 \<le> length b"
    have "good_cmd b s1 (andThen (parsepipe n b s4) (\<lambda>(c', s). Inr (PIPE c c', s)))"
      by (rule good_andThen [OF good_mono [OF pipe]]) (use g s1 c in auto)
    then show "good_cmd b s1 (case gettoken b s3 of (_, _, s) \<Rightarrow>
        andThen (parsepipe n b s) (\<lambda>(c', s). Inr (PIPE c c', s)))"
      by (simp add: g(1))
  qed
  from good_mono [OF this s1(1)]
  show "good_cmd b s (case (c, s1) of (c, s) \<Rightarrow> case peek b s [124] of
       (False, s) \<Rightarrow> Inr (c, s)
     | (True, s) \<Rightarrow>
         (case gettoken b s of (_, _, s) \<Rightarrow>
          andThen (parsepipe n b s) (\<lambda>(c', s). Inr (PIPE c c', s))))"
    by simp
qed

lemma simple_good:
  assumes "s \<le> length b"
  shows "good_cmd b s (andThen (parseredirs b s) (\<lambda>(rs, s).
     andThen (parse_args MAXARGS b s) (\<lambda>((ws, rs'), s). Inr (foldl REDIR (EXEC ws) (rs @ rs'), s))))"
proof (rule good_andThen [OF parseredirs_good [OF assms]])
  fix rs s1
  assume s1: "s \<le> s1" "s1 \<le> length b" and rs: "redirs_ok b rs"
  have "good_cmd b s1 (andThen (parse_args MAXARGS b s1)
      (\<lambda>((ws, rs'), s). Inr (foldl REDIR (EXEC ws) (rs @ rs'), s)))"
    by (rule good_andThen [OF parse_args_good [OF s1(2)]]) (use rs in auto)
  from good_mono [OF this s1(1)]
  show "good_cmd b s (case (rs, s1) of (rs, s) \<Rightarrow> andThen (parse_args MAXARGS b s)
      (\<lambda>((ws, rs'), s). Inr (foldl REDIR (EXEC ws) (rs @ rs'), s)))"
    by simp
qed

lemma parseexec_step:
  assumes s: "s \<le> length b"
    and block: "\<And>s'. s \<le> s' \<Longrightarrow> s' \<le> length b \<Longrightarrow> good_cmd b s' (parseblock n b s')"
  shows "good_cmd b s (parseexec (Suc n) b s)"
proof -
  obtain r s1 where p: "peek b s [40] = (r, s1)" by (cases "peek b s [40]")
  note pp = peek_progress [OF p s]
  show ?thesis
    using good_mono [OF simple_good [OF pp(2)] pp(1)] good_mono [OF block [OF pp(1,2)] pp(1)] p
    by (cases r) simp_all
qed

lemma parseblock_step:
  assumes s: "s \<le> length b"
    and line: "\<And>s'. s < s' \<Longrightarrow> s' \<le> length b \<Longrightarrow> good_cmd b s' (parseline n b s')"
  shows "good_cmd b s (parseblock (Suc n) b s)"
  unfolding parseblock.simps
proof (rule good_peek [OF s])
  fix s1 show "good_cmd b s (Inl (Syntax ''parseblock''))" by simp
next
  fix s1 t w s2
  assume g: "gettoken b s1 = (t, w, s2)" "s < s2" "s2 \<le> length b"
  let ?k = "\<lambda>c s. case peek b s [41] of
             (False, s) \<Rightarrow> Inl (Syntax ''syntax - missing )'')
           | (True, s) \<Rightarrow>
               (case gettoken b s of (_, _, s) \<Rightarrow>
                andThen (parseredirs b s) (\<lambda>(rs, s). Inr (foldl REDIR c rs, s)))"
  have "good_cmd b s (andThen (parseline n b s2) (\<lambda>(c, s). ?k c s))"
  proof (rule good_andThen [OF good_mono [OF line [OF g(2,3)]]])
    show "s \<le> s2" using g(2) by simp
    fix c s3
    assume s3: "s \<le> s3" "s3 \<le> length b" and c: "cmd_ok b c"
    have "good_cmd b s3 (?k c s3)"
    proof (rule good_peek [OF s3(2)])
      fix s4 show "good_cmd b s3 (Inl (Syntax ''syntax - missing )''))" by simp
    next
      fix s4 t' w' s5
      assume g2: "gettoken b s4 = (t', w', s5)" "s3 < s5" "s5 \<le> length b"
      have "good_cmd b s5 (andThen (parseredirs b s5) (\<lambda>(rs, s). Inr (foldl REDIR c rs, s)))"
        by (rule good_andThen [OF parseredirs_good [OF g2(3)]]) (use c in auto)
      from good_mono [OF this, of s3] g2(2)
      show "good_cmd b s3 (case gettoken b s4 of (_, _, s) \<Rightarrow>
          andThen (parseredirs b s) (\<lambda>(rs, s). Inr (foldl REDIR c rs, s)))"
        by (simp add: g2(1))
    qed
    from good_mono [OF this s3(1)] show "good_cmd b s (case (c, s3) of (c, s) \<Rightarrow> ?k c s)" by simp
  qed
  then show "good_cmd b s (case gettoken b s1 of (_, _, s) \<Rightarrow>
      andThen (parseline n b s) (\<lambda>(c, s). ?k c s))"
    by (simp add: g(1))
qed

text \<open>The four functions together; the fuel each needs at position \<open>s\<close>.\<close>

lemma parsers_good:
  "\<forall>s \<le> length b. (4 * (length b - s) + 4 \<le> n \<longrightarrow> good_cmd b s (parseline n b s)) \<and>
     (4 * (length b - s) + 3 \<le> n \<longrightarrow> good_cmd b s (parsepipe n b s)) \<and>
     (4 * (length b - s) + 2 \<le> n \<longrightarrow> good_cmd b s (parseexec n b s)) \<and>
     (4 * (length b - s) + 1 \<le> n \<longrightarrow> good_cmd b s (parseblock n b s))"
proof (induction n)
  case 0
  then show ?case by simp
next
  case (Suc n)
  show ?case
  proof (intro allI impI conjI)
    fix s
    assume s: "s \<le> length b"
    have next': "4 * (length b - s') + 4 \<le> n" if "s < s'" "s' \<le> length b" "4 * (length b - s) + 1 \<le> Suc n" for s'
      using that s by linarith
    {
      assume "4 * (length b - s) + 4 \<le> Suc n"
      then show "good_cmd b s (parseline (Suc n) b s)"
        using Suc s next' by (intro parseline_step) auto
    next
      assume "4 * (length b - s) + 3 \<le> Suc n"
      then show "good_cmd b s (parsepipe (Suc n) b s)"
        using Suc s next' by (intro parsepipe_step) (auto intro: le_trans)
    next
      assume n: "4 * (length b - s) + 2 \<le> Suc n"
      have "4 * (length b - s') + 1 \<le> n" if "s \<le> s'" "s' \<le> length b" for s' using that n by linarith
      then show "good_cmd b s (parseexec (Suc n) b s)"
        using Suc s by (intro parseexec_step) auto
    next
      assume "4 * (length b - s) + 1 \<le> Suc n"
      then show "good_cmd b s (parseblock (Suc n) b s)"
        using Suc s next' by (intro parseblock_step) auto
    }
  qed
qed


lemma parsecmd_good: "good_cmd b 0 (parseline (parse_fuel b) b 0)"
  using parsers_good [of b "parse_fuel b"] by (simp add: parse_fuel_def)

lemma parsecmd_ok: "parsecmd b = Inr (c, b') \<Longrightarrow> cmd_ok b c \<and> b' = nulterminate c (b @ [0])"
proof -
  assume a: "parsecmd b = Inr (c, b')"
  then obtain c1 s where l: "parseline (parse_fuel b) b 0 = Inr (c1, s)" by (auto simp: parsecmd_def)
  obtain x y where "peek b s [] = (x, y)" by (cases "peek b s []")
  with a l parsecmd_good [of b] show ?thesis by (auto simp: parsecmd_def split: if_splits)
qed

text \<open>C25: parsing a command line always ends. Whatever bytes the line has, the recursive-descent
  parser with its loops over redirections, arguments and background marks returns a command or a
  syntax error; recursion as deep as four calls per byte of the line is enough.\<close>

theorem parsecmd_terminates: "parsecmd b \<noteq> Inl NoFuel"
  using parsecmd_good [of b]
  by (auto simp: parsecmd_def good_def andThen_eq_Inl split: prod.splits if_splits)

subsection \<open>The words of a command\<close>

lemma nulterminate_fold: "nulterminate c b = fold (\<lambda>w b. b[snd w := 0]) (cmd_toks c) b"
  by (induction c b rule: nulterminate.induct) simp_all

lemma length_nul_fold: "length (fold (\<lambda>w b. b[snd w := 0]) ws b) = length b"
  by (induction ws arbitrary: b) simp_all

lemma nth_nul_fold:
  "i < length b \<Longrightarrow> fold (\<lambda>w b. b[snd w := 0]) ws b ! i = (if i \<in> snd ` set ws then 0 else b ! i)"
  by (induction ws arbitrary: b) (auto simp: nth_list_update)

lemma tok_disjoint:
  assumes "tok_ok b w" "tok_ok b v" "fst w \<le> i" "i < snd w"
  shows "i \<noteq> snd v"
  using assms by (auto simp: tok_ok_def)

text \<open>C24: terminating the words in place is safe. After \<^verbatim>\<open>parsecmd\<close> every argument and every file name
  of the command, read as a C string in the modified buffer, is exactly the word the parser saw,
  although the NULs are written into the line the words share: no word is cut short and no word
  runs on into the next.\<close>

theorem words_terminated:
  assumes "parsecmd b = Inr (c, b')" "0 \<notin> set b" "w \<in> set (cmd_toks c)"
  shows "cstr b' (fst w) = take (snd w - fst w) (drop (fst w) b) \<and> fst w < snd w"
proof -
  let ?q = "fst w" and ?e = "snd w"
  have c: "cmd_ok b c" and b': "b' = fold (\<lambda>w b. b[snd w := 0]) (cmd_toks c) (b @ [0])"
    using parsecmd_ok [OF assms(1)] by (simp_all add: nulterminate_fold)
  have toks: "tok_ok b v" if "v \<in> set (cmd_toks c)" for v
    using c that by (simp add: cmd_ok_def toks_ok_def list_all_iff)
  have w: "?q < ?e" "?e \<le> length b" using toks [OF assms(3)] by (simp_all add: tok_ok_def)
  have keep: "b' ! i = b ! i \<and> b' ! i \<noteq> 0" if "?q \<le> i" "i < ?e" for i
  proof -
    have "i \<notin> snd ` set (cmd_toks c)"
      using tok_disjoint [OF toks [OF assms(3)] toks that] by blast
    then have "b' ! i = b ! i"
      using that w nth_nul_fold [of i "b @ [0]" "cmd_toks c"] by (simp add: b' nth_append)
    then show ?thesis using that w assms(2) by (metis le_trans less_le_trans nth_mem)
  qed
  have stop: "b' ! ?e = 0"
    using assms(3) w nth_nul_fold [of ?e "b @ [0]" "cmd_toks c"] by (simp add: b')
  have len: "length b' = length b + 1" by (simp add: b' length_nul_fold)
  have "takeWhile (\<lambda>c. c \<noteq> 0) (drop ?q b') = take (?e - ?q) (drop ?q b')"
  proof (rule takeWhile_eq_take_P_nth)
    fix i assume "i < ?e - ?q" "i < length (drop ?q b')"
    then have "?q + i < ?e" by simp
    then show "drop ?q b' ! i \<noteq> 0" using keep [of "?q + i"] w len by auto
  qed (use stop w len in simp)
  also have "\<dots> = take (?e - ?q) (drop ?q b)"
  proof (rule nth_equalityI)
    fix i assume "i < length (take (?e - ?q) (drop ?q b'))"
    then show "take (?e - ?q) (drop ?q b') ! i = take (?e - ?q) (drop ?q b) ! i"
      using keep [of "?q + i"] w len by simp
  qed (use w len in simp)
  finally show ?thesis using w(1) by (simp add: cstr_def)
qed

text \<open>\<^verbatim>\<open>ls>out\<close>\<close>

theorem words_terminated_witness:
  "\<exists>b'. parsecmd [108, 115, 62, 111, 117, 116] =
      Inr (REDIR (EXEC [(0, 2)]) (Redir (3, 6) WRONLY_CREATE 1), b') \<and> cstr b' 3 = [111, 117, 116]"
proof -
  have p: "parsecmd [108, 115, 62, 111, 117, 116] =
      Inr (REDIR (EXEC [(0, 2)]) (Redir (3, 6) WRONLY_CREATE 1), [108, 115, 0, 111, 117, 116, 0])"
    by code_simp
  have "cstr [108, 115, 0, 111, 117, 116, 0] 3 = [111, 117, 116]"
    using words_terminated [OF p, of "(3, 6)"] by simp
  with p show ?thesis by blast
qed

subsection \<open>Descriptors\<close>

definition three_open :: "fdtab \<Rightarrow> bool" where
  "three_open t \<longleftrightarrow> (\<exists>x y z. t = [Some x, Some y, Some z] @ replicate 13 None)"

lemma redirect_open:
  assumes "three_open t" "fd \<le> 1"
  obtains t' where "fd_add (Some x) (fd_close fd t) = Some (fd, t')" "three_open t'" "t' ! fd = Some x"
proof -
  obtain a b c where t: "t = [Some a, Some b, Some c] @ replicate 13 None"
    using assms(1) by (auto simp: three_open_def)
  have "fd = 0 \<or> fd = 1" using assms(2) by auto
  then show thesis
    using that [of "t[fd := Some x]"] t by (auto simp: fd_add_def fd_close_def three_open_def)
qed

lemma pipe_open:
  assumes "three_open t"
  obtains t1 t2 where "fd_add (Some r) t = Some (3, t1)" "fd_add (Some w) t1 = Some (4, t2)"
    "three_open (pipe_end 1 4 3 4 t2)" "three_open (pipe_end 0 3 3 4 t2)"
    "pipe_end 1 4 3 4 t2 ! 1 = Some w" "pipe_end 0 3 3 4 t2 ! 0 = Some r"
proof -
  obtain a b c where t: "t = [Some a, Some b, Some c] @ replicate 13 None"
    using assms(1) by (auto simp: three_open_def)
  have r: "replicate 13 (None :: fdobj option) = None # None # replicate 11 None"
    by (simp add: numeral_eq_Suc)
  show thesis
    by (rule that [of "[Some a, Some b, Some c, Some r, None] @ replicate 11 None"
          "[Some a, Some b, Some c, Some r, Some w] @ replicate 11 None"])
      (simp_all add: t r fd_add_def pipe_end_def fd_close_def three_open_def Let_def)
qed

text \<open>C26: programs start with a clean descriptor table. Whatever the command line, every program the
  shell starts, at any depth of pipelines, lists, background commands and redirections, has exactly
  descriptors 0, 1 and 2 open: no end of a pipe leaks into a program, so that its reader sees the
  end of file when the writers are done.\<close>

theorem exec_descriptors:
  assumes "parsecmd b = Inr (c, b')" "three_open t" "Exec argv t' \<in> set (runcmd env b' c pl t)"
  shows "three_open t'"
proof -
  have "fds_ok c" using parsecmd_ok [OF assms(1)] by (simp add: cmd_ok_def)
  then show ?thesis using assms(2,3)
  proof (induction env b' c pl t rule: runcmd.induct)
    case (1 env b ws pl t)
    then show ?case by (auto simp: Let_def split: if_splits)
  next
    case (2 env b c r pl t)
    obtain t1 where "fd_add (Some (OpenFile (cstr b (fst (rfile r))) (rmode r))) (fd_close (rfd r) t) = Some (rfd r, t1)"
      "three_open t1"
      using redirect_open [OF 2(3)] 2(2) by (metis fds_ok.simps(2))
    then show ?case using 2 by (auto simp: Let_def split: if_splits)
  next
    case (3 env b l r pl t)
    then show ?case by (auto split: if_splits)
  next
    case (4 env b l r pl t)
    obtain t1 t2 where "fd_add (Some (PipeR pl)) t = Some (3, t1)" "fd_add (Some (PipeW pl)) t1 = Some (4, t2)"
      "three_open (pipe_end 1 4 3 4 t2)" "three_open (pipe_end 0 3 3 4 t2)"
      using pipe_open [OF 4(4)] by metis
    then show ?case using 4 by (auto split: if_splits)
  next
    case (5 env b c pl t)
    then show ?case by (auto split: if_splits)
  qed
qed

text \<open>\<^verbatim>\<open>a|b\<close>\<close>

definition std_fds :: fdtab where
  "std_fds = [Some (Inherited 0), Some (Inherited 1), Some (Inherited 2)] @ replicate 13 None"

definition yes :: answers where
  "yes = \<lparr>can_open = (\<lambda>_ _ _. True), can_exec = (\<lambda>_ _. True), can_fork = (\<lambda>_. True), can_pipe = (\<lambda>_. True)\<rparr>"

theorem exec_descriptors_witness:
  "\<exists>t'. Exec [[97]] t' \<in> set (runcmd yes [97, 0, 98, 0] (PIPE (EXEC [(0, 1)]) (EXEC [(2, 3)])) [] std_fds) \<and>
     three_open t'"
proof -
  have p: "parsecmd [97, 124, 98] = Inr (PIPE (EXEC [(0, 1)]) (EXEC [(2, 3)]), [97, 0, 98, 0])"
    by code_simp
  have e: "Exec [[97]] ([Some (Inherited 0), Some (PipeW []), Some (Inherited 2)] @ replicate 13 None)
      \<in> set (runcmd yes [97, 0, 98, 0] (PIPE (EXEC [(0, 1)]) (EXEC [(2, 3)])) [] std_fds)"
    by code_simp
  have "three_open std_fds" by (auto simp: three_open_def std_fds_def)
  from exec_descriptors [OF p this e] e show ?thesis by blast
qed

subsection \<open>Leaving the shell\<close>

lemma strncmp_eq_take:
  "n \<le> length p \<Longrightarrow> 0 \<notin> set p \<Longrightarrow> 0 \<notin> set q \<Longrightarrow> strncmp_eq n p q \<longleftrightarrow> take n p = take n q"
proof (induction n arbitrary: p q)
  case 0
  then show ?case by simp
next
  case (Suc n)
  then obtain x p' where "p = x # p'" by (cases p) auto
  then show ?case using Suc by (cases q) (auto simp: at_def)
qed



end
