(* ===== verification/Kbd.thy ===== *)
theory Kbd
  imports Console
begin

text \<open>
  The keyboard driver (\<^verbatim>\<open>kbd.c\<close> with the tables of \<^verbatim>\<open>kbd.h\<close>). The two ports the driver reads are
  inputs; its static variable \<^verbatim>\<open>shift\<close> is passed along. Shown: the driver's results and state stay
  within their types, the modifier bits follow the keys held down over any stream of scan codes, and
  shift and caps lock together choose the case of letters.
\<close>

unbundle bit_operations_syntax

subsection \<open>Tables\<close>

abbreviation (input) KBS_DIB :: u8 where "KBS_DIB \<equiv> 1"
abbreviation (input) SHIFT :: u32 where "SHIFT \<equiv> 1"
abbreviation (input) CTL :: u32 where "CTL \<equiv> 2"
abbreviation (input) ALT :: u32 where "ALT \<equiv> 4"
abbreviation (input) CAPSLOCK :: u32 where "CAPSLOCK \<equiv> 8"
abbreviation (input) NUMLOCK :: u32 where "NUMLOCK \<equiv> 16"
abbreviation (input) SCROLLLOCK :: u32 where "SCROLLLOCK \<equiv> 32"
abbreviation (input) E0ESC :: u32 where "E0ESC \<equiv> 64"

definition shiftcode :: "u8 \<Rightarrow> u32" where
  "shiftcode d =
     (if d = 0x1D then CTL else if d = 0x2A then SHIFT else if d = 0x36 then SHIFT
      else if d = 0x38 then ALT else if d = 0x9D then CTL else if d = 0xB8 then ALT else 0)"

definition togglecode :: "u8 \<Rightarrow> u32" where
  "togglecode d =
     (if d = 0x3A then CAPSLOCK else if d = 0x45 then NUMLOCK else if d = 0x46 then SCROLLLOCK else 0)"

text \<open>The entries the three maps give by index: the keypad's enter and divide keys and the special
  keys.\<close>

definition extended :: "u8 \<Rightarrow> u8 \<Rightarrow> u8 \<Rightarrow> u8" where
  "extended enter slash d =
     (if d = 0x9C then enter else if d = 0xB5 then slash
      else if d = 0xC8 then 0xE2 else if d = 0xD0 then 0xE3
      else if d = 0xC9 then 0xE6 else if d = 0xD1 then 0xE7
      else if d = 0xCB then 0xE4 else if d = 0xCD then 0xE5
      else if d = 0x97 then 0xE0 else if d = 0xCF then 0xE1
      else if d = 0xD2 then 0xE8 else if d = 0xD3 then 0xE9 else 0)"

definition normalmap :: "u8 \<Rightarrow> u8" where
  "normalmap d =
    (if unat d < 88 then
    ([0, 27, 49, 50, 51, 52, 53, 54, 55, 56, 57, 48, 45, 61, 8, 9,
     113, 119, 101, 114, 116, 121, 117, 105, 111, 112, 91, 93, 10, 0, 97, 115,
     100, 102, 103, 104, 106, 107, 108, 59, 39, 96, 0, 92, 122, 120, 99, 118,
     98, 110, 109, 44, 46, 47, 0, 42, 0, 32, 0, 0, 0, 0, 0, 0,
     0, 0, 0, 0, 0, 0, 0, 55, 56, 57, 45, 52, 53, 54, 43, 49,
     50, 51, 48, 46, 0, 0, 0, 0]) ! unat d
     else extended 10 47 d)"

definition shiftmap :: "u8 \<Rightarrow> u8" where
  "shiftmap d =
    (if unat d < 88 then
    ([0, 27, 33, 64, 35, 36, 37, 94, 38, 42, 40, 41, 95, 43, 8, 9,
     81, 87, 69, 82, 84, 89, 85, 73, 79, 80, 123, 125, 10, 0, 65, 83,
     68, 70, 71, 72, 74, 75, 76, 58, 34, 126, 0, 124, 90, 88, 67, 86,
     66, 78, 77, 60, 62, 63, 0, 42, 0, 32, 0, 0, 0, 0, 0, 0,
     0, 0, 0, 0, 0, 0, 0, 55, 56, 57, 45, 52, 53, 54, 43, 49,
     50, 51, 48, 46, 0, 0, 0, 0]) ! unat d
     else extended 10 47 d)"

definition ctlmap :: "u8 \<Rightarrow> u8" where
  "ctlmap d =
    (if unat d < 56 then
    ([0, 0, 0, 0, 0, 0, 0, 0, 0, 0, 0, 0, 0, 0, 0, 0,
     17, 23, 5, 18, 20, 25, 21, 9, 15, 16, 0, 0, 13, 0, 1, 19,
     4, 6, 7, 8, 10, 11, 12, 0, 0, 0, 0, 28, 26, 24, 3, 22,
     2, 14, 13, 0, 0, 239, 0, 0]) ! unat d
     else extended 13 (47 - 64) d)"

text \<open>\<^verbatim>\<open>charcode[i][data]\<close>, for an index of two bits\<close>

definition charcode :: "u32 \<Rightarrow> u8 \<Rightarrow> u8" where
  "charcode i = (if i = 0 then normalmap else if i = 1 then shiftmap else ctlmap)"

definition caps_swap :: "int \<Rightarrow> int" where
  "caps_swap c =
     (if 97 \<le> c \<and> c \<le> 122 then c + (65 - 97) else if 65 \<le> c \<and> c \<le> 90 then c + (97 - 65) else c)"

subsection \<open>The driver\<close>

definition kbdgetc :: "u8 \<Rightarrow> u8 \<Rightarrow> u32 \<Rightarrow> int \<times> u32" where
  "kbdgetc st data shift =
     (if st AND KBS_DIB = 0 then (-1, shift)
      else if data = 0xE0 then (0, shift OR E0ESC)
      else if data AND 0x80 \<noteq> 0 then
        let data = (if shift AND E0ESC \<noteq> 0 then data else data AND 0x7F)
        in (0, shift AND NOT (shiftcode data OR E0ESC))
      else
        let (data, shift) =
              (if shift AND E0ESC \<noteq> 0 then (data OR 0x80, shift AND NOT E0ESC) else (data, shift));
            shift = shift OR shiftcode data;
            shift = shift XOR togglecode data;
            c = uint (charcode (shift AND (CTL OR SHIFT)) data)
        in (if shift AND CAPSLOCK \<noteq> 0 then caps_swap c else c, shift))"

text \<open>\<^verbatim>\<open>kbdintr\<close>: the console asks for characters until the driver has none. A reading of the ports is the
  status and the data byte.\<close>

fun kbd_chars :: "(u8 \<times> u8) list \<Rightarrow> u32 \<Rightarrow> int list \<times> u32" where
  "kbd_chars [] shift = ([], shift)"
| "kbd_chars ((st, data) # ps) shift =
     (case kbdgetc st data shift of (c, shift) \<Rightarrow>
        if c < 0 then ([], shift)
        else case kbd_chars ps shift of (cs, shift) \<Rightarrow> (c # cs, shift))"

definition kbdintr :: "(u8 \<times> u8) list \<Rightarrow> u32 \<Rightarrow> 'a kcons_scheme \<Rightarrow> (u32 \<times> 'a kcons_scheme) kres" where
  "kbdintr ps shift s =
     (case kbd_chars ps shift of (cs, shift) \<Rightarrow> andThen (consoleintr cs s) (\<lambda>s. Inr (shift, s)))"

subsection \<open>Types\<close>

text \<open>The state uses seven bits, one per modifier, lock and the escape.\<close>

definition shift_ok :: "u32 \<Rightarrow> bool" where
  "shift_ok s \<longleftrightarrow> take_bit 7 s = s"

lemma shift_ok_bit: "shift_ok s \<longleftrightarrow> (\<forall>n. bit s n \<longrightarrow> n < 7)"
  unfolding shift_ok_def bit_eq_iff [of "take_bit 7 s"]
  by (auto simp: bit_take_bit_iff) (use bit_imp_le_length [of s] in auto)

lemma shift_ok_codes: "shift_ok (shiftcode d)" "shift_ok (togglecode d)"
  by (simp_all add: shift_ok_def shiftcode_def togglecode_def)

lemma shift_ok_ops:
  "shift_ok s \<Longrightarrow> shift_ok (s AND x)"
  "shift_ok s \<Longrightarrow> shift_ok x \<Longrightarrow> shift_ok (s OR x)"
  "shift_ok s \<Longrightarrow> shift_ok x \<Longrightarrow> shift_ok (s XOR x)"
  by (auto simp: shift_ok_bit bit_and_iff bit_or_iff bit_xor_iff)

lemma shift_ok_E0ESC: "shift_ok E0ESC"
  by (simp add: shift_ok_def)

lemmas shift_ok_rules = shift_ok_ops shift_ok_codes shift_ok_E0ESC

lemma caps_swap_range: "0 \<le> c \<Longrightarrow> c \<le> 255 \<Longrightarrow> 0 \<le> caps_swap c \<and> caps_swap c \<le> 255"
  by (simp add: caps_swap_def)

lemma key_range:
  "uint (x :: u8) \<le> 255" "-1 \<le> uint x" "caps_swap (uint x) \<le> 255" "-1 \<le> caps_swap (uint x)"
proof -
  have u: "0 \<le> uint x" "uint x \<le> 255" using uint_lt2p [of x] by simp_all
  then show "uint x \<le> 255" "-1 \<le> uint x" by linarith+
  from caps_swap_range [OF u] show "caps_swap (uint x) \<le> 255" "-1 \<le> caps_swap (uint x)" by linarith+
qed

lemma kbdgetc_range: "-1 \<le> fst (kbdgetc st d s) \<and> fst (kbdgetc st d s) \<le> 255"
  using key_range by (simp add: kbdgetc_def Let_def split: if_split)

lemma kbdgetc_state: "shift_ok s \<Longrightarrow> shift_ok (snd (kbdgetc st d s))"
  by (auto simp: kbdgetc_def Let_def intro!: shift_ok_rules)



subsection \<open>Modifiers\<close>

text \<open>
  What the stream of scan codes says, read on its own: each code presses or releases a key, an escape
  byte makes the next code one of the extended keys, which are numbered from 128.
\<close>

datatype kev = Press u8 | Release u8

fun keys :: "bool \<Rightarrow> u8 list \<Rightarrow> kev list" where
  "keys e [] = []"
| "keys e (d # ds) =
     (if d = 0xE0 then keys True ds
      else if d AND 0x80 \<noteq> 0 then Release (if e then d else d AND 0x7F) # keys False ds
      else Press (if e then d OR 0x80 else d) # keys False ds)"

fun held :: "u8 set \<Rightarrow> kev list \<Rightarrow> bool \<Rightarrow> bool" where
  "held m [] h = h"
| "held m (Press k # es) h = held m es (h \<or> k \<in> m)"
| "held m (Release k # es) h = held m es (h \<and> k \<notin> m)"

definition down :: "u8 set \<Rightarrow> kev list \<Rightarrow> bool" where
  "down m es \<longleftrightarrow> (\<exists>pre k post. es = pre @ Press k # post \<and> k \<in> m \<and> (\<forall>j \<in> m. Release j \<notin> set post))"

lemma held_down: "held m es h \<longleftrightarrow> down m es \<or> h \<and> (\<forall>j \<in> m. Release j \<notin> set es)"
proof (induction m es h rule: held.induct)
  case (1 m h)
  then show ?case by (simp add: down_def)
next
  case (2 m k es h)
  have "down m (Press k # es) \<longleftrightarrow> down m es \<or> k \<in> m \<and> (\<forall>j \<in> m. Release j \<notin> set es)"
    unfolding down_def Cons_eq_append_conv by blast
  then show ?case using 2 by auto
next
  case (3 m k es h)
  have "down m (Release k # es) \<longleftrightarrow> down m es"
    unfolding down_def Cons_eq_append_conv by blast
  then show ?case using 3 by auto
qed

definition kbd_run :: "u8 list \<Rightarrow> u32 \<Rightarrow> u32" where
  "kbd_run ds s = snd (kbd_chars (map (\<lambda>d. (1, d)) ds) s)"

lemma kbdgetc_nonneg: "0 \<le> fst (kbdgetc 1 d s)"
proof -
  have "0 \<le> caps_swap (uint (x :: u8))" for x
    using uint_lt2p [of x] caps_swap_range [of "uint x"] by simp
  then show ?thesis by (simp add: kbdgetc_def Let_def)
qed

lemma kbd_run_Cons: "kbd_run (d # ds) s = kbd_run ds (snd (kbdgetc 1 d s))"
  using kbdgetc_nonneg [of d s] by (auto simp: kbd_run_def split: prod.splits)

lemma bit_flag: "(s :: u32) AND 64 \<noteq> 0 \<longleftrightarrow> bit s 6"
proof -
  have "(64 :: u32) = push_bit 6 1" by simp
  then show ?thesis using and_exp_eq_0_iff_not_bit [of s 6] by simp
qed

lemma bit_64: "bit (64 :: u32) n \<longleftrightarrow> n = 6"
proof -
  have "(64 :: u32) = 2 ^ 6" by simp
  then show ?thesis by (simp only: bit_exp_iff) auto
qed

lemma bit_not_64: "bit (s AND -65 :: u32) n \<longleftrightarrow> bit s n \<and> n \<noteq> 6"
proof -
  have "(-65 :: u32) = NOT 64" by simp
  then show ?thesis using bit_imp_le_length [of s n] by (auto simp only: bit_and_iff bit_not_iff bit_64 possible_bit_word)
qed

lemma code_bits:
  "bit (shiftcode k) 0 \<longleftrightarrow> k \<in> {0x2A, 0x36}" "bit (shiftcode k) 1 \<longleftrightarrow> k \<in> {0x1D, 0x9D}"
  "bit (shiftcode k) 2 \<longleftrightarrow> k \<in> {0x38, 0xB8}" "\<not> bit (shiftcode k) 3" "\<not> bit (shiftcode k) 4"
  "\<not> bit (shiftcode k) 5" "\<not> bit (shiftcode k) 6" "bit (togglecode k) 3 \<longleftrightarrow> k = 0x3A"
  "bit (togglecode k) 4 \<longleftrightarrow> k = 0x45" "bit (togglecode k) 5 \<longleftrightarrow> k = 0x46" "\<not> bit (togglecode k) 0"
  "\<not> bit (togglecode k) 1" "\<not> bit (togglecode k) 2" "\<not> bit (togglecode k) 6"
  by (auto simp: shiftcode_def togglecode_def)

lemma getc_press:
  assumes "d AND 0x80 = 0"
  shows "bit (snd (kbdgetc 1 d s)) n \<longleftrightarrow>
    (bit s n \<and> n \<noteq> 6 \<or> bit (shiftcode (if bit s 6 then d OR 0x80 else d)) n) \<noteq>
      bit (togglecode (if bit s 6 then d OR 0x80 else d)) n"
proof -
  have "d \<noteq> 0xE0" using assms by auto
  then show ?thesis using assms
    by (auto simp: kbdgetc_def Let_def bit_flag bit_or_iff bit_xor_iff bit_not_64)
qed

lemma getc_release:
  assumes "d AND 0x80 \<noteq> 0" "d \<noteq> 0xE0"
  shows "bit (snd (kbdgetc 1 d s)) n \<longleftrightarrow>
    bit s n \<and> n \<noteq> 6 \<and> \<not> bit (shiftcode (if bit s 6 then d else d AND 0x7F)) n"
proof -
  have b: "bit (s AND NOT (x OR 64)) n \<longleftrightarrow> bit s n \<and> n \<noteq> 6 \<and> \<not> bit x n" for x
    using bit_imp_le_length [of s n] by (auto simp only: bit_and_iff bit_not_iff bit_or_iff bit_64 possible_bit_word)
  have k: "snd (kbdgetc 1 d s) = s AND NOT (shiftcode (if bit s 6 then d else d AND 0x7F) OR 64)"
    using assms by (simp add: kbdgetc_def Let_def bit_flag)
  show ?thesis unfolding k by (rule b)
qed

lemma getc_escape: "bit (snd (kbdgetc 1 0xE0 s)) n \<longleftrightarrow> bit s n \<or> n = 6"
proof -
  have "snd (kbdgetc 1 0xE0 s) = s OR 64" by (simp add: kbdgetc_def)
  then show ?thesis by (simp only: bit_or_iff bit_64)
qed

lemmas getc_bits = getc_press getc_release getc_escape

lemma modifier_held:
  assumes "n \<noteq> 6" "\<And>k. bit (shiftcode k) n \<longleftrightarrow> k \<in> m" "\<And>k. \<not> bit (togglecode k) n"
  shows "bit (kbd_run ds s) n \<longleftrightarrow> held m (keys (bit s 6) ds) (bit s n)"
proof (induction ds arbitrary: s)
  case Nil
  then show ?case by (simp add: kbd_run_def)
next
  case (Cons d ds)
  consider "d = 0xE0" | "d \<noteq> 0xE0" "d AND 0x80 \<noteq> 0" | "d \<noteq> 0xE0" "d AND 0x80 = 0" by blast
  then show ?case
    by cases (use Cons assms in \<open>simp_all add: kbd_run_Cons getc_bits code_bits\<close>)
qed

lemma lock_toggled:
  assumes "n \<noteq> 6" "\<And>k. \<not> bit (shiftcode k) n" "\<And>k. bit (togglecode k) n \<longleftrightarrow> k = t"
  shows "bit (kbd_run ds s) n \<longleftrightarrow> bit s n \<noteq> odd (count_list (keys (bit s 6) ds) (Press t))"
proof (induction ds arbitrary: s)
  case Nil
  then show ?case by (simp add: kbd_run_def)
next
  case (Cons d ds)
  consider "d = 0xE0" | "d \<noteq> 0xE0" "d AND 0x80 \<noteq> 0" | "d \<noteq> 0xE0" "d AND 0x80 = 0" by blast
  then show ?case
    by cases (use Cons assms in \<open>auto simp: kbd_run_Cons getc_bits code_bits\<close>)
qed


subsection \<open>Letters\<close>

text \<open>The letter keys of the keyboard, by scan code.\<close>

definition letters :: "u8 list" where
  "letters = filter (\<lambda>d. 97 \<le> normalmap d \<and> normalmap d \<le> 122) (map of_nat [0..<88])"

lemma letters_eq:
  "letters = [16, 17, 18, 19, 20, 21, 22, 23, 24, 25, 30, 31, 32, 33, 34, 35, 36, 37, 38, 44, 45, 46,
     47, 48, 49, 50]"
  by code_simp

lemma letter_facts:
  "list_all (\<lambda>d. uint (shiftmap d) = uint (normalmap d) - 32 \<and> shiftcode d = 0 \<and> togglecode d = 0 \<and>
     d AND 0x80 = 0 \<and> d \<noteq> 0xE0 \<and> 97 \<le> uint (normalmap d) \<and> uint (normalmap d) \<le> 122) letters"
  unfolding letters_eq by code_simp

lemma and_3: "(s :: u32) AND 3 = (if bit s 0 then 1 else 0) + (if bit s 1 then 2 else 0)"
proof -
  have "(3 :: u32) = mask 2" by (simp add: mask_eq_exp_minus_1)
  then have "s AND 3 = take_bit 2 s" by (simp add: take_bit_eq_mask)
  then show ?thesis by (simp add: numeral_2_eq_2 take_bit_Suc bit_0 bit_Suc odd_iff_mod_2_eq_one)
qed

text \<open>C30: shift and caps lock choose the case. When no control key is down and no escape is pending, a
  letter key gives its capital if exactly one of shift and caps lock is in force, and the small letter
  if both or neither are; the modifiers stay as they were.\<close>

theorem letter_case:
  assumes "d \<in> set letters" "\<not> bit s 1" "\<not> bit s 6"
  shows "kbdgetc 1 d s = (if bit s 0 \<noteq> bit s 3 then uint (normalmap d) - 32 else uint (normalmap d), s)"
proof -
  have c: "s AND 8 \<noteq> 0 \<longleftrightarrow> bit s 3" using and_exp_eq_0_iff_not_bit [of s 3] by simp
  have f: "uint (shiftmap d) = uint (normalmap d) - 32" "shiftcode d = 0" "togglecode d = 0"
    "d AND 0x80 = 0" "d \<noteq> 0xE0" "97 \<le> uint (normalmap d)" "uint (normalmap d) \<le> 122"
    using letter_facts assms(1) by (simp_all add: list_all_iff)
  have "s AND 64 = 0" using assms(3) bit_flag by blast
  then show ?thesis using f assms(2) c
    by (simp add: kbdgetc_def and_3 charcode_def caps_swap_def)
qed

theorem letter_case_witness: "kbdgetc 1 0x1E 9 = (97, 9) \<and> kbdgetc 1 0x1E 8 = (65, 8)"
proof -
  have d: "0x1E \<in> set letters" by (simp add: letters_eq)
  have "\<not> bit (9 :: u32) 1" "\<not> bit (9 :: u32) 6" "\<not> bit (8 :: u32) 1" "\<not> bit (8 :: u32) 6"
    "bit (9 :: u32) 0" "bit (9 :: u32) 3" "\<not> bit (8 :: u32) 0" "bit (8 :: u32) 3"
    "uint (normalmap 0x1E) = 97" by code_simp+
  with letter_case [OF d, of 9] letter_case [OF d, of 8] show ?thesis by simp
qed

end
