(* ===== verification/Links.thy ===== *)
theory Links
  imports Main
begin

text \<open>
  Singly linked lists threaded through a table by a field of its entries: \<open>nx i\<close> is the link of entry
  \<open>i\<close>, and \<open>path nx a xs\<close> says that following the links from \<open>a\<close> visits exactly \<open>xs\<close> and ends in a null
  pointer. Used for the process lists and for the request queue of the disk driver.
\<close>

type_synonym links = "nat \<Rightarrow> nat option"

fun path :: "links \<Rightarrow> nat option \<Rightarrow> nat list \<Rightarrow> bool" where
  "path nx a [] = (a = None)"
| "path nx a (x # xs) = (a = Some x \<and> path nx (nx x) xs)"

lemma path_upd [simp]: "p \<notin> set xs \<Longrightarrow> path (nx(p := v)) a xs = path nx a xs"
  by (induction xs arbitrary: a) auto

lemma path_eq: "(\<And>x. x \<in> set xs \<Longrightarrow> f x = g x) \<Longrightarrow> path f a xs = path g a xs"
  by (induction xs arbitrary: a) auto

lemma path_snoc:
  "path nx a xs \<Longrightarrow> distinct xs \<Longrightarrow> xs \<noteq> [] \<Longrightarrow> p \<notin> set xs \<Longrightarrow>
    path ((nx(last xs := Some p))(p := None)) a (xs @ [p])"
proof (induction xs arbitrary: a)
  case Nil
  then show ?case by simp
next
  case (Cons x xs)
  then show ?case by (cases "xs = []") auto
qed

lemma path_cut:
  "path nx a (us @ p # vs) \<Longrightarrow> distinct (us @ p # vs) \<Longrightarrow> us \<noteq> [] \<Longrightarrow>
    path ((nx(last us := nx p))(p := None)) a (us @ vs)"
proof (induction us arbitrary: a)
  case Nil
  then show ?case by simp
next
  case (Cons u us)
  show ?case
  proof (cases "us = []")
    case True
    have "path ((nx(u := nx p))(p := None)) (nx p) vs = path nx (nx p) vs"
      by (rule path_eq) (use Cons.prems in auto)
    with Cons.prems True show ?thesis by (simp add: fun_upd_def)
  next
    case False
    with Cons show ?thesis by auto
  qed
qed

lemma path_end: "path nx a (xs @ [p]) \<Longrightarrow> nx p = None"
  by (induction xs arbitrary: a) auto

end
