(* ===== verification/StateList.thy ===== *)
theory StateList
  imports Proc Links
begin

text \<open>
  The process lists of the later builds (\<^verbatim>\<open>CS333_P3\<close> and above, \<^verbatim>\<open>proc.c\<close>): one singly linked list with
  head and tail per process state, threaded through the \<^verbatim>\<open>next\<close> fields of the process table. A process
  is its index in the table. Shown: over any sequence of additions and removals the lists are the
  expected sequences of processes, a removal answers correctly, and the lists do not disturb each other.
\<close>

subsection \<open>Operations\<close>

record ptrs =
  head :: "nat option"
  tail :: "nat option"

definition stateListAdd :: "ptrs \<Rightarrow> nat \<Rightarrow> links \<Rightarrow> (ptrs \<times> links) kres" where
  "stateListAdd l p nx =
     (if head l = None then Inr (l\<lparr>head := Some p, tail := Some p\<rparr>, nx(p := None))
      else case tail l of
             None \<Rightarrow> Inl Fault
           | Some t \<Rightarrow>
               (let nx = nx(t := Some p);
                    l = l\<lparr>tail := nx t\<rparr>
                in case tail l of None \<Rightarrow> Inl Fault | Some t \<Rightarrow> Inr (l, nx(t := None))))"

text \<open>The search loop: where it stops and the process before. On a cyclic list it does not return.\<close>

partial_function (option) find_proc ::
    "links \<Rightarrow> nat \<Rightarrow> nat option \<Rightarrow> nat option \<Rightarrow> (nat option \<times> nat option) option" where
  "find_proc nx p previous current =
     (case current of
        None \<Rightarrow> Some (None, previous)
      | Some c \<Rightarrow> if c = p then Some (current, previous) else find_proc nx p current (nx c))"

lemmas [code] = find_proc.simps

definition stateListRemove :: "ptrs \<Rightarrow> nat option \<Rightarrow> links \<Rightarrow> (int \<times> ptrs \<times> links) kres option" where
  "stateListRemove l p nx =
     (case p of
        None \<Rightarrow> Some (Inr (-1, l, nx))
      | Some p \<Rightarrow>
          if head l = None \<or> tail l = None then Some (Inr (-1, l, nx))
          else if head l = Some p then
            (let l = l\<lparr>head := nx p\<rparr>
             in Some (Inr (0, if tail l = Some p then l\<lparr>tail := None\<rparr> else l, nx)))
          else case find_proc nx p None (head l) of
                 None \<Rightarrow> None
               | Some (current, previous) \<Rightarrow>
                   if current = None then Some (Inr (-1, l, nx))
                   else case previous of
                          None \<Rightarrow> Some (Inl Fault)
                        | Some q \<Rightarrow>
                            if current = tail l then Some (Inr (0, l\<lparr>tail := Some q\<rparr>, (nx(q := None))(p := None)))
                            else Some (Inr (0, l, (nx(q := nx p))(p := None))))"

record plists =
  plist :: "ptrs list"
  pnext :: links
  pstate :: "procstate list"

text \<open>One list per state, in the order of \<^verbatim>\<open>enum procstate\<close>.\<close>

definition initProcessLists :: "plists \<Rightarrow> plists" where
  "initProcessLists s =
     s\<lparr>plist := replicate 6 \<lparr>head = None, tail = None\<rparr>\<rparr>"

fun initFreeList_loop :: "nat list \<Rightarrow> plists \<Rightarrow> plists kres" where
  "initFreeList_loop [] s = Inr s"
| "initFreeList_loop (p # ps) s =
     (let s = s\<lparr>pstate := (pstate s)[p := UNUSED]\<rparr>
      in andThen (stateListAdd (plist s ! 0) p (pnext s)) (\<lambda>(l, nx).
         initFreeList_loop ps (s\<lparr>plist := (plist s)[0 := l], pnext := nx\<rparr>)))"

definition initFreeList :: "plists \<Rightarrow> plists kres" where
  "initFreeList = initFreeList_loop [0..<NPROC]"

definition assertState :: "nat \<Rightarrow> procstate \<Rightarrow> plists \<Rightarrow> unit kres" where
  "assertState p st s =
     guardK (pstate s ! p = st) (Panic ''Error: Process state incorrect in assertState()'')"

subsection \<open>One list\<close>

definition is_list :: "links \<Rightarrow> ptrs \<Rightarrow> nat list \<Rightarrow> bool" where
  "is_list nx l xs \<longleftrightarrow>
     path nx (head l) xs \<and> distinct xs \<and> tail l = (if xs = [] then None else Some (last xs))"

lemma is_list_upd [simp]: "p \<notin> set xs \<Longrightarrow> is_list (nx(p := v)) l xs = is_list nx l xs"
  by (simp add: is_list_def)

lemma add_list:
  assumes "is_list nx l xs" "p \<notin> set xs"
  obtains l' nx' where "stateListAdd l p nx = Inr (l', nx')" "is_list nx' l' (xs @ [p])"
    "\<And>m ys. p \<notin> set ys \<Longrightarrow> set xs \<inter> set ys = {} \<Longrightarrow> is_list nx' m ys = is_list nx m ys"
proof (cases "xs = []")
  case True
  show thesis
    by (rule that [of "l\<lparr>head := Some p, tail := Some p\<rparr>" "nx(p := None)"])
      (use assms True in \<open>auto simp: stateListAdd_def is_list_def\<close>)
next
  case False
  then have l: "head l = Some (hd xs)" "tail l = Some (last xs)" "path nx (head l) xs" "distinct xs"
    using assms(1) by (cases xs; auto simp: is_list_def)+
  show thesis
  proof (rule that [of "l\<lparr>tail := Some p\<rparr>" "(nx(last xs := Some p))(p := None)"])
    show "stateListAdd l p nx = Inr (l\<lparr>tail := Some p\<rparr>, (nx(last xs := Some p))(p := None))"
      using l by (simp add: stateListAdd_def)
    show "is_list ((nx(last xs := Some p))(p := None)) (l\<lparr>tail := Some p\<rparr>) (xs @ [p])"
      using l path_snoc [OF l(3,4) False assms(2)] assms(2) by (simp add: is_list_def)
    show "is_list ((nx(last xs := Some p))(p := None)) m ys = is_list nx m ys"
      if "p \<notin> set ys" "set xs \<inter> set ys = {}" for m ys
      using that False last_in_set [of xs] by (simp add: disjoint_iff)
  qed
qed

lemma find_proc_path:
  "path nx a xs \<Longrightarrow> p \<notin> set xs \<Longrightarrow> \<exists>q. find_proc nx p prv a = Some (None, q)"
  by (induction xs arbitrary: a prv) (auto simp: find_proc.simps [of nx p])

lemma find_proc_found:
  "path nx a (us @ p # vs) \<Longrightarrow> p \<notin> set us \<Longrightarrow> us \<noteq> [] \<Longrightarrow>
    find_proc nx p prv a = Some (Some p, Some (last us))"
proof (induction us arbitrary: a prv)
  case Nil
  then show ?case by simp
next
  case (Cons u us)
  show ?case
  proof (cases "us = []")
    case True
    with Cons.prems show ?thesis by (simp add: find_proc.simps [of nx p])
  next
    case False
    with Cons.prems show ?thesis
      using Cons.IH [of "nx u" "Some u"] by (simp add: find_proc.simps [of nx p prv])
  qed
qed

lemma remove_absent:
  assumes "is_list nx l xs" "p \<notin> set xs"
  shows "stateListRemove l (Some p) nx = Some (Inr (-1, l, nx))"
proof -
  obtain q where "find_proc nx p None (head l) = Some (None, q)"
    using find_proc_path [of nx "head l" xs p None] assms by (auto simp: is_list_def)
  moreover have "head l \<noteq> Some p" using assms by (cases xs) (auto simp: is_list_def)
  ultimately show ?thesis by (simp add: stateListRemove_def)
qed

text \<open>Removal, of the first process and of a later one.\<close>

lemma remove_first:
  assumes "is_list nx l (p # xs)"
  obtains l' where "stateListRemove l (Some p) nx = Some (Inr (0, l', nx))" "is_list nx l' xs"
proof (rule that)
  let ?l = "l\<lparr>head := nx p\<rparr>"
  show "stateListRemove l (Some p) nx =
      Some (Inr (0, if tail ?l = Some p then ?l\<lparr>tail := None\<rparr> else ?l, nx))"
    using assms by (simp add: stateListRemove_def is_list_def Let_def)
  show "is_list nx (if tail ?l = Some p then ?l\<lparr>tail := None\<rparr> else ?l) xs"
    using assms last_in_set [of xs] by (cases "xs = []") (auto simp: is_list_def)
qed

lemma remove_later:
  assumes "is_list nx l (us @ p # vs)" "us \<noteq> []"
  obtains l' nx' where "stateListRemove l (Some p) nx = Some (Inr (0, l', nx'))" "is_list nx' l' (us @ vs)"
    "\<And>m ys. (set us \<union> {p}) \<inter> set ys = {} \<Longrightarrow> is_list nx' m ys = is_list nx m ys"
proof -
  define nx' where "nx' = (nx(last us := nx p))(p := None)"
  have l: "path nx (head l) (us @ p # vs)" "distinct (us @ p # vs)" "tail l = Some (last (p # vs))"
    using assms by (simp_all add: is_list_def)
  have h: "head l = Some (hd us)" "hd us \<noteq> p" using l assms(2) by (cases us; auto)+
  have f: "find_proc nx p None (head l) = Some (Some p, Some (last us))"
    using find_proc_found [OF l(1)] l(2) assms(2) by simp
  have t: "tail l = Some p \<longleftrightarrow> vs = []" using l(2,3) last_in_set [of vs] by (cases "vs = []") auto
  have e: "nx p = None" if "vs = []" using path_end l(1) that by simp
  define l' where "l' = (if vs = [] then l\<lparr>tail := Some (last us)\<rparr> else l)"
  show thesis
  proof (rule that [of l' nx'])
    show "stateListRemove l (Some p) nx = Some (Inr (0, l', nx'))"
      using f h l(3) t e by (auto simp: stateListRemove_def l'_def nx'_def)
    have "path nx' (head l) (us @ vs)"
      using path_cut [OF l(1,2) assms(2)] by (simp add: nx'_def)
    then show "is_list nx' l' (us @ vs)"
      using l assms(2) by (auto simp: is_list_def l'_def)
    show "is_list nx' m ys = is_list nx m ys" if "(set us \<union> {p}) \<inter> set ys = {}" for m ys
      using that last_in_set [OF assms(2)] by (auto simp: nx'_def disjoint_iff)
  qed
qed

subsection \<open>All lists together\<close>

text \<open>
  The lists as sequences: every process is on at most one list, and on it once. The client of the
  lists adds only processes that are on no list (it has just removed them, or never added them).
\<close>

definition lists_ok :: "links \<Rightarrow> ptrs list \<Rightarrow> nat list list \<Rightarrow> bool" where
  "lists_ok nx ls L \<longleftrightarrow> length ls = length L \<and> (\<forall>k < length L. is_list nx (ls ! k) (L ! k)) \<and>
     (\<forall>j < length L. \<forall>k < length L. j \<noteq> k \<longrightarrow> set (L ! j) \<inter> set (L ! k) = {})"

datatype listop = Add nat nat | Remove nat nat

fun list_step :: "listop \<Rightarrow> ptrs list \<times> links \<Rightarrow> (int \<times> ptrs list \<times> links) kres option" where
  "list_step (Add k p) (ls, nx) =
     Some (andThen (stateListAdd (ls ! k) p nx) (\<lambda>(l, nx). Inr (0, ls[k := l], nx)))"
| "list_step (Remove k p) (ls, nx) =
     map_option (\<lambda>r. andThen r (\<lambda>(v, l, nx). Inr (v, ls[k := l], nx))) (stateListRemove (ls ! k) (Some p) nx)"

fun list_spec :: "listop \<Rightarrow> nat list list \<Rightarrow> int \<times> nat list list" where
  "list_spec (Add k p) L = (0, L[k := L ! k @ [p]])"
| "list_spec (Remove k p) L = (if p \<in> set (L ! k) then 0 else -1, L[k := remove1 p (L ! k)])"

fun legal :: "listop \<Rightarrow> nat list list \<Rightarrow> bool" where
  "legal (Add k p) L = (k < length L \<and> (\<forall>xs \<in> set L. p \<notin> set xs))"
| "legal (Remove k p) L = (k < length L)"

lemma lists_ok_update:
  assumes "lists_ok nx ls L" "k < length L" "is_list nx' l xs" "set xs \<subseteq> set (L ! k) \<union> A"
    "\<And>ys. ys \<in> set L \<Longrightarrow> A \<inter> set ys = {}"
    "\<And>m ys. (set (L ! k) \<union> A) \<inter> set ys = {} \<Longrightarrow> is_list nx' m ys = is_list nx m ys"
  shows "lists_ok nx' (ls[k := l]) (L[k := xs])"
proof -
  have dis: "set (L ! k) \<inter> set (L ! j) = {}" "A \<inter> set (L ! j) = {}" if "j < length L" "j \<noteq> k" for j
    using assms(1,2,5) that by (auto simp: lists_ok_def)
  have "is_list nx' (ls[k := l] ! j) (L[k := xs] ! j)" if "j < length L" for j
  proof (cases "j = k")
    case True
    then show ?thesis using assms(1-3) by (simp add: lists_ok_def)
  next
    case False
    then have "(set (L ! k) \<union> A) \<inter> set (L ! j) = {}" using dis [OF that False] by blast
    then show ?thesis using assms(1,6) False that by (simp add: lists_ok_def)
  qed
  moreover have "set (L[k := xs] ! i) \<inter> set (L[k := xs] ! j) = {}"
    if "i < length L" "j < length L" "i \<noteq> j" for i j
  proof -
    have x: "set xs \<inter> set (L ! j) = {}" if "j < length L" "j \<noteq> k" for j
      using dis [OF that] assms(4) by blast
    have "set (L ! i) \<inter> set (L ! j) = {}" using assms(1) that by (simp add: lists_ok_def)
    then show ?thesis using that x [of i] x [of j]
      by (cases "i = k"; cases "j = k") (simp_all add: Int_commute)
  qed
  ultimately show ?thesis using assms(1) by (simp add: lists_ok_def)
qed

lemma step_refines:
  assumes "lists_ok nx ls L" "legal a L"
  shows "\<exists>ls' nx'. list_step a (ls, nx) = Some (Inr (fst (list_spec a L), ls', nx')) \<and>
    lists_ok nx' ls' (snd (list_spec a L))"
proof (cases a)
  case (Add k p)
  have k: "k < length L" "\<And>ys. ys \<in> set L \<Longrightarrow> {p} \<inter> set ys = {}" using assms(2) Add by auto
  then have "is_list nx (ls ! k) (L ! k)" "p \<notin> set (L ! k)" using assms(1) by (auto simp: lists_ok_def)
  from add_list [OF this] obtain l' nx' where r: "stateListAdd (ls ! k) p nx = Inr (l', nx')"
    "is_list nx' l' (L ! k @ [p])"
    "\<And>m ys. p \<notin> set ys \<Longrightarrow> set (L ! k) \<inter> set ys = {} \<Longrightarrow> is_list nx' m ys = is_list nx m ys"
    by metis
  have "lists_ok nx' (ls[k := l']) (L[k := L ! k @ [p]])"
    by (rule lists_ok_update [OF assms(1) k(1) r(2) _ k(2)]) (use r(3) in auto)
  then show ?thesis using Add r by simp
next
  case (Remove k p)
  have k: "k < length L" using assms(2) Remove by simp
  then have l: "is_list nx (ls ! k) (L ! k)" using assms(1) by (simp add: lists_ok_def)
  show ?thesis
  proof (cases "p \<in> set (L ! k)")
    case False
    then show ?thesis using Remove remove_absent [OF l False] assms(1)
      by (simp add: remove1_idem list_update_id)
  next
    case True
    then obtain us vs where s: "L ! k = us @ p # vs" "p \<notin> set us" by (meson split_list_first)
    then have r1: "remove1 p (L ! k) = us @ vs" by (simp add: remove1_append)
    show ?thesis
    proof (cases "us = []")
      case True
      with s l obtain l' where r: "stateListRemove (ls ! k) (Some p) nx = Some (Inr (0, l', nx))" "is_list nx l' vs"
        using remove_first by (metis append_Nil)
      have "lists_ok nx (ls[k := l']) (L[k := vs])"
        by (rule lists_ok_update [OF assms(1) k r(2), where A = "{}"]) (use s True in auto)
      then show ?thesis using Remove r r1 True s by simp
    next
      case False
      obtain l' nx' where r: "stateListRemove (ls ! k) (Some p) nx = Some (Inr (0, l', nx'))"
        "is_list nx' l' (us @ vs)"
        "\<And>m ys. (set us \<union> {p}) \<inter> set ys = {} \<Longrightarrow> is_list nx' m ys = is_list nx m ys"
        using remove_later [OF l [unfolded s(1)] False] by metis
      have "lists_ok nx' (ls[k := l']) (L[k := us @ vs])"
        by (rule lists_ok_update [OF assms(1) k r(2), where A = "{}"]) (use s r(3) in auto)
      then show ?thesis using Remove r r1 s by simp
    qed
  qed
qed

fun list_run :: "listop list \<Rightarrow> ptrs list \<times> links \<Rightarrow> (int list \<times> ptrs list \<times> links) kres option" where
  "list_run [] s = Some (Inr ([], s))"
| "list_run (a # as) s =
     (case list_step a s of
        None \<Rightarrow> None
      | Some (Inl e) \<Rightarrow> Some (Inl e)
      | Some (Inr (v, s)) \<Rightarrow> map_option (\<lambda>r. andThen r (\<lambda>(vs, s). Inr (v # vs, s))) (list_run as s))"

fun spec_run :: "listop list \<Rightarrow> nat list list \<Rightarrow> int list \<times> nat list list" where
  "spec_run [] L = ([], L)"
| "spec_run (a # as) L = (fst (list_spec a L) # fst (spec_run as (snd (list_spec a L))),
     snd (spec_run as (snd (list_spec a L))))"

fun all_legal :: "listop list \<Rightarrow> nat list list \<Rightarrow> bool" where
  "all_legal [] L = True"
| "all_legal (a # as) L = (legal a L \<and> all_legal as (snd (list_spec a L)))"

text \<open>C31: the linked process lists are lists. Over every sequence of additions (of processes on no list)
  and removals (of any process, present or not) on a table of disjoint lists, every operation returns
  without a fault, the search loop included; a removal returns 0 exactly if the process was on that
  list, else -1; and the lists, head, tail and links, are exactly the sequences obtained by appending
  and deleting, each process on at most one of them.\<close>

theorem state_lists_refine:
  assumes "lists_ok nx ls L" "all_legal as L"
  shows "\<exists>ls' nx'. list_run as (ls, nx) = Some (Inr (fst (spec_run as L), ls', nx')) \<and>
    lists_ok nx' ls' (snd (spec_run as L))"
  using assms
proof (induction as arbitrary: nx ls L)
  case Nil
  then show ?case by simp
next
  case (Cons a as)
  from Cons.prems have "legal a L" "all_legal as (snd (list_spec a L))" by simp_all
  with step_refines [OF Cons.prems(1)] obtain ls1 nx1
    where 1: "list_step a (ls, nx) = Some (Inr (fst (list_spec a L), ls1, nx1))"
      "lists_ok nx1 ls1 (snd (list_spec a L))" by blast
  from Cons.IH [OF 1(2)] Cons.prems(2) obtain ls2 nx2
    where "list_run as (ls1, nx1) = Some (Inr (fst (spec_run as (snd (list_spec a L))), ls2, nx2))"
      "lists_ok nx2 ls2 (snd (spec_run as (snd (list_spec a L))))" by auto
  with 1 show ?case by simp
qed

lemma lists_ok_empty: "lists_ok nx (replicate n \<lparr>head = None, tail = None\<rparr>) (replicate n [])"
  by (simp add: lists_ok_def is_list_def)

theorem state_lists_refine_witness:
  "\<exists>ls' nx'. list_run [Add 0 5, Add 0 7, Add 0 9, Remove 0 7, Add 1 7, Remove 1 5]
       (replicate 2 \<lparr>head = None, tail = None\<rparr>, \<lambda>_. None) = Some (Inr ([0, 0, 0, 0, 0, -1], ls', nx')) \<and>
     lists_ok nx' ls' [[5, 9], [7]]"
proof -
  let ?as = "[Add 0 5, Add 0 7, Add 0 9, Remove 0 7, Add 1 7, Remove 1 5]"
  have r: "replicate 2 ([] :: nat list) = [[], []]" by (simp add: numeral_2_eq_2)
  have "all_legal ?as [[], []]" "spec_run ?as [[], []] = ([0, 0, 0, 0, 0, -1], [[5, 9], [7]])" by simp_all
  with state_lists_refine [OF lists_ok_empty [of "\<lambda>_. None" 2, unfolded r], of ?as]
  show ?thesis by simp
qed

lemma initFreeList_loop_ok:
  assumes "lists_ok (pnext s) (plist s) L" "L \<noteq> []" "distinct ps" "\<And>xs p. xs \<in> set L \<Longrightarrow> p \<in> set ps \<Longrightarrow> p \<notin> set xs"
    "length (pstate s) = n" "set ps \<subseteq> {..<n}"
  shows "\<exists>s'. initFreeList_loop ps s = Inr s' \<and> lists_ok (pnext s') (plist s') (L[0 := L ! 0 @ ps]) \<and>
    length (pstate s') = n \<and> (\<forall>p < n. pstate s' ! p = (if p \<in> set ps then UNUSED else pstate s ! p))"
  using assms
proof (induction ps arbitrary: s L)
  case Nil
  then show ?case by (simp add: list_update_id)
next
  case (Cons p ps)
  let ?s = "s\<lparr>pstate := (pstate s)[p := UNUSED]\<rparr>"
  have "legal (Add 0 p) L" using Cons.prems by auto
  from step_refines [OF Cons.prems(1) this] obtain l nx
    where a: "stateListAdd (plist s ! 0) p (pnext s) = Inr (l, nx)"
      "lists_ok nx ((plist s)[0 := l]) (L[0 := L ! 0 @ [p]])"
    by (auto split: prod.splits)
  let ?s2 = "?s\<lparr>plist := (plist s)[0 := l], pnext := nx\<rparr>" and ?L = "L[0 := L ! 0 @ [p]]"
  have d: "q \<notin> set xs" if "xs \<in> set ?L" "q \<in> set ps" for xs q
  proof -
    from set_update_cases [OF that(1)] consider "xs = L ! 0 @ [p]" | "xs \<in> set L" by blast
    then show ?thesis using Cons.prems(2-4) that(2) by cases auto
  qed
  from Cons.IH [of ?s2 ?L] a(2) Cons.prems d obtain s' where
    "initFreeList_loop ps ?s2 = Inr s'" "lists_ok (pnext s') (plist s') (?L[0 := ?L ! 0 @ ps])"
    "length (pstate s') = n" "\<forall>q < n. pstate s' ! q = (if q \<in> set ps then UNUSED else pstate ?s2 ! q)"
    by auto
  with a Cons.prems show ?case by (auto simp: nth_list_update)
qed

lemma free_list_from:
  assumes "length (pstate s) = n"
  shows "\<exists>s'. initFreeList_loop [0..<n] (initProcessLists s) = Inr s' \<and>
    lists_ok (pnext s') (plist s') ([0..<n] # replicate 5 []) \<and> (\<forall>p < n. pstate s' ! p = UNUSED)"
proof -
  let ?s = "initProcessLists s" and ?L = "[] # replicate 5 [] :: nat list list"
  have "plist ?s = replicate 6 \<lparr>head = None, tail = None\<rparr>" by (simp add: initProcessLists_def)
  moreover have "replicate 6 [] = ?L" by (simp add: numeral_eq_Suc)
  ultimately have "lists_ok (pnext ?s) (plist ?s) ?L" using lists_ok_empty [of "pnext ?s" 6] by simp
  moreover have "length (pstate ?s) = n" using assms by (simp add: initProcessLists_def)
  ultimately show ?thesis
    using initFreeList_loop_ok [of ?s ?L "[0..<n]" n] by (auto simp: lessThan_atLeast0)
qed

text \<open>C32: every process starts on the free list. \<^verbatim>\<open>initProcessLists\<close> followed by \<^verbatim>\<open>initFreeList\<close> leaves all 64
  processes, in table order, on the list of unused processes, marked unused, and the other five lists
  empty, whatever the table and the lists held before.\<close>

theorem free_list_initialised:
  assumes "length (pstate s) = NPROC"
  shows "\<exists>s'. initFreeList (initProcessLists s) = Inr s' \<and>
    lists_ok (pnext s') (plist s') ([0..<NPROC] # replicate 5 []) \<and> (\<forall>p < NPROC. assertState p UNUSED s' = Inr ())"
  using free_list_from [OF assms] unfolding initFreeList_def assertState_def guardK_Inr .

definition garbage_lists :: plists where
  "garbage_lists = \<lparr>plist = [], pnext = (\<lambda>p. Some p), pstate = replicate NPROC ZOMBIE\<rparr>"

theorem free_list_initialised_witness:
  "\<exists>s'. initFreeList (initProcessLists garbage_lists) = Inr s' \<and>
    lists_ok (pnext s') (plist s') ([0..<NPROC] # replicate 5 [])"
proof -
  have "length (pstate garbage_lists) = NPROC" by (simp add: garbage_lists_def)
  from free_list_initialised [OF this] show ?thesis by blast
qed

text \<open>The first process of a list keeps its link when it is removed, unlike every other process, although
  the comment in the code says that the link is cleared.\<close>

lemma removed_head_keeps_link:
  assumes "is_list nx l (p # q # xs)"
  shows "\<exists>l'. stateListRemove l (Some p) nx = Some (Inr (0, l', nx)) \<and> nx p = Some q"
  using remove_first [OF assms] assms by (auto simp: is_list_def)

end
