(* ===== verification/Ide.thy ===== *)
theory Ide
  imports File Links Bio_View
begin

text \<open>
  The IDE disk driver (\<^verbatim>\<open>ide.c\<close>) of the default build. The readings of the status port and of the data
  port are inputs, consumed from two streams; what the driver writes to the controller's ports is
  recorded. The driver lock makes each operation atomic, and enabling the interrupt line in the interrupt
  controller (\<^verbatim>\<open>ioapicenable\<close>) is left out of \<^verbatim>\<open>ideinit\<close>. A process that waits for the controller to become ready, or for data not yet delivered, is
  \<open>Block\<close>. \<^verbatim>\<open>iderw\<close> sleeps with \<open>SleepOn\<close>; \<open>iderw_wait\<close> is what it does when it is woken. Shown: requests
  are served first in first out, each started exactly once; the bytes written to the ports denote the
  request; and a request has the effect it has on the memory disk.
\<close>

subsection \<open>Operations\<close>

datatype portw = Outb u32 u8 | Outsl u32 "u8 list"

record kide = kbio +
  idequeue :: "nat option"
  qnext :: links
  havedisk1 :: bool
  idestat :: "u8 list"
  idein :: "u8 list"
  ports :: "portw list"

abbreviation (input) FSSIZE :: nat where "FSSIZE \<equiv> 2000"
abbreviation (input) IDE_BSY :: u8 where "IDE_BSY \<equiv> 0x80"
abbreviation (input) IDE_DRDY :: u8 where "IDE_DRDY \<equiv> 0x40"
abbreviation (input) IDE_DF :: u8 where "IDE_DF \<equiv> 0x20"
abbreviation (input) IDE_ERR :: u8 where "IDE_ERR \<equiv> 0x01"
abbreviation (input) IDE_CMD_READ :: u8 where "IDE_CMD_READ \<equiv> 0x20"
abbreviation (input) IDE_CMD_WRITE :: u8 where "IDE_CMD_WRITE \<equiv> 0x30"

fun idewait_loop :: "u8 list \<Rightarrow> (u8 \<times> u8 list) kres" where
  "idewait_loop [] = Inl Block"
| "idewait_loop (r # rs) = (if and r (or IDE_BSY IDE_DRDY) \<noteq> IDE_DRDY then idewait_loop rs else Inr (r, rs))"

definition idewait :: "bool \<Rightarrow> 'a kide_scheme \<Rightarrow> (int \<times> 'a kide_scheme) kres" where
  "idewait checkerr s =
     andThen (idewait_loop (idestat s)) (\<lambda>(r, rs).
     Inr (if checkerr \<and> and r (or IDE_DF IDE_ERR) \<noteq> 0 then -1 else 0, s\<lparr>idestat := rs\<rparr>))"

definition outp :: "portw list \<Rightarrow> 'a kide_scheme \<Rightarrow> 'a kide_scheme" where
  "outp ws s = s\<lparr>ports := ports s @ ws\<rparr>"

fun probe :: "nat \<Rightarrow> u8 list \<Rightarrow> (bool \<times> u8 list) kres" where
  "probe 0 rs = Inr (False, rs)"
| "probe (Suc n) rs = (case rs of [] \<Rightarrow> Inl Block | r # rs \<Rightarrow> if r \<noteq> 0 then Inr (True, rs) else probe n rs)"

definition ideinit :: "'a kide_scheme \<Rightarrow> 'a kide_scheme kres" where
  "ideinit s =
     andThen (idewait False s) (\<lambda>(_, s).
     let s = outp [Outb 0x1f6 (or 0xe0 0x10)] s
     in andThen (probe 1000 (idestat s)) (\<lambda>(found, rs).
        let s = s\<lparr>idestat := rs, havedisk1 := havedisk1 s \<or> found\<rparr>
        in Inr (outp [Outb 0x1f6 0xe0] s)))"

text \<open>A block is one sector (\<^verbatim>\<open>BSIZE\<close> is the sector size), which selects the single-sector commands.\<close>

definition request :: "buf \<Rightarrow> portw list" where
  "request b =
     (let sector = b_blockno b
      in [Outb 0x3f6 0, Outb 0x1f2 1,
          Outb 0x1f3 (ucast (and sector 0xff)),
          Outb 0x1f4 (ucast (and (drop_bit 8 sector) 0xff)),
          Outb 0x1f5 (ucast (and (drop_bit 16 sector) 0xff)),
          Outb 0x1f6 (ucast (or 0xe0 (or (push_bit 4 (and (b_dev b) 1)) (and (drop_bit 24 sector) 0x0f))))] @
         (if and (b_flags b) B_DIRTY \<noteq> 0 then [Outb 0x1f7 IDE_CMD_WRITE, Outsl 0x1f0 (b_data b)]
          else [Outb 0x1f7 IDE_CMD_READ]))"

definition idestart :: "nat option \<Rightarrow> 'a kide_scheme \<Rightarrow> 'a kide_scheme kres" where
  "idestart p s =
     (case p of
        None \<Rightarrow> Inl (Panic ''idestart'')
      | Some i \<Rightarrow>
          (let b = bufs s ! i
           in if unat (b_blockno b) \<ge> FSSIZE then Inl (Panic ''incorrect blockno'')
              else andThen (idewait False s) (\<lambda>(_, s). Inr (outp (request b) s))))"

definition read_data :: "nat \<Rightarrow> 'a kide_scheme \<Rightarrow> 'a kide_scheme kres" where
  "read_data i s =
     (if length (idein s) < BSIZE then Inl Block
      else Inr (upd_buf i (\<lambda>b. b\<lparr>b_data := take BSIZE (idein s)\<rparr>) (s\<lparr>idein := drop BSIZE (idein s)\<rparr>)))"

definition ideintr :: "'a kide_scheme \<Rightarrow> 'a kide_scheme kres" where
  "ideintr s =
     (case idequeue s of
        None \<Rightarrow> Inr s
      | Some i \<Rightarrow>
          (let s = s\<lparr>idequeue := qnext s i\<rparr>
           in andThen (if and (b_flags (bufs s ! i)) B_DIRTY = 0
                       then andThen (idewait True s) (\<lambda>(r, s). if r \<ge> 0 then read_data i s else Inr s)
                       else Inr s) (\<lambda>s.
              let s = upd_buf i (\<lambda>b. b\<lparr>b_flags := or (b_flags b) B_VALID\<rparr>) s;
                  s = upd_buf i (\<lambda>b. b\<lparr>b_flags := and (b_flags b) (NOT B_DIRTY)\<rparr>) s;
                  s = wakeup (ChBuf i) s
              in if idequeue s \<noteq> None then idestart (idequeue s) s else Inr s)))"

text \<open>The loop that looks for the end of the queue: the last buffer on it, or none.\<close>

partial_function (option) queue_end :: "links \<Rightarrow> nat option \<Rightarrow> nat option \<Rightarrow> nat option option" where
  "queue_end qn prev cur = (case cur of None \<Rightarrow> Some prev | Some c \<Rightarrow> queue_end qn cur (qn c))"

lemmas [code] = queue_end.simps

definition enqueue :: "nat \<Rightarrow> 'a kide_scheme \<Rightarrow> 'a kide_scheme option" where
  "enqueue i s =
     (let qn = (qnext s)(i := None)
      in case queue_end qn None (idequeue s) of
           None \<Rightarrow> None
         | Some None \<Rightarrow> Some (s\<lparr>idequeue := Some i, qnext := qn\<rparr>)
         | Some (Some t) \<Rightarrow> Some (s\<lparr>qnext := qn(t := Some i)\<rparr>))"

definition iderw_wait :: "nat \<Rightarrow> 'a kide_scheme \<Rightarrow> (unit outcome \<times> 'a kide_scheme) kres" where
  "iderw_wait i s =
     (if and (b_flags (bufs s ! i)) (or B_VALID B_DIRTY) \<noteq> B_VALID
      then andThen (sleep_on (ChBuf i) s) (\<lambda>s. Inr (SleepOn (ChBuf i), s)) else Inr (Ret (), s))"

definition ide_iderw :: "nat \<Rightarrow> 'a kide_scheme \<Rightarrow> (unit outcome \<times> 'a kide_scheme) kres option" where
  "ide_iderw i s =
     (let b = bufs s ! i
      in if \<not> holdingsleep (b_lock b) then Some (Inl (Panic ''iderw: buf not locked''))
         else if and (b_flags b) (or B_VALID B_DIRTY) = B_VALID then Some (Inl (Panic ''iderw: nothing to do''))
         else if b_dev b \<noteq> 0 \<and> \<not> havedisk1 s then Some (Inl (Panic ''iderw: ide disk 1 not present''))
         else map_option (\<lambda>s.
           andThen (if idequeue s = Some i then idestart (Some i) s else Inr s) (\<lambda>s. iderw_wait i s)) (enqueue i s))"

subsection \<open>The request queue\<close>

text \<open>The queue, with the buffer each entry was when it was submitted.\<close>

definition ide_q :: "'a kide_scheme \<Rightarrow> (nat \<times> buf) list \<Rightarrow> bool" where
  "ide_q s q \<longleftrightarrow> path (qnext s) (idequeue s) (map fst q) \<and> distinct (map fst q) \<and>
     (\<forall>(i, b) \<in> set q. i < length (bufs s) \<and> bufs s ! i = b)"

lemma queue_end_path: "path qn a xs \<Longrightarrow> queue_end qn prv a = Some (if xs = [] then prv else Some (last xs))"
  by (induction xs arbitrary: a prv) (auto simp: queue_end.simps [of qn])

lemma enqueue_path:
  assumes "path (qnext s) (idequeue s) xs" "distinct xs" "i \<notin> set xs"
  obtains q qn where "enqueue i s = Some (s\<lparr>idequeue := q, qnext := qn\<rparr>)" "path qn q (xs @ [i])"
    "q = Some i \<longleftrightarrow> xs = []"
proof -
  have p: "path ((qnext s)(i := None)) (idequeue s) xs" using assms by simp
  show thesis
  proof (cases "xs = []")
    case True
    show ?thesis
      by (rule that [of "(qnext s)(i := None)" "Some i"])
        (use queue_end_path [OF p, of None] True in \<open>auto simp: enqueue_def\<close>)
  next
    case False
    then have l: "last xs \<noteq> i" "last xs \<in> set xs" using assms(3) last_in_set by metis+
    have h: "idequeue s = Some (hd xs)" "hd xs \<noteq> i" using p False assms(3) by (cases xs; auto)+
    have "path (((qnext s)(last xs := Some i))(i := None)) (idequeue s) (xs @ [i])"
      by (rule path_snoc) (use assms False in auto)
    then have "path (((qnext s)(i := None))(last xs := Some i)) (idequeue s) (xs @ [i])"
      by (simp only: fun_upd_twist [OF l(1)])
    moreover have "enqueue i s = Some (s\<lparr>idequeue := idequeue s, qnext := ((qnext s)(i := None))(last xs := Some i)\<rparr>)"
      using queue_end_path [OF p, of None] False by (simp add: enqueue_def)
    ultimately show ?thesis using that h False by simp
  qed
qed

lemma idewait_frame: "idewait c s = Inr (r, s') \<Longrightarrow> \<exists>rs. s' = s\<lparr>idestat := rs\<rparr>"
  by (auto simp: idewait_def split: if_splits)

lemma idestart_frame:
  "idestart (Some i) s = Inr s' \<Longrightarrow>
    \<exists>rs. s' = s\<lparr>idestat := rs, ports := ports s @ request (bufs s ! i)\<rparr>"
  by (auto simp: idestart_def Let_def outp_def split: if_splits dest!: idewait_frame)

lemma sleep_on_frame: "sleep_on ch s = Inr s' \<Longrightarrow> \<exists>pt. s' = s\<lparr>ptable := pt\<rparr>"
  by (auto simp: sleep_on_def upd_proc_def)

lemma iderw_wait_frame: "iderw_wait i s = Inr (r, s') \<Longrightarrow> \<exists>pt. s' = s\<lparr>ptable := pt\<rparr>"
  by (auto simp: iderw_wait_def split: if_splits dest!: sleep_on_frame intro: exI [of _ "ptable s"])

lemma submit_step:
  assumes "ide_q s q" "i \<notin> fst ` set q" "i < length (bufs s)" "ide_iderw i s = Some (Inr (r, s'))"
  shows "ide_q s' (q @ [(i, bufs s ! i)]) \<and>
    ports s' = ports s @ (if q = [] then request (bufs s ! i) else [])"
proof -
  have "path (qnext s) (idequeue s) (map fst q)" "distinct (map fst q)" "i \<notin> set (map fst q)"
    using assms(1,2) by (auto simp: ide_q_def)
  from enqueue_path [OF this] obtain h qn where e: "enqueue i s = Some (s\<lparr>idequeue := h, qnext := qn\<rparr>)"
    "path qn h (map fst q @ [i])" "h = Some i \<longleftrightarrow> q = []" by (metis map_is_Nil_conv)
  let ?s = "s\<lparr>idequeue := h, qnext := qn\<rparr>"
  from assms(4) e(1) obtain s1 where s1: "(if h = Some i then idestart (Some i) ?s else Inr ?s) = Inr s1"
    "iderw_wait i s1 = Inr (r, s')" by (auto simp: ide_iderw_def Let_def split: if_splits)
  obtain rs where "s1 = ?s\<lparr>idestat := rs, ports := ports s @ (if q = [] then request (bufs s ! i) else [])\<rparr>"
  proof (cases "q = []")
    case True
    with s1(1) e(3) idestart_frame [of i ?s s1] that show ?thesis by auto
  next
    case False
    with s1(1) e(3) have "s1 = ?s" by simp
    then have "s1 = ?s\<lparr>idestat := idestat s, ports := ports s\<rparr>" by (cases s) simp
    with that [of "idestat s"] False show ?thesis by simp
  qed
  with iderw_wait_frame [OF s1(2)] obtain pt where
    s': "s' = ?s\<lparr>idestat := rs, ports := ports s @ (if q = [] then request (bufs s ! i) else []), ptable := pt\<rparr>"
    by auto
  show ?thesis using s' e assms(1-3) by (auto simp: ide_q_def)
qed

lemma read_data_frame:
  "read_data i s = Inr s' \<Longrightarrow> \<exists>b rs. s' = s\<lparr>idein := rs, bufs := (bufs s)[i := b]\<rparr>"
  by (auto simp: read_data_def upd_buf_def split: if_splits)

lemma intr_read:
  assumes "(if d then andThen (idewait True s) (\<lambda>(r, s). if r \<ge> 0 then read_data i s else Inr s) else Inr s) = Inr s1"
  obtains c rs ri where "s1 = s\<lparr>idestat := rs, idein := ri, bufs := (bufs s)[i := c]\<rparr>"
proof -
  have same: "t = t\<lparr>idestat := idestat t, idein := idein t, bufs := (bufs t)[i := bufs t ! i]\<rparr>" for t :: "'a kide_scheme"
    by (cases t) simp
  show thesis
  proof (cases d)
    case False
    with assms have "s1 = s" by simp
    then show ?thesis using same [of s] by (intro that) blast
  next
    case True
    with assms obtain r rs where w: "(if r \<ge> (0 :: int) then read_data i (s\<lparr>idestat := rs\<rparr>) else Inr (s\<lparr>idestat := rs\<rparr>)) = Inr s1"
      using idewait_frame [of True s] by fastforce
    show ?thesis
    proof (cases "r \<ge> 0")
      case True
      with w read_data_frame [of i "s\<lparr>idestat := rs\<rparr>" s1] that show ?thesis by auto
    next
      case False
      with w have "s1 = s\<lparr>idestat := rs\<rparr>" by simp
      then have "s1 = s\<lparr>idestat := rs, idein := idein s, bufs := (bufs s)[i := bufs s ! i]\<rparr>"
        by (cases s) simp
      then show ?thesis by (rule that)
    qed
  qed
qed

lemma idewait_fails: "idewait c s = Inl e \<Longrightarrow> e = Block"
proof -
  have "idewait_loop rs = Inl e \<Longrightarrow> e = Block" for rs by (induction rs) (auto split: if_splits)
  then show "idewait c s = Inl e \<Longrightarrow> e = Block" by (auto simp: idewait_def andThen_eq_Inl split: if_splits)
qed

text \<open>An interrupt finishes the oldest request, and then starts the next one.\<close>

lemma intr_unfold:
  assumes "ide_q s ((i, b) # q)"
  shows "ideintr s = Inl Block \<or>
    (\<exists>t. ide_q t q \<and> ports t = ports s \<and> ideintr s = (case q of [] \<Rightarrow> Inr t | (j, _) # _ \<Rightarrow> idestart (Some j) t))"
proof -
  have q: "idequeue s = Some i" "path (qnext s) (qnext s i) (map fst q)" "distinct (map fst q)"
    "i \<notin> fst ` set q" "\<And>j c. (j, c) \<in> set q \<Longrightarrow> j < length (bufs s) \<and> bufs s ! j = c"
    using assms by (auto simp: ide_q_def)
  let ?s = "s\<lparr>idequeue := qnext s i\<rparr>"
  define m where "m = (if and (b_flags (bufs ?s ! i)) B_DIRTY = 0
      then andThen (idewait True ?s) (\<lambda>(r, s). if r \<ge> 0 then read_data i s else Inr s) else Inr ?s)"
  define f where "f = (\<lambda>s. wakeup (ChBuf i) (upd_buf i (\<lambda>b. b\<lparr>b_flags := and (b_flags b) (NOT B_DIRTY)\<rparr>)
      (upd_buf i (\<lambda>b. b\<lparr>b_flags := or (b_flags b) B_VALID\<rparr>) (s :: 'a kide_scheme))))"
  have un: "ideintr s = andThen m (\<lambda>s. if idequeue (f s) \<noteq> None then idestart (idequeue (f s)) (f s) else Inr (f s))"
    unfolding ideintr_def q(1) m_def f_def Let_def option.case by (rule refl)
  show ?thesis
  proof (cases m)
    case (Inl e)
    then have "e = Block"
      by (auto simp: m_def andThen_eq_Inl read_data_def split: if_splits dest: idewait_fails)
    with un Inl show ?thesis by simp
  next
    case (Inr s1)
    obtain c rs ri where s1: "s1 = ?s\<lparr>idestat := rs, idein := ri, bufs := (bufs s)[i := c]\<rparr>"
      by (rule intr_read [OF Inr [unfolded m_def]]) simp
    define t where "t = f s1"
    have t: "idequeue t = qnext s i" "qnext t = qnext s" "ports t = ports s" "length (bufs t) = length (bufs s)"
      "\<And>j. j \<noteq> i \<Longrightarrow> bufs t ! j = bufs s ! j"
      by (simp_all add: t_def f_def s1 upd_buf_def wakeup_def wakeup1_def)
    have qt: "ide_q t q" using q t by (force simp: ide_q_def)
    then have "idequeue t = (case q of [] \<Rightarrow> None | (j, _) # _ \<Rightarrow> Some j)"
      by (auto simp: ide_q_def split: list.splits)
    then have "ideintr s = (case q of [] \<Rightarrow> Inr t | (j, _) # _ \<Rightarrow> idestart (Some j) t)"
      using un Inr by (auto simp: t_def split: list.splits)
    with qt t(3) show ?thesis by blast
  qed
qed

lemma intr_step:
  assumes "ide_q s q" "ideintr s = Inr s'"
  shows "ide_q s' (tl q) \<and> ports s' = ports s @ (case tl q of [] \<Rightarrow> [] | (_, b) # _ \<Rightarrow> request b)"
proof (cases q)
  case Nil
  with assms show ?thesis by (auto simp: ide_q_def ideintr_def)
next
  case (Cons x q')
  then obtain t where t: "ide_q t q'" "ports t = ports s"
    "ideintr s = (case q' of [] \<Rightarrow> Inr t | (j, _) # _ \<Rightarrow> idestart (Some j) t)"
    using intr_unfold [of s "fst x" "snd x" q'] assms by auto
  show ?thesis
  proof (cases q')
    case Nil
    with t assms(2) Cons show ?thesis by simp
  next
    case (Cons y q'')
    obtain j c where y: "y = (j, c)" by fastforce
    then obtain rt where "s' = t\<lparr>idestat := rt, ports := ports t @ request c\<rparr>"
      using idestart_frame [of j t s'] t assms(2) Cons by (auto simp: ide_q_def)
    then show ?thesis using t Cons \<open>q = x # q'\<close> y by (simp add: ide_q_def)
  qed
qed

lemma intr_fails:
  assumes "ide_q s q" "\<forall>(i, b) \<in> set q. unat (b_blockno b) < FSSIZE" "ideintr s = Inl e"
  shows "e = Block"
proof (cases q)
  case Nil
  with assms show ?thesis by (auto simp: ide_q_def ideintr_def)
next
  case (Cons x q')
  show ?thesis
  proof (rule ccontr)
    assume "e \<noteq> Block"
    with Cons obtain t where t: "ide_q t q'" "ideintr s = (case q' of [] \<Rightarrow> Inr t | (j, _) # _ \<Rightarrow> idestart (Some j) t)"
      using intr_unfold [of s "fst x" "snd x" q'] assms(1,3) by auto
    then obtain j c q'' where "q' = (j, c) # q''" "idestart (Some j) t = Inl e"
      using assms(3) by (auto split: list.splits)
    moreover from this have "bufs t ! j = c" "unat (b_blockno c) < FSSIZE"
      using t assms(2) Cons by (auto simp: ide_q_def)
    ultimately show False
      using \<open>e \<noteq> Block\<close> by (auto simp: idestart_def andThen_eq_Inl Let_def dest: idewait_fails)
  qed
qed

text \<open>
  The histories of the driver, from an empty queue: requests are submitted for buffers that are not
  already queued (their sleep lock is held by the process that waits for the earlier request),
  interrupts arrive, and in between anything else happens that leaves the driver's variables and the
  queued, locked buffers alone. A history carries the requests not yet served and the port writes.
\<close>

inductive ide_run :: "'a kide_scheme \<Rightarrow> (nat \<times> buf) list \<Rightarrow> portw list \<Rightarrow> bool" where
  Empty: "idequeue s = None \<Longrightarrow> ports s = [] \<Longrightarrow> ide_run s [] []"
| Submit: "ide_run s q ws \<Longrightarrow> i \<notin> fst ` set q \<Longrightarrow> i < length (bufs s) \<Longrightarrow>
    ide_iderw i s = Some (Inr (r, s')) \<Longrightarrow>
    ide_run s' (q @ [(i, bufs s ! i)]) (ws @ (if q = [] then request (bufs s ! i) else []))"
| Intr: "ide_run s q ws \<Longrightarrow> ideintr s = Inr s' \<Longrightarrow>
    ide_run s' (tl q) (ws @ (case tl q of [] \<Rightarrow> [] | (_, b) # _ \<Rightarrow> request b))"
| Other: "ide_run s q ws \<Longrightarrow> idequeue s' = idequeue s \<Longrightarrow> qnext s' = qnext s \<Longrightarrow> ports s' = ports s \<Longrightarrow>
    length (bufs s') = length (bufs s) \<Longrightarrow> (\<forall>i \<in> fst ` set q. bufs s' ! i = bufs s ! i) \<Longrightarrow> ide_run s' q ws"

lemma ide_run_queue: "ide_run s q ws \<Longrightarrow> ide_q s q \<and> ports s = ws"
proof (induction rule: ide_run.induct)
  case (Empty s)
  then show ?case by (simp add: ide_q_def)
next
  case (Submit s q ws i r s')
  then show ?case using submit_step by (metis append_Nil2)
next
  case (Intr s q ws s')
  then show ?case using intr_step by blast
next
  case (Other s q ws s')
  then show ?case by (force simp: ide_q_def)
qed

lemma ide_q_iderw_returns:
  assumes "ide_q s q" "i \<notin> fst ` set q"
  shows "ide_iderw i s \<noteq> None"
proof -
  have "path (qnext s) (idequeue s) (map fst q)" "distinct (map fst q)" "i \<notin> set (map fst q)"
    using assms by (auto simp: ide_q_def)
  from enqueue_path [OF this] obtain s1 where "enqueue i s = Some s1" by blast
  then show ?thesis by (simp add: ide_iderw_def Let_def)
qed

text \<open>C33: disk requests are served in order. Over every history of the driver the linked queue holds
  exactly the requests submitted and not yet finished, oldest first; every finished request is the
  oldest one; each request's commands go to the controller exactly once, when it becomes the oldest;
  the search for the end of the queue always ends; and the interrupt handler fails, while requests
  wait whose block numbers are on the disk, only by waiting for the controller.\<close>

theorem ide_fifo:
  assumes "ide_run s q ws"
  shows "path (qnext s) (idequeue s) (map fst q) \<and> distinct (map fst q) \<and> ports s = ws \<and>
    (\<forall>(i, b) \<in> set q. bufs s ! i = b) \<and> (\<forall>i. i \<notin> fst ` set q \<longrightarrow> ide_iderw i s \<noteq> None) \<and>
    (\<forall>e. (\<forall>(i, b) \<in> set q. unat (b_blockno b) < FSSIZE) \<longrightarrow> ideintr s = Inl e \<longrightarrow> e = Block)"
proof -
  have q: "ide_q s q" "ports s = ws" using ide_run_queue [OF assms] by simp_all
  show ?thesis
    using q intr_fails [OF q(1)] ide_q_iderw_returns [OF q(1)] by (auto simp: ide_q_def)
qed

definition disk_buf :: buf where
  "disk_buf = zero_buf\<lparr>b_dev := 1, b_blockno := 7, b_lock := \<lparr>slocked = True, slpid = 1\<rparr>\<rparr>"

definition ide_boot :: kide where
  "ide_boot = kbio.extend (boot_bio\<lparr>bufs := [disk_buf]\<rparr>)
     \<lparr>idequeue = None, qnext = (\<lambda>_. None), havedisk1 = True, idestat = [0x80, 0x40, 0x40], idein = [], ports = []\<rparr>"

lemma ide_boot_simps [simp]:
  "bufs ide_boot = [disk_buf]" "idequeue ide_boot = None" "qnext ide_boot = (\<lambda>_. None)" "havedisk1 ide_boot"
  "idestat ide_boot = [0x80, 0x40, 0x40]" "ports ide_boot = []" "curproc ide_boot = Inr 0"
  "disk ide_boot = replicate 1000 (replicate BSIZE 0)"
  by (simp_all add: ide_boot_def kbio.defs boot_bio_def kproc.defs curproc_def one_proc_def two_cpus_def)

lemma curproc_ide [simp]:
  "curproc (s\<lparr>idequeue := q, qnext := qn, idestat := rs, ports := ps\<rparr>) = curproc s"
  by (simp add: curproc_def)

lemma ide_boot_submit:
  "\<exists>s'. ide_iderw 0 ide_boot = Some (Inr (SleepOn (ChBuf 0), s'))"
  by (simp add: ide_iderw_def Let_def enqueue_def queue_end.simps idestart_def idewait_def outp_def
      iderw_wait_def sleep_on_def disk_buf_def zero_buf_def holdingsleep_def)

theorem ide_fifo_witness:
  "\<exists>s'. ide_iderw 0 ide_boot = Some (Inr (SleepOn (ChBuf 0), s')) \<and>
     path (qnext s') (idequeue s') [0] \<and> ports s' = request disk_buf"
proof -
  obtain s' where s': "ide_iderw 0 ide_boot = Some (Inr (SleepOn (ChBuf 0), s'))" using ide_boot_submit by blast
  have "ide_run ide_boot [] []" by (rule Empty) simp_all
  from Submit [OF this _ _ s'] have "ide_run s' [(0, disk_buf)] (request disk_buf)" by simp
  from ide_fifo [OF this] s' show ?thesis by simp
qed

subsection \<open>What a request does\<close>

text \<open>
  How the controller reads the port writes of a request, with 28-bit sector numbers: the drive, the
  sector, and the data of a write.
\<close>

fun decode :: "portw list \<Rightarrow> (nat \<times> nat \<times> u8 list option) option" where
  "decode (Outb a0 x0 # Outb a1 n # Outb a2 x2 # Outb a3 x3 # Outb a4 x4 # Outb a5 x5 # Outb a6 cmd # ws) =
     (if (a0, a1, a2, a3, a4, a5, a6) \<noteq> (0x3f6, 0x1f2, 0x1f3, 0x1f4, 0x1f5, 0x1f6, 0x1f7) \<or> n \<noteq> 1 then None
      else let drive = unat (and (drop_bit 4 x5) 1);
               sector = unat x2 + 2 ^ 8 * unat x3 + 2 ^ 16 * unat x4 + 2 ^ 24 * unat (and x5 0x0f)
           in if cmd = IDE_CMD_READ \<and> ws = [] then Some (drive, sector, None)
              else case ws of [Outsl a d] \<Rightarrow> if cmd = IDE_CMD_WRITE \<and> a = 0x1f0 then Some (drive, sector, Some d) else None
                   | _ \<Rightarrow> None)"
| "decode _ = None"

lemma unat_drop_bit: "unat (drop_bit n (w :: u32)) = unat w div 2 ^ n"
proof -
  have "unat (drop_bit n w) = drop_bit n (take_bit LENGTH(32) (unat w))" by (simp only: unsigned_drop_bit_eq)
  moreover have "take_bit LENGTH(32) (unat w) = unat w" by (rule take_bit_nat_eq_self) (rule unsigned_less)
  ultimately show ?thesis by (simp only: drop_bit_eq_div)
qed

lemma byte_of: "unat (ucast (and (w :: u32) 0xff) :: u8) = unat w mod 2 ^ 8"
proof -
  have "(0xff :: u32) = mask 8" by (simp add: mask_eq_exp_minus_1)
  then have "and w 0xff = take_bit 8 w" by (simp add: take_bit_eq_mask)
  then have "unat (ucast (and w 0xff) :: u8) = take_bit 8 (take_bit LENGTH(8) (unat w))"
    by (simp only: unsigned_ucast_eq unsigned_take_bit_eq)
  then show ?thesis by (simp add: take_bit_eq_mod)
qed

lemma idewait_loop_set: "idewait_loop xs = Inr (r, ys) \<Longrightarrow> r \<in> set xs \<and> set ys \<subseteq> set xs"
  by (induction xs) (auto split: if_splits)

lemma submit_idle:
  assumes "idequeue s = None" "ide_iderw i s = Some (Inr (r, s1))"
  obtains rs pt where "set rs \<subseteq> set (idestat s)" "s1 = s\<lparr>idequeue := Some i, qnext := (qnext s)(i := None),
      idestat := rs, ports := ports s @ request (bufs s ! i), ptable := pt\<rparr>"
proof -
  let ?s = "s\<lparr>idequeue := Some i, qnext := (qnext s)(i := None)\<rparr>"
  have "enqueue i s = Some ?s" using assms(1) by (simp add: enqueue_def queue_end.simps)
  with assms(2) obtain s0 where s0: "idestart (Some i) ?s = Inr s0" "iderw_wait i s0 = Inr (r, s1)"
    by (auto simp: ide_iderw_def Let_def split: if_splits)
  from s0(1) obtain rs where "set rs \<subseteq> set (idestat s)"
    "s0 = ?s\<lparr>idestat := rs, ports := ports s @ request (bufs s ! i)\<rparr>"
    by (auto simp: idestart_def idewait_def outp_def Let_def split: if_splits dest: idewait_loop_set)
  with iderw_wait_frame [OF s0(2)] that show thesis by auto
qed

lemma flag_bits:
  "bit (4 :: u32) n \<longleftrightarrow> n = 2" "bit (2 :: u32) n \<longleftrightarrow> n = 1" "bit (6 :: u32) n \<longleftrightarrow> n = 1 \<or> n = 2"
proof -
  have e: "bit ((2 :: u32) ^ m) n \<longleftrightarrow> possible_bit TYPE(32 word) n \<and> n = m" for m
    by (auto simp only: bit_exp_iff)
  show 4: "bit (4 :: u32) n \<longleftrightarrow> n = 2" and 2: "bit (2 :: u32) n \<longleftrightarrow> n = 1"
    using e [of 2] e [of 1] by (auto simp: possible_bit_word)
  have "(6 :: u32) = or 2 4" by simp
  then show "bit (6 :: u32) n \<longleftrightarrow> n = 1 \<or> n = 2" by (simp only: bit_or_iff 2 4)
qed

lemma flags_done:
  "and (or f 2) (NOT 4) = or (and f (NOT 4)) (2 :: u32)"
  "and f 4 = 0 \<Longrightarrow> and (or f 2) (NOT 4) = or f (2 :: u32)"
  "and (or (and f (NOT 4)) 2) 6 = (2 :: u32)"
proof -
  show 1: "and (or f 2) (NOT 4) = or (and f (NOT 4)) (2 :: u32)"
    by (rule bit_eqI) (auto simp only: bit_and_iff bit_or_iff bit_not_iff flag_bits possible_bit_word)
  show "and (or (and f (NOT 4)) 2) 6 = (2 :: u32)"
    by (rule bit_eqI) (auto simp only: bit_and_iff bit_or_iff bit_not_iff flag_bits possible_bit_word)
  assume "and f 4 = 0"
  then have "\<not> bit f 2" using and_exp_eq_0_iff_not_bit [of f 2] by simp
  then have "and f (NOT 4) = f"
    by (intro bit_eqI) (auto simp only: bit_and_iff bit_not_iff flag_bits possible_bit_word)
  with 1 show "and (or f 2) (NOT 4) = or f (2 :: u32)" by simp
qed

lemma finish_idle:
  assumes "idequeue s = Some i" "qnext s i = None" "i < length (bufs s)"
    "\<forall>r \<in> set (idestat s). and r (or IDE_DF IDE_ERR) = 0" "ideintr s = Inr s2"
  shows "bufs s2 = (bufs s)[i := (bufs s ! i)
      \<lparr>b_data := if and (b_flags (bufs s ! i)) B_DIRTY = 0 then take BSIZE (idein s) else b_data (bufs s ! i),
       b_flags := and (or (b_flags (bufs s ! i)) B_VALID) (NOT B_DIRTY)\<rparr>] \<and>
    (and (b_flags (bufs s ! i)) B_DIRTY = 0 \<longrightarrow> BSIZE \<le> length (idein s))"
proof (cases "and (b_flags (bufs s ! i)) B_DIRTY = 0")
  case True
  from assms(5) True obtain r rs where w: "idewait_loop (idestat s) = Inr (r, rs)"
    by (auto simp: ideintr_def assms(1) Let_def idewait_def)
  then have "and r (or IDE_DF IDE_ERR) = 0" using assms(4) idewait_loop_set [OF w] by blast
  with w assms(5) True show ?thesis
    by (auto simp: ideintr_def assms(1-3) Let_def idewait_def read_data_def upd_buf_def wakeup_def
        wakeup1_def not_less split: if_splits)
next
  case False
  with assms(5) show ?thesis
    by (auto simp: ideintr_def assms(1-3) Let_def upd_buf_def wakeup_def wakeup1_def)
qed

lemma decode_request:
  assumes "unat (b_blockno b) < FSSIZE" "b_dev b = 1"
  shows "decode (request b) =
    Some (1, unat (b_blockno b), if and (b_flags b) B_DIRTY \<noteq> 0 then Some (b_data b) else None)"
proof -
  let ?k = "b_blockno b"
  have k: "unat ?k < 2 ^ 16" using assms(1) by simp
  have lo: "unat (ucast (and ?k 0xff) :: u8) = unat ?k mod 2 ^ 8" by (rule byte_of)
  have "unat (ucast (and (drop_bit 8 ?k) 0xff) :: u8) = unat ?k div 2 ^ 8 mod 2 ^ 8"
    using byte_of [of "drop_bit 8 ?k"] by (simp only: unat_drop_bit)
  then have mid: "unat (ucast (and (drop_bit 8 ?k) 0xff) :: u8) = unat ?k div 2 ^ 8" using k by simp
  have z: "drop_bit 16 ?k = 0" "drop_bit 24 ?k = 0" using k by (simp_all add: unat_eq_zero [symmetric] unat_drop_bit)
  show ?thesis
    using lo mid z assms(2) by (simp add: request_def Let_def)
qed

text \<open>C34: the disk behaves as an array of blocks. Let the controller carry out the requests it reads from
  its ports as documented: a write stores the data in the sector and a read delivers the sector. Then
  a request submitted to the idle driver, followed by the controller's interrupt, leaves the buffers
  and the blocks of the disk exactly as one call of the memory disk's \<^verbatim>\<open>iderw\<close> does, with the
  waiting process finding its request finished.\<close>

theorem ide_as_memory_disk:
  fixes c :: "nat \<times> nat \<times> u8 list option \<Rightarrow> u8 list list \<Rightarrow> u8 list \<times> u8 list list"
  assumes idle: "idequeue s = None"
    and i: "i < length (bufs s)" "unat (b_blockno (bufs s ! i)) < FSSIZE"
    and healthy: "\<forall>r \<in> set (idestat s). and r (or IDE_DF IDE_ERR) = 0"
    and read: "\<And>k n d. n < length d \<Longrightarrow> c (k, n, None) d = (d ! n, d)"
    and writes: "\<And>k n x d. n < length d \<Longrightarrow> c (k, n, Some x) d = ([], d[n := x])"
    and sub: "ide_iderw i s = Some (Inr (r, s1))"
    and req: "decode (drop (length (ports s)) (ports s1)) = Some q"
    and intr: "ideintr (s1\<lparr>idein := fst (c q (disk s))\<rparr>) = Inr s2"
    and mem: "iderw i s = Inr sm" "\<forall>x \<in> set (disk s). length x = BSIZE"
  shows "bufs s2 = bufs sm \<and> snd (c q (disk s)) = disk sm \<and> iderw_wait i s2 = Inr (Ret (), s2)"
proof -
  let ?b = "bufs s ! i" and ?n = "unat (b_blockno (bufs s ! i))"
  from submit_idle [OF idle sub] obtain rs pt where rs: "set rs \<subseteq> set (idestat s)"
    and s1: "s1 = s\<lparr>idequeue := Some i, qnext := (qnext s)(i := None), idestat := rs,
      ports := ports s @ request ?b, ptable := pt\<rparr>" .
  have m: "b_dev ?b = 1" "?n < length (disk s)"
    using mem(1) by (auto simp: iderw_def Let_def split: if_splits)
  have q: "q = (1, ?n, if and (b_flags ?b) B_DIRTY \<noteq> 0 then Some (b_data ?b) else None)"
    using req decode_request [OF i(2) m(1)] by (simp add: s1)
  have len: "length (disk s ! ?n) = BSIZE" using mem(2) m(2) by simp
  have h: "\<forall>r \<in> set rs. and r (or IDE_DF IDE_ERR) = 0" using rs healthy by blast
  have b2: "bufs s2 = (bufs s)[i := ?b
      \<lparr>b_data := if and (b_flags ?b) B_DIRTY = 0 then take BSIZE (fst (c q (disk s))) else b_data ?b,
       b_flags := and (or (b_flags ?b) B_VALID) (NOT B_DIRTY)\<rparr>]"
    using finish_idle [OF _ _ _ _ intr, of i] h i(1) by (simp add: s1)
  have "bufs s2 = bufs sm \<and> snd (c q (disk s)) = disk sm"
  proof (cases "and (b_flags ?b) B_DIRTY = 0")
    case True
    then show ?thesis
      using mem(1) m b2 len read [of ?n "disk s" 1] flags_done(2) [OF True]
      by (auto simp: q iderw_def Let_def upd_buf_def split: if_splits)
  next
    case False
    then show ?thesis
      using mem(1) m b2 writes [of ?n "disk s" 1] flags_done(1) [of "b_flags ?b"]
      by (auto simp: q iderw_def Let_def upd_buf_def split: if_splits)
  qed
  moreover have "iderw_wait i s2 = Inr (Ret (), s2)"
    using b2 i(1) flags_done(1,3) [of "b_flags ?b"] by (simp add: iderw_wait_def)
  ultimately show ?thesis by blast
qed

definition controller :: "nat \<times> nat \<times> u8 list option \<Rightarrow> u8 list list \<Rightarrow> u8 list \<times> u8 list list" where
  "controller q d = (case q of (_, n, None) \<Rightarrow> (d ! n, d) | (_, n, Some x) \<Rightarrow> ([], d[n := x]))"

lemma ide_boot_submitted:
  "\<exists>pt. ide_iderw 0 ide_boot = Some (Inr (SleepOn (ChBuf 0), ide_boot\<lparr>idequeue := Some 0, qnext := (\<lambda>_. None),
     idestat := [0x40], ports := request disk_buf, ptable := pt\<rparr>))"
  by (simp add: ide_iderw_def Let_def enqueue_def queue_end.simps idestart_def idewait_def outp_def
      iderw_wait_def sleep_on_def disk_buf_def zero_buf_def holdingsleep_def upd_proc_def)
    (auto simp: fun_upd_def)

theorem ide_as_memory_disk_witness:
  "\<exists>r s1 s2 sm q. ide_iderw 0 ide_boot = Some (Inr (r, s1)) \<and> decode (ports s1) = Some q \<and>
     ideintr (s1\<lparr>idein := fst (controller q (disk ide_boot))\<rparr>) = Inr s2 \<and> iderw 0 ide_boot = Inr sm \<and>
     bufs s2 = bufs sm \<and> iderw_wait 0 s2 = Inr (Ret (), s2)"
proof -
  obtain pt s1 where s1: "s1 = ide_boot\<lparr>idequeue := Some 0, qnext := (\<lambda>_. None),
     idestat := [0x40], ports := request disk_buf, ptable := pt\<rparr>"
    and sub: "ide_iderw 0 ide_boot = Some (Inr (SleepOn (ChBuf 0), s1))" using ide_boot_submitted by blast
  have b: "b_dev disk_buf = 1" "unat (b_blockno disk_buf) = 7" "b_flags disk_buf = 0" "slocked (b_lock disk_buf)"
    by (simp_all add: disk_buf_def zero_buf_def)
  have q: "decode (ports s1) = Some (1, 7, None)"
    using decode_request [of disk_buf] b by (simp add: s1)
  have c: "controller (1, 7, None) (disk ide_boot) = (replicate BSIZE 0, disk ide_boot)"
    by (simp add: controller_def)
  obtain s2 where i: "ideintr (s1\<lparr>idein := fst (controller (1, 7, None) (disk ide_boot))\<rparr>) = Inr s2"
    unfolding c fst_conv s1
    by (simp add: ideintr_def Let_def idewait_def read_data_def b upd_buf_def wakeup_def wakeup1_def)
  obtain sm where m: "iderw 0 ide_boot = Inr sm"
    by (simp add: iderw_def Let_def holdingsleep_def b)
  have "bufs s2 = bufs sm \<and> snd (controller (1, 7, None) (disk ide_boot)) = disk sm \<and>
      iderw_wait 0 s2 = Inr (Ret (), s2)"
    by (rule ide_as_memory_disk [where c = controller, OF _ _ _ _ _ _ sub _ i m])
      (use q b in \<open>auto simp: controller_def\<close>)
  with sub q i m show ?thesis by blast
qed

end
