(* ===== verification/Ulib.thy ===== *)
theory Ulib
  imports Cprintf
begin

text \<open>
  The user library (\<^verbatim>\<open>ulib.c\<close>, \<^verbatim>\<open>printf.c\<close>) and the program \<^verbatim>\<open>wc.c\<close>. A C string is the
  list of its bytes without the terminating NUL; what the system calls return is an input. Shown: the
  user \<^verbatim>\<open>printf\<close> prints what the kernel's \<^verbatim>\<open>cprintf\<close> prints, \<^verbatim>\<open>atoi\<close> inverts the printing of numbers, the
  user \<^verbatim>\<open>memmove\<close> moves only when it does not have to move upwards over itself, and \<^verbatim>\<open>wc\<close> counts the same
  whatever pieces its input arrives in.
\<close>

subsection \<open>Strings\<close>

fun strcmp :: "u8 list \<Rightarrow> u8 list \<Rightarrow> int" where
  "strcmp [] [] = 0"
| "strcmp (p # ps) [] = uint p"
| "strcmp [] (q # qs) = - uint q"
| "strcmp (p # ps) (q # qs) = (if p = q then strcmp ps qs else uint p - uint q)"

fun ustrncmp :: "u8 list \<Rightarrow> u8 list \<Rightarrow> nat \<Rightarrow> int" where
  "ustrncmp ps qs 0 = 0"
| "ustrncmp [] [] (Suc n) = 0"
| "ustrncmp (p # ps) [] (Suc n) = uint p"
| "ustrncmp [] (q # qs) (Suc n) = - uint q"
| "ustrncmp (p # ps) (q # qs) (Suc n) = (if p = q then ustrncmp ps qs n else uint p - uint q)"

text \<open>The suffix at the first \<open>c\<close>, or a null pointer.\<close>

fun strchr :: "u8 list \<Rightarrow> u8 \<Rightarrow> u8 list option" where
  "strchr [] c = None"
| "strchr (x # xs) c = (if x = c then Some (x # xs) else strchr xs c)"

text \<open>\<^verbatim>\<open>gets\<close> with the bytes the one-byte reads return before the end of file or an error, and \<open>max\<close>; the
  bytes stored before the NUL.\<close>

fun gets_loop :: "nat \<Rightarrow> nat \<Rightarrow> u8 list \<Rightarrow> u8 list" where
  "gets_loop mx i [] = []"
| "gets_loop mx i (c # cs) =
     (if i + 1 < mx then (if c = 10 \<or> c = 13 then [c] else c # gets_loop mx (i + 1) cs) else [])"

definition gets :: "nat \<Rightarrow> u8 list \<Rightarrow> u8 list" where
  "gets mx cs = gets_loop mx 0 cs"

text \<open>\<^verbatim>\<open>atoi\<close> and \<^verbatim>\<open>atoo\<close>: the digit loop, with the wrap-around of the machine's \<^verbatim>\<open>int\<close>, and the sign.\<close>

fun ato_digits :: "u32 \<Rightarrow> u8 \<Rightarrow> u32 \<Rightarrow> u8 list \<Rightarrow> u32" where
  "ato_digits b hi n [] = n"
| "ato_digits b hi n (c # cs) =
     (if 48 \<le> c \<and> c \<le> hi then ato_digits b hi (n * b + ucast c - 48) cs else n)"

definition ato :: "u32 \<Rightarrow> u8 \<Rightarrow> u8 list \<Rightarrow> u32" where
  "ato b hi s =
     (let s = dropWhile (\<lambda>c. c = 32) s;
          neg = (s \<noteq> [] \<and> hd s = 45);
          s = (if s \<noteq> [] \<and> (hd s = 43 \<or> hd s = 45) then tl s else s);
          n = ato_digits b hi 0 s
      in if neg then - n else n)"

definition atoi :: "u8 list \<Rightarrow> u32" where
  "atoi = ato 10 57"

definition atoo :: "u8 list \<Rightarrow> u32" where
  "atoo = ato 8 55"

text \<open>The user \<^verbatim>\<open>memmove\<close>, between two places of one array: bytes are copied upwards, whatever the overlap.\<close>

fun umemmove :: "nat \<Rightarrow> nat \<Rightarrow> nat \<Rightarrow> u8 list \<Rightarrow> u8 list" where
  "umemmove dst src 0 m = m"
| "umemmove dst src (Suc n) m = umemmove (dst + 1) (src + 1) n (m[dst := m ! src])"

subsection \<open>printf\<close>

definition udigit :: "u32 \<Rightarrow> u8" where
  "udigit d = of_char (''0123456789ABCDEF'' ! unat d)"

fun uprintint_digits :: "nat \<Rightarrow> u32 \<Rightarrow> u32 \<Rightarrow> u8 list kres" where
  "uprintint_digits 0 x base = Inl Fault"
| "uprintint_digits (Suc n) x base =
     (if x div base = 0 then Inr [udigit (x mod base)]
      else andThen (uprintint_digits n (x div base) base) (\<lambda>ds. Inr (udigit (x mod base) # ds)))"

definition uprintint :: "u32 \<Rightarrow> u32 \<Rightarrow> bool \<Rightarrow> u8 list kres" where
  "uprintint xx base sg =
     (let neg = (sg \<and> sint xx < 0);
          x = (if neg then - xx else xx)
      in andThen (uprintint_digits 16 x base) (\<lambda>buf.
           let buf = (if neg then buf @ [45] else buf)
           in if length buf \<le> 16 then Inr (rev buf) else Inl Fault))"

text \<open>The format interpreter; the flag is the variable \<^verbatim>\<open>state\<close>, set after a percent sign.\<close>

fun printf :: "bool \<Rightarrow> string \<Rightarrow> carg list \<Rightarrow> u8 list kres" where
  "printf st [] args = Inr []"
| "printf False (c # fmt) args =
     (if c = CHR ''%'' then printf True fmt args
      else andThen (printf False fmt args) (\<lambda>r. Inr (of_char c # r)))"
| "printf True (c # fmt) args =
     (if c = CHR ''d'' then
        (case args of CInt x # as \<Rightarrow>
           andThen (uprintint x 10 True) (\<lambda>p. andThen (printf False fmt as) (\<lambda>r. Inr (p @ r)))
         | _ \<Rightarrow> Inl Fault)
      else if c = CHR ''x'' \<or> c = CHR ''p'' then
        (case args of CInt x # as \<Rightarrow>
           andThen (uprintint x 16 False) (\<lambda>p. andThen (printf False fmt as) (\<lambda>r. Inr (p @ r)))
         | _ \<Rightarrow> Inl Fault)
      else if c = CHR ''s'' then
        (case args of
           CStr b # as \<Rightarrow> andThen (printf False fmt as) (\<lambda>r. Inr (takeWhile (\<lambda>c. c \<noteq> 0) b @ r))
         | CNull # as \<Rightarrow> andThen (printf False fmt as) (\<lambda>r. Inr (map of_char ''(null)'' @ r))
         | _ \<Rightarrow> Inl Fault)
      else if c = CHR ''c'' then
        (case args of CInt x # as \<Rightarrow> andThen (printf False fmt as) (\<lambda>r. Inr (ucast x # r)) | _ \<Rightarrow> Inl Fault)
      else if c = CHR ''%'' then andThen (printf False fmt args) (\<lambda>r. Inr (of_char c # r))
      else andThen (printf False fmt args) (\<lambda>r. Inr (of_char (CHR ''%'') # of_char c # r)))"

subsection \<open>The program wc\<close>

fun wc_bytes :: "u8 list \<Rightarrow> nat \<times> nat \<times> nat \<times> bool \<Rightarrow> nat \<times> nat \<times> nat \<times> bool" where
  "wc_bytes [] st = st"
| "wc_bytes (b # bs) (l, w, c, inword) =
     (let c = c + 1;
          l = (if b = 10 then l + 1 else l)
      in if strchr [32, 13, 9, 10, 11] b \<noteq> None then wc_bytes bs (l, w, c, False)
         else if \<not> inword then wc_bytes bs (l, w + 1, c, True)
         else wc_bytes bs (l, w, c, inword))"

text \<open>What \<^verbatim>\<open>wc\<close> prints for the pieces its reads return: the counts, or the error message after a failing
  read. The counters are \<^verbatim>\<open>int\<close>s, printed as 32 bits.\<close>

definition wc :: "u8 list list \<Rightarrow> bool \<Rightarrow> u8 list \<Rightarrow> u8 list kres" where
  "wc pieces failed name =
     (case fold wc_bytes pieces (0, 0, 0, False) of (l, w, c, _) \<Rightarrow>
        if failed then printf False (''wc: read error'' @ [CHR 0x0A]) []
        else printf False (''%d %d %d %s'' @ [CHR 0x0A]) [CInt (of_nat l), CInt (of_nat w), CInt (of_nat c), CStr name])"

subsection \<open>Numbers are read back\<close>

lemma udigit_digit_char: "unat d < 10 \<Longrightarrow> udigit d = of_int (digit_char d)"
proof -
  assume "unat d < 10"
  then have "unat d \<in> set [0..<10]" by simp
  then show ?thesis by (auto simp: udigit_def digit_char_def upt_rec)
qed

lemma udigit_val: "unat d < 10 \<Longrightarrow> 48 \<le> udigit d \<and> udigit d \<le> 57 \<and> ucast (udigit d) - 48 = d"
proof -
  assume u: "unat d < 10"
  define k where "k = unat d"
  have d: "d = of_nat k" by (simp add: k_def)
  have "k \<in> set [0..<10]" using u by (simp add: k_def)
  then show ?thesis unfolding d by (auto simp: udigit_def upt_rec)
qed

lemma mod10: "unat (x mod 10 :: u32) < 10"
  by (simp add: unat_mod)

lemma uprintint_digits_kernel:
  "uprintint_digits n x 10 = andThen (printint_digits n x 10) (\<lambda>ds. Inr (map of_int ds))"
  by (induction n arbitrary: x) (auto simp: andThen_def udigit_digit_char mod10 split: sum.splits)

lemma uprintint_kernel: "uprintint x 10 sg = andThen (printint x 10 sg) (\<lambda>cs. Inr (map of_int cs))"
  by (auto simp: uprintint_def printint_def Let_def uprintint_digits_kernel andThen_def rev_map split: sum.splits)

lemma ato_digits_append:
  "list_all (\<lambda>c. 48 \<le> c \<and> c \<le> t) xs \<Longrightarrow> ato_digits b t n (xs @ ys) = ato_digits b t (ato_digits b t n xs) ys"
  by (induction xs arbitrary: n) auto

lemma digits_value:
  "uprintint_digits n x 10 = Inr ds \<Longrightarrow>
    list_all (\<lambda>c. 48 \<le> c \<and> c \<le> 57) ds \<and> ds \<noteq> [] \<and> ato_digits 10 57 0 (rev ds) = x"
proof (induction n arbitrary: x ds)
  case 0
  then show ?case by simp
next
  case (Suc n)
  have m: "48 \<le> udigit (x mod 10)" "udigit (x mod 10) \<le> 57" "ucast (udigit (x mod 10)) - 48 = x mod 10"
    using udigit_val [OF mod10] by auto
  show ?case
  proof (cases "x div 10 = 0")
    case True
    then have "x mod 10 = x" using div_mult_mod_eq [of x 10] by simp
    with Suc.prems True m show ?thesis by auto
  next
    case False
    with Suc.prems obtain es where es: "uprintint_digits n (x div 10) 10 = Inr es" "ds = udigit (x mod 10) # es"
      by auto
    from Suc.IH [OF es(1)] have i: "list_all (\<lambda>c. 48 \<le> c \<and> c \<le> 57) es" "ato_digits 10 57 0 (rev es) = x div 10"
      by simp_all
    have "x div 10 * 10 + ucast (udigit (x mod 10)) - 48 = x"
      using m(3) div_mult_mod_eq [of x 10] by (simp add: algebra_simps)
    then show ?thesis using i es(2) m by (simp add: ato_digits_append list_all_rev)
  qed
qed

text \<open>C36: numbers are read back. For every 32-bit value, what \<^verbatim>\<open>printf("%d")\<close> prints is read by \<^verbatim>\<open>atoi\<close> as the
  same value, the most negative one included.\<close>

theorem atoi_printf:
  "\<exists>cs. printf False ''%d'' [CInt x] = Inr cs \<and> atoi cs = x"
proof -
  let ?neg = "sint x < 0" and ?y = "if sint x < 0 then - x else x"
  obtain cs where "printint x 10 True = Inr cs" using printint_total by blast
  then have u: "uprintint x 10 True = Inr (map of_int cs)" by (simp add: uprintint_kernel)
  then obtain ds where ds: "uprintint_digits 16 ?y 10 = Inr ds"
    "map of_int cs = rev (if ?neg then ds @ [45] else ds)"
    by (auto simp: uprintint_def Let_def split: if_splits)
  from digits_value [OF ds(1)] have v: "list_all (\<lambda>c. 48 \<le> c \<and> c \<le> 57) (rev ds)" "rev ds \<noteq> []"
    "ato_digits 10 57 0 (rev ds) = ?y" by (simp_all add: list_all_rev)
  obtain h t where t: "rev ds = h # t" "48 \<le> h" using v(1,2) by (cases "rev ds") auto
  then have h: "h \<noteq> 32" "h \<noteq> 43" "h \<noteq> 45" by auto
  have "atoi (rev (if ?neg then ds @ [45] else ds)) = x"
    using v(3) t(1) h by (auto simp: atoi_def ato_def Let_def)
  then show ?thesis using u ds(2) by simp
qed

subsection \<open>The two printfs\<close>

text \<open>The formats whose conversions both functions treat alike: no \<^verbatim>\<open>%x\<close> and \<^verbatim>\<open>%p\<close>, whose digits are capitals
  in user programs, and no \<^verbatim>\<open>%c\<close>, which the kernel does not know.\<close>

fun common_fmt :: "string \<Rightarrow> bool" where
  "common_fmt (c # d # fmt) =
     (if c = CHR ''%'' then d \<notin> {CHR ''x'', CHR ''p'', CHR ''c''} \<and> common_fmt fmt else common_fmt (d # fmt))"
| "common_fmt _ = True"

lemma of_char_word: "(of_int (of_char c) :: u8) = of_char c"
  by (simp add: of_char_def)

lemma cprintf_args:
  obtains "args = []" | x as where "args = CInt x # as" | b as where "args = CStr b # as" | as where "args = CNull # as"
  by (cases args; cases "hd args") auto

text \<open>C35: the library's \<^verbatim>\<open>printf\<close> agrees with the kernel's \<^verbatim>\<open>cprintf\<close>. On every format of plain text, \<^verbatim>\<open>%d\<close>, \<^verbatim>\<open>%s\<close>,
  \<^verbatim>\<open>%%\<close> and unknown conversions, with any arguments, the two functions print the same bytes and misuse
  their arguments in the same cases.\<close>

theorem printf_cprintf:
  assumes "common_fmt fmt"
  shows "printf False fmt args = andThen (cprintf_out fmt args) (\<lambda>cs. Inr (map of_int cs))"
  using assms
proof (induction fmt args rule: cprintf_out.induct)
  case (1 args)
  then show ?case by simp
next
  case (2 c args)
  then show ?case by (simp add: of_char_word)
next
  case (3 c d fmt args)
  let ?m = "\<lambda>cs. map of_int cs :: u8 list"
  show ?case
  proof (cases "c = CHR ''%''")
    case False
    then have "printf False (d # fmt) args = andThen (cprintf_out (d # fmt) args) (\<lambda>cs. Inr (?m cs))"
      using 3 by simp
    then show ?thesis using False by (simp add: andThen_assoc of_char_word)
  next
    case True
    then have c: "d \<noteq> CHR ''x''" "d \<noteq> CHR ''p''" "d \<noteq> CHR ''c''" "common_fmt fmt" using 3 by simp_all
    have "printf True (d # fmt) args = andThen (cprintf_out (c # d # fmt) args) (\<lambda>cs. Inr (?m cs))"
    proof (cases "d = CHR ''d''")
      case d: True
      then show ?thesis
        using 3(2) True c by (cases args rule: cprintf_args)
          (auto simp: uprintint_kernel andThen_assoc intro!: andThen_cong)
    next
      case nd: False
      show ?thesis
      proof (cases "d = CHR ''s''")
        case s: True
        then show ?thesis
          using 3(4,5) True c nd by (cases args rule: cprintf_args) (simp_all add: andThen_assoc of_char_word comp_def)
      next
        case False
        then show ?thesis
          using 3(6,7) True c nd by (cases "d = CHR ''%''") (simp_all add: andThen_assoc of_char_word)
      qed
    qed
    with True show ?thesis by simp
  qed
qed

theorem printf_cprintf_witness:
  "printf False ''%d: %s'' [CInt 7, CStr [97]] = andThen (cprintf_out ''%d: %s'' [CInt 7, CStr [97]]) (\<lambda>cs. Inr (map of_int cs))"
  by (rule printf_cprintf) simp

subsection \<open>memmove\<close>

lemma umemmove_length [simp]: "length (umemmove d s n m) = length m"
  by (induction d s n m rule: umemmove.induct) auto

lemma umemmove_nth:
  "d + n \<le> length m \<Longrightarrow> s + n \<le> length m \<Longrightarrow> d \<le> s \<or> s + n \<le> d \<Longrightarrow> i < length m \<Longrightarrow>
    umemmove d s n m ! i = (if d \<le> i \<and> i < d + n then m ! (s + (i - d)) else m ! i)"
proof (induction d s n m rule: umemmove.induct)
  case (1 d s m)
  then show ?case by auto
next
  case (2 d s n m)
  let ?m = "m[d := m ! s]"
  have "umemmove (d + 1) (s + 1) n ?m ! i =
      (if d + 1 \<le> i \<and> i < d + 1 + n then ?m ! (s + 1 + (i - (d + 1))) else ?m ! i)"
    using 2 by auto
  moreover have "?m ! (s + 1 + (i - (d + 1))) = m ! (s + (i - d))" if "d + 1 \<le> i" "i < d + 1 + n"
  proof -
    have e: "s + 1 + (i - (d + 1)) = s + (i - d)" using that by simp
    have "s + (i - d) \<noteq> d" using that 2(4) by auto
    then show ?thesis unfolding e by (rule nth_list_update_neq [OF not_sym])
  qed
  ultimately show ?case using 2(2,5) by (auto simp: nth_list_update)
qed

text \<open>C38: the user library's \<^verbatim>\<open>memmove\<close> is a copy for disjoint ranges and for moves downwards, which is how its
  callers use it: the destination then holds the source bytes and nothing else changes.\<close>

theorem umemmove_down:
  assumes "d + n \<le> length m" "s + n \<le> length m" "d \<le> s \<or> s + n \<le> d"
  shows "umemmove d s n m = take d m @ take n (drop s m) @ drop (d + n) m"
proof (rule nth_equalityI)
  show "length (umemmove d s n m) = length (take d m @ take n (drop s m) @ drop (d + n) m)"
    using assms by simp
next
  fix i assume "i < length (umemmove d s n m)"
  then have "i < length m" by simp
  then show "umemmove d s n m ! i = (take d m @ take n (drop s m) @ drop (d + n) m) ! i"
    using umemmove_nth [OF assms] assms(1,2) by (auto simp: nth_append)
qed

theorem umemmove_down_witness:
  "umemmove 0 2 3 [1, 2, 3, 4, 5] = take 0 [1, 2, 3, 4, 5] @ take 3 (drop 2 [1, 2, 3, 4, 5]) @ drop (0 + 3) [1, 2, 3, 4, 5]"
  by (rule umemmove_down) simp_all

text \<open>The user library's \<^verbatim>\<open>memmove\<close> is wrong for a move upwards over itself. Moving a range up by one byte
  fills the destination with the first source byte, where the kernel's \<^verbatim>\<open>memmove\<close> copies the range.\<close>

lemma umemmove_up_smears:
  assumes "s + 1 + n \<le> length m"
  shows "umemmove (s + 1) s n m = take (s + 1) m @ replicate n (m ! s) @ drop (s + 1 + n) m"
  using assms
proof (induction n arbitrary: s m)
  case 0
  then show ?case by simp
next
  case (Suc n)
  let ?m = "m[s + 1 := m ! s]"
  have "umemmove (s + 1) s (Suc n) m = umemmove (s + 1 + 1) (s + 1) n ?m" by simp
  also have "\<dots> = take (s + 1 + 1) ?m @ replicate n (?m ! (s + 1)) @ drop (s + 1 + 1 + n) ?m"
    using Suc by (intro Suc.IH) simp
  also have "take (s + 1 + 1) ?m = take (s + 1) m @ [m ! s]"
    using Suc.prems by (simp add: take_Suc_conv_app_nth)
  finally show ?case using Suc.prems by simp
qed

subsection \<open>wc\<close>

lemma wc_append: "wc_bytes (xs @ ys) st = wc_bytes ys (wc_bytes xs st)"
  by (induction xs st rule: wc_bytes.induct) (auto simp: Let_def)

lemma wc_pieces: "fold wc_bytes ps st = wc_bytes (concat ps) st"
  by (induction ps arbitrary: st) (simp_all add: wc_append)

definition blank :: "u8 \<Rightarrow> bool" where
  "blank b \<longleftrightarrow> b \<in> {32, 13, 9, 10, 11}"

text \<open>The words of a text: its maximal runs of non-blank bytes.\<close>

function words_of :: "u8 list \<Rightarrow> u8 list list" where
  "words_of [] = []"
| "words_of (b # bs) =
     (if blank b then words_of bs
      else (b # takeWhile (\<lambda>c. \<not> blank c) bs) # words_of (dropWhile (\<lambda>c. \<not> blank c) bs))"
  by pat_completeness auto
termination
  by (relation "measure length") (auto simp: le_imp_less_Suc length_dropWhile_le)

lemma blank_strchr: "strchr [32, 13, 9, 10, 11] b = None \<longleftrightarrow> \<not> blank b"
  by (auto simp: blank_def)

lemma wc_bytes_counts:
  "\<exists>i. wc_bytes bs (l, w, c, inword) =
    (l + count_list bs 10, w + length (words_of (if inword then dropWhile (\<lambda>b. \<not> blank b) bs else bs)),
     c + length bs, i)"
proof (induction bs arbitrary: l w c inword)
  case Nil
  then show ?case by simp
next
  case (Cons b bs)
  have nl: "b = 10 \<Longrightarrow> blank b" by (simp add: blank_def)
  show ?case
    using Cons.IH [of "if b = 10 then l + 1 else l" w "c + 1" False]
      Cons.IH [of l "if inword then w else w + 1" "c + 1" True] nl
    by (auto simp: Let_def blank_strchr simp del: strchr.simps)
qed

text \<open>C37: \<^verbatim>\<open>wc\<close> counts lines, words and bytes. Whatever pieces the reads return, \<^verbatim>\<open>wc\<close> prints the number of
  newlines, of maximal runs of non-blank bytes, and of bytes of the whole input: a word or line that
  spans two reads is counted once.\<close>

theorem wc_counts:
  "wc ps False name =
    printf False (''%d %d %d %s'' @ [CHR 0x0A])
      [CInt (of_nat (count_list (concat ps) 10)), CInt (of_nat (length (words_of (concat ps)))),
       CInt (of_nat (length (concat ps))), CStr name]"
proof -
  obtain i where "wc_bytes (concat ps) (0, 0, 0, False) =
      (count_list (concat ps) 10, length (words_of (concat ps)), length (concat ps), i)"
    using wc_bytes_counts [of "concat ps" 0 0 0 False] by auto
  then show ?thesis unfolding wc_def wc_pieces by (simp only: prod.case if_False)
qed

end
