(* ===== verification/Umalloc.thy ===== *)
theory Umalloc
  imports Xv6_Prelude
begin

text \<open>
  The user memory allocator (\<^verbatim>\<open>umalloc.c\<close>). Addresses are counted in units of a header (eight bytes), as
  the pointer arithmetic of the code counts them; \<open>uptr\<close> and \<open>usize\<close> are the two fields of the header at
  an address. \<open>ubase\<close> is the address of the static header \<^verbatim>\<open>base\<close>, below the heap; \<open>ubrk\<close> is the break,
  the end of the heap. What the kernel answers to \<^verbatim>\<open>sbrk\<close> is an input. The two loops run
  around a circular list and are partial functions.

  Shown: on a well-formed free list (circular, sorted by address, no two blocks touching) both loops
  end, \<^verbatim>\<open>free\<close> puts exactly the units of its block back, \<^verbatim>\<open>malloc\<close> takes exactly the units of the block it
  returns, and the list stays well-formed.
\<close>

subsection \<open>Operations\<close>

record umem =
  uptr :: "nat \<Rightarrow> nat"
  usize :: "nat \<Rightarrow> nat"
  freep :: "nat option"
  ubase :: nat
  ubrk :: nat

abbreviation (input) set_ptr :: "nat \<Rightarrow> nat \<Rightarrow> umem \<Rightarrow> umem" where
  "set_ptr a v m \<equiv> m\<lparr>uptr := (uptr m)(a := v)\<rparr>"

abbreviation (input) set_size :: "nat \<Rightarrow> nat \<Rightarrow> umem \<Rightarrow> umem" where
  "set_size a v m \<equiv> m\<lparr>usize := (usize m)(a := v)\<rparr>"

text \<open>The search of \<^verbatim>\<open>free\<close> for the place of \<open>bp\<close>, from \<open>p\<close>.\<close>

partial_function (option) free_place :: "(nat \<Rightarrow> nat) \<Rightarrow> nat \<Rightarrow> nat \<Rightarrow> nat option" where
  "free_place nx bp p =
     (if bp > p \<and> bp < nx p then Some p
      else if p \<ge> nx p \<and> (bp > p \<or> bp < nx p) then Some p
      else free_place nx bp (nx p))"

lemmas [code] = free_place.simps

definition join_upper :: "nat \<Rightarrow> nat \<Rightarrow> umem \<Rightarrow> umem" where
  "join_upper bp p m =
     (if bp + usize m bp = uptr m p
      then let m = set_size bp (usize m bp + usize m (uptr m p)) m
           in set_ptr bp (uptr m (uptr m p)) m
      else set_ptr bp (uptr m p) m)"

definition join_lower :: "nat \<Rightarrow> nat \<Rightarrow> umem \<Rightarrow> umem" where
  "join_lower bp p m =
     (if p + usize m p = bp
      then let m = set_size p (usize m p + usize m bp) m
           in set_ptr p (uptr m bp) m
      else set_ptr p bp m)"

definition free_link :: "nat \<Rightarrow> nat \<Rightarrow> umem \<Rightarrow> umem" where
  "free_link bp p m = (join_lower bp p (join_upper bp p m))\<lparr>freep := Some p\<rparr>"

text \<open>\<^verbatim>\<open>free\<close>, given the address of the header: \<^verbatim>\<open>(Header*)ap - 1\<close>. Before the first \<^verbatim>\<open>malloc\<close> it would
  follow a null pointer, and has no result here.\<close>

definition free :: "nat \<Rightarrow> umem \<Rightarrow> umem option" where
  "free bp m =
     (case freep m of
        None \<Rightarrow> None
      | Some q \<Rightarrow> map_option (\<lambda>p. free_link bp p m) (free_place (uptr m) bp q))"

text \<open>\<^verbatim>\<open>morecore\<close>: the result is \<^verbatim>\<open>freep\<close>, or a null pointer if the break cannot grow. The kernel
  \<open>sb\<close> gives the new break for the old one and the argument of \<^verbatim>\<open>sbrk\<close>, or refuses. The argument is
  \<open>8 * nu\<close> as a 32-bit signed number of bytes.\<close>

definition morecore :: "(nat \<Rightarrow> int \<Rightarrow> nat option) \<Rightarrow> nat \<Rightarrow> umem \<Rightarrow> (nat option \<times> umem) option" where
  "morecore sb nu m =
     (let nu = (if nu < 4096 then 4096 else nu);
          hp = ubrk m
      in case sb hp (signed_take_bit 28 (int nu)) of
           None \<Rightarrow> Some (None, m)
         | Some b \<Rightarrow>
             (let m = m\<lparr>ubrk := b\<rparr>;
                  m = set_size hp nu m
              in map_option (\<lambda>m. (freep m, m)) (free hp m)))"

text \<open>Taking \<open>n\<close> units from the block \<open>p\<close>, behind \<open>prevp\<close> in the list: the header handed out.\<close>

definition carve :: "nat \<Rightarrow> nat \<Rightarrow> nat \<Rightarrow> umem \<Rightarrow> nat \<times> umem" where
  "carve n prevp p m =
     (if usize m p = n then (p, (set_ptr prevp (uptr m p) m)\<lparr>freep := Some prevp\<rparr>)
      else let m = set_size p (usize m p - n) m;
               r = p + usize m p;
               m = set_size r n m
           in (r, m\<lparr>freep := Some prevp\<rparr>))"

partial_function (option) malloc_loop ::
    "(nat \<Rightarrow> int \<Rightarrow> nat option) \<Rightarrow> nat \<Rightarrow> nat \<Rightarrow> nat \<Rightarrow> umem \<Rightarrow> (nat option \<times> umem) option" where
  "malloc_loop sb n prevp p m =
     (if usize m p \<ge> n then (case carve n prevp p m of (r, m) \<Rightarrow> Some (Some r, m))
      else if Some p = freep m then
        (case morecore sb n m of
           None \<Rightarrow> None
         | Some (None, m) \<Rightarrow> Some (None, m)
         | Some (Some p, m) \<Rightarrow> malloc_loop sb n p (uptr m p) m)
      else malloc_loop sb n p (uptr m p) m)"

lemmas [code] = malloc_loop.simps

definition nunits :: "u32 \<Rightarrow> nat" where
  "nunits nbytes = unat ((nbytes + 8 - 1) div 8 + 1)"

text \<open>The header of the block handed out; the program gets the address behind it.\<close>

definition malloc :: "(nat \<Rightarrow> int \<Rightarrow> nat option) \<Rightarrow> u32 \<Rightarrow> umem \<Rightarrow> (nat option \<times> umem) option" where
  "malloc sb nbytes m =
     (case freep m of
        None \<Rightarrow>
          (let m = set_size (ubase m) 0 (set_ptr (ubase m) (ubase m) (m\<lparr>freep := Some (ubase m)\<rparr>))
           in malloc_loop sb (nunits nbytes) (ubase m) (uptr m (ubase m)) m)
      | Some q \<Rightarrow> malloc_loop sb (nunits nbytes) q (uptr m q) m)"

text \<open>The documented behaviour of the kernel: a request for more memory that is answered moves the break up by
  the amount asked for.\<close>

definition grows :: "(nat \<Rightarrow> int \<Rightarrow> nat option) \<Rightarrow> bool" where
  "grows sb \<longleftrightarrow> (\<forall>b n b'. 0 \<le> n \<longrightarrow> sb b n = Some b' \<longrightarrow> b' = b + nat n)"

subsection \<open>Circular lists\<close>

text \<open>Following the links from \<open>a\<close> visits \<open>xs\<close> and then arrives at \<open>b\<close>.\<close>

fun seg :: "(nat \<Rightarrow> nat) \<Rightarrow> nat \<Rightarrow> nat list \<Rightarrow> nat \<Rightarrow> bool" where
  "seg nx a [] b = (a = b)"
| "seg nx a (x # xs) b = (a = x \<and> seg nx (nx x) xs b)"

lemma seg_append: "seg nx a (xs @ ys) c \<longleftrightarrow> (\<exists>b. seg nx a xs b \<and> seg nx b ys c)"
  by (induction xs arbitrary: a) auto

lemma seg_upd [simp]: "p \<notin> set xs \<Longrightarrow> seg (nx(p := v)) a xs b = seg nx a xs b"
  by (induction xs arbitrary: a) auto

definition below :: "(nat \<Rightarrow> nat) \<Rightarrow> nat \<Rightarrow> nat \<Rightarrow> bool" where
  "below sz x y \<longleftrightarrow> x + sz x < y"

definition units :: "(nat \<Rightarrow> nat) \<Rightarrow> nat list \<Rightarrow> nat set" where
  "units sz F = (\<Union>x \<in> set F. {x ..< x + sz x})"

text \<open>The free list, \<open>base\<close> first: circular, ascending with gaps, only \<open>base\<close> empty, below the break.\<close>

definition heap_ok :: "umem \<Rightarrow> nat list \<Rightarrow> bool" where
  "heap_ok m F \<longleftrightarrow>
     F \<noteq> [] \<and> hd F = ubase m \<and> seg (uptr m) (ubase m) F (ubase m) \<and> sorted_wrt (below (usize m)) F \<and>
     usize m (ubase m) = 0 \<and> ubase m < ubrk m \<and> (\<forall>x \<in> set F. x + usize m x \<le> ubrk m) \<and>
     (\<forall>x \<in> set F. x \<noteq> ubase m \<longrightarrow> 0 < usize m x) \<and> (\<exists>q \<in> set F. freep m = Some q)"

lemma seg_single: "seg nx a [x] b \<longleftrightarrow> a = x \<and> nx x = b" by simp

text \<open>The search ends at the last block below \<open>bp\<close>.\<close>

lemma free_place_here:
  "q < bp \<Longrightarrow> bp < nx q \<or> nx q \<le> q \<Longrightarrow> free_place nx bp q = Some q"
  by (subst free_place.simps) auto

lemma free_place_up:
  "seg nx a (us @ [q]) b \<Longrightarrow> sorted_wrt (<) (us @ [q]) \<Longrightarrow> q < bp \<Longrightarrow> bp < nx q \<or> nx q \<le> q \<Longrightarrow>
    free_place nx bp a = Some q"
proof (induction us arbitrary: a)
  case Nil
  then show ?case by (simp add: free_place_here)
next
  case (Cons u us)
  have "u < nx u \<and> nx u \<le> q" using Cons.prems(1,2) by (cases us) auto
  then have "free_place nx bp u = free_place nx bp (nx u)"
    using Cons.prems(3) by (subst free_place.simps) auto
  with Cons show ?case by auto
qed

lemma free_place_wrap:
  "seg nx a vs b \<Longrightarrow> sorted_wrt (<) vs \<Longrightarrow> \<forall>v \<in> set vs. bp < v \<Longrightarrow> b < bp \<Longrightarrow>
    free_place nx bp a = free_place nx bp b"
proof (induction vs arbitrary: a)
  case Nil
  then show ?case by simp
next
  case (Cons v vs)
  have "bp < nx v \<and> v < nx v \<or> nx v = b" using Cons.prems by (cases vs) auto
  then have "free_place nx bp v = free_place nx bp (nx v)"
    using Cons.prems(3,4) by (subst free_place.simps) auto
  with Cons show ?case by auto
qed

lemma below_less: "sorted_wrt (below sz) xs \<Longrightarrow> sorted_wrt (<) xs"
  by (induction xs) (auto simp: below_def dest: add_lessD1)

lemma sorted_split:
  assumes "sorted_wrt (<) F" "F \<noteq> []" "hd F < (bp :: nat)" "bp \<notin> set F"
  obtains us q vs where "F = us @ q # vs" "q < bp" "\<forall>v \<in> set vs. bp < v"
proof -
  let ?t = "takeWhile (\<lambda>x. x < bp) F" and ?d = "dropWhile (\<lambda>x. x < bp) F"
  have t: "?t \<noteq> []" using assms(2,3) by (cases F) auto
  have "last ?t \<in> set ?t" using t by (rule last_in_set)
  then have "last ?t < bp" using set_takeWhileD by fastforce
  moreover have "F = butlast ?t @ last ?t # ?d" 
    using t by (metis append_butlast_last_id append.assoc append_Cons append_Nil takeWhile_dropWhile_id)
  moreover have "bp < v" if "v \<in> set ?d" for v
  proof -
    have "?d \<noteq> []" using that by (metis empty_iff empty_set)
    then have h: "\<not> hd ?d < bp" by (rule hd_dropWhile)
    have "sorted_wrt (<) ?d" using assms(1) by (metis sorted_wrt_append takeWhile_dropWhile_id)
    then have "hd ?d \<le> v" using that by (cases ?d) auto
    moreover have "v \<noteq> bp" using that assms(4) set_dropWhileD by metis
    ultimately show ?thesis using h by linarith
  qed
  ultimately show thesis using that by blast
qed

lemma free_place_ok:
  assumes "seg nx b (us @ q # vs) b" "sorted_wrt (<) (us @ q # vs)" "hd (us @ q # vs) = b"
    "q < bp" "\<forall>v \<in> set vs. bp < v" "f \<in> set (us @ q # vs)"
  shows "free_place nx bp f = Some q"
proof -
  from assms(1) have s: "seg nx b (us @ [q]) (nx q)" "seg nx (nx q) vs b" by (auto simp: seg_append)
  have q: "bp < nx q \<or> nx q \<le> q"
  proof (cases vs)
    case Nil
    then have "nx q = b" using s(2) by simp
    also have "b \<le> q" using assms(2,3) Nil by (cases us) auto
    finally show ?thesis by simp
  next
    case (Cons v vs')
    then show ?thesis using s(2) assms(5) by simp
  qed
  have up: "free_place nx bp a = Some q" if "us @ [q] = xs @ a # ys" for xs a ys
  proof -
    have "seg nx b (xs @ a # ys) (nx q)" using s(1) that by simp
    then have sg: "seg nx a (a # ys) (nx q)" by (auto simp: seg_append)
    have "last (a # ys) = q" using that by (metis last_appendR last_snoc list.distinct(1))
    then have l: "butlast (a # ys) @ [q] = a # ys" by (metis append_butlast_last_id list.distinct(1))
    have so: "sorted_wrt (<) (a # ys)" using assms(2) that
      by (metis append.assoc append_Cons append_Nil sorted_wrt_append)
    show ?thesis using free_place_up [of nx a "butlast (a # ys)" q "nx q" bp] sg so assms(4) q unfolding l by blast
  qed
  show ?thesis
  proof (cases "f \<in> set (us @ [q])")
    case True
    then obtain xs ys where "us @ [q] = xs @ f # ys" by (meson split_list)
    then show ?thesis by (rule up)
  next
    case False
    then obtain xs ys where v: "vs = xs @ f # ys" using assms(6) by (auto dest: split_list)
    then have "seg nx f (f # ys) b" using s(2) by (auto simp: seg_append)
    moreover have "sorted_wrt (<) (f # ys)" using assms(2) v by (auto simp: sorted_wrt_append)
    moreover have "b < bp" using assms(2-4) by (cases us) auto
    ultimately have "free_place nx bp f = free_place nx bp b"
      using free_place_wrap [of nx f "f # ys" b bp] assms(5) v by auto
    moreover have "us @ [q] = [] @ b # tl (us @ [q])" using assms(3) by (cases us) auto
    ultimately show ?thesis using up by metis
  qed
qed

subsection \<open>free\<close>

text \<open>The block \<open>bp\<close> and the part \<open>ws\<close> of the list above it, after the first half of the merge.\<close>

lemma join_upper_ok:
  assumes s: "seg (uptr m) (ubase m) (us @ q # vs) (ubase m)" "sorted_wrt (below (usize m)) (us @ q # vs)"
    and bp: "bp \<notin> set (us @ q # vs)" "ubase m < bp" "\<forall>v \<in> set vs. bp + usize m bp \<le> v"
    and brk: "bp + usize m bp \<le> ubrk m" "\<forall>v \<in> set vs. v + usize m v \<le> ubrk m"
    and m1: "m1 = join_upper bp q m"
  obtains ws where "seg (uptr m1) (ubase m) (us @ [q]) (uptr m q)" "seg (uptr m1) (uptr m1 bp) ws (ubase m)"
    "set ws \<subseteq> set vs" "sorted_wrt (below (usize m)) (us @ q # ws)" "\<forall>w \<in> set ws. bp + usize m1 bp < w"
    "\<forall>a. a \<noteq> bp \<longrightarrow> usize m1 a = usize m a" "usize m bp \<le> usize m1 bp" "bp + usize m1 bp \<le> ubrk m"
    "{bp ..< bp + usize m1 bp} \<union> units (usize m) ws = {bp ..< bp + usize m bp} \<union> units (usize m) vs"
    "ubase m1 = ubase m" "ubrk m1 = ubrk m"
proof -
  from s(1) have g: "seg (uptr m) (ubase m) (us @ [q]) (uptr m q)" "seg (uptr m) (uptr m q) vs (ubase m)"
    by (auto simp: seg_append)
  show thesis
  proof (cases "bp + usize m bp = uptr m q")
    case True
    then have "uptr m q \<noteq> ubase m" using bp(2) by linarith
    then obtain v ws where v: "vs = v # ws" "uptr m q = v" using g(2) by (cases vs) auto
    have e: "m1 = m\<lparr>usize := (usize m)(bp := usize m bp + usize m v), uptr := (uptr m)(bp := uptr m v)\<rparr>"
      using True v(2) by (simp add: m1 join_upper_def Let_def)
    have st: "\<forall>w \<in> set ws. v + usize m v < w" using s(2) v(1) by (auto simp: sorted_wrt_append below_def)
    show ?thesis
    proof (rule that [of ws])
      show "{bp ..< bp + usize m1 bp} \<union> units (usize m) ws = {bp ..< bp + usize m bp} \<union> units (usize m) vs"
        using True v by (auto simp: e units_def)
    qed (use e g bp s(2) v brk st True in \<open>auto simp: sorted_wrt_append\<close>)
  next
    case False
    have e: "m1 = m\<lparr>uptr := (uptr m)(bp := uptr m q)\<rparr>" using False by (simp add: m1 join_upper_def)
    have "bp + usize m bp \<notin> set vs"
    proof
      assume a: "bp + usize m bp \<in> set vs"
      then obtain v ws where v: "vs = v # ws" by (cases vs) auto
      with g(2) False have "v \<noteq> bp + usize m bp" by auto
      with a v have "v < bp + usize m bp" using s(2) by (auto simp: sorted_wrt_append below_def)
      then show False using bp(3) v by auto
    qed
    then have "\<forall>v \<in> set vs. bp + usize m bp < v" using bp(3) le_neq_implies_less by metis
    then show ?thesis by (intro that [of vs]) (use e g bp s(2) brk in \<open>auto\<close>)
  qed
qed

lemma units_append [simp]: "units sz (xs @ ys) = units sz xs \<union> units sz ys"
  by (auto simp: units_def)

lemma units_Cons [simp]: "units sz (x # xs) = {x ..< x + sz x} \<union> units sz xs"
  by (auto simp: units_def)

lemma units_Nil [simp]: "units sz [] = {}"
  by (simp add: units_def)

lemma units_upd [simp]: "p \<notin> set xs \<Longrightarrow> units (sz(p := v)) xs = units sz xs"
  by (auto simp: units_def split: if_splits)

lemma units_cong: "(\<And>x. x \<in> set xs \<Longrightarrow> f x = g x) \<Longrightarrow> units f xs = units g xs"
  by (auto simp: units_def)

lemma below_cong: "(\<And>x. x \<in> set xs \<Longrightarrow> f x = g x) \<Longrightarrow> sorted_wrt (below f) xs = sorted_wrt (below g) xs"
  by (induction xs) (auto simp: below_def)

lemma below_upd [simp]: "p \<notin> set xs \<Longrightarrow> sorted_wrt (below (sz(p := v))) xs = sorted_wrt (below sz) xs"
  by (rule below_cong) auto

lemma below_at [simp]: "below (sz(p := v)) x y = (if x = p then p + v < y else below sz x y)"
  by (simp add: below_def)

text \<open>Putting \<open>bp\<close> between \<open>q\<close> and \<open>ws\<close>, merged into \<open>q\<close> or as a block of its own.\<close>

lemma join_lower_ok:
  assumes g: "seg (uptr m) b (us @ [q]) c" "seg (uptr m) (uptr m bp) ws b"
    and s: "sorted_wrt (below (usize m)) (us @ q # ws)" "\<forall>w \<in> set ws. bp + usize m bp < w"
    and q: "q + usize m q \<le> bp" "bp \<notin> set (us @ q # ws)" "0 < usize m bp"
    and m2: "m2 = join_lower bp q m"
  obtains F where "seg (uptr m2) b F b" "sorted_wrt (below (usize m2)) F" "hd F = hd (us @ [q])" "F \<noteq> []" "q \<in> set F"
    "units (usize m2) F = units (usize m) (us @ q # ws) \<union> {bp ..< bp + usize m bp}"
    "set F \<subseteq> insert bp (set (us @ q # ws))" "\<forall>a. a \<noteq> q \<longrightarrow> usize m2 a = usize m a"
    "usize m2 q = (if q + usize m q = bp then usize m q + usize m bp else usize m q)"
    "ubase m2 = ubase m" "ubrk m2 = ubrk m"
proof (cases "q + usize m q = bp")
  case True
  have e: "m2 = m\<lparr>usize := (usize m)(q := usize m q + usize m bp), uptr := (uptr m)(q := uptr m bp)\<rparr>"
    using True by (simp add: m2 join_lower_def Let_def)
  have lt: "sorted_wrt (<) (us @ q # ws)" using s(1) by (rule below_less)
  then have n: "q \<notin> set us" "q \<notin> set ws" "\<forall>u \<in> set us. u \<notin> set ws" by (fastforce simp: sorted_wrt_append)+
  have "seg (uptr m2) b (us @ q # ws) b"
    using g n by (auto simp: seg_append e)
  moreover have "sorted_wrt (below (usize m2)) (us @ q # ws)"
    using s True n by (auto simp: sorted_wrt_append e)
  moreover have "units (usize m2) (us @ q # ws) = units (usize m) (us @ q # ws) \<union> {bp ..< bp + usize m bp}"
    using n True by (auto simp: e)
  ultimately show thesis by (intro that [of "us @ q # ws"]) (use True in \<open>auto simp: e hd_append\<close>)
next
  case False
  have e: "m2 = m\<lparr>uptr := (uptr m)(q := bp)\<rparr>" using False by (simp add: m2 join_lower_def)
  have lt: "sorted_wrt (<) (us @ q # ws)" using s(1) by (rule below_less)
  then have n: "q \<notin> set us" "q \<notin> set ws" by (fastforce simp: sorted_wrt_append)+
  have bq: "bp \<noteq> q" using q(2) by auto
  have "seg (uptr m2) b (us @ q # bp # ws) b"
    using g n bq by (auto simp: seg_append e)
  moreover have "q + usize m q < bp" using q(1) False by linarith
  then have "sorted_wrt (below (usize m2)) (us @ q # bp # ws)"
    using s by (fastforce simp: sorted_wrt_append below_def e)
  moreover have "units (usize m2) (us @ q # bp # ws) = units (usize m) (us @ q # ws) \<union> {bp ..< bp + usize m bp}"
    by (auto simp: e)
  ultimately show thesis by (intro that [of "us @ q # bp # ws"]) (use False in \<open>auto simp: e hd_append\<close>)
qed

text \<open>A block that may be freed: above \<open>base\<close>, below the break, not empty, and none of it free.\<close>

definition used_block :: "umem \<Rightarrow> nat list \<Rightarrow> nat \<Rightarrow> bool" where
  "used_block m F bp \<longleftrightarrow> ubase m < bp \<and> 0 < usize m bp \<and> bp + usize m bp \<le> ubrk m \<and>
     {bp ..< bp + usize m bp} \<inter> units (usize m) F = {}"

lemma free_ok:
  assumes h: "heap_ok m F" and u: "used_block m F bp"
  obtains m' F' where "free bp m = Some m'" "heap_ok m' F'"
    "units (usize m') F' = units (usize m) F \<union> {bp ..< bp + usize m bp}"
    "ubase m' = ubase m" "ubrk m' = ubrk m" "\<forall>a. a \<notin> set F \<longrightarrow> a \<noteq> bp \<longrightarrow> usize m' a = usize m a"
proof -
  let ?sz = "usize m" and ?b = "ubase m"
  have F: "F \<noteq> []" "hd F = ?b" "seg (uptr m) ?b F ?b" "sorted_wrt (below ?sz) F" "?sz ?b = 0"
    "\<forall>x \<in> set F. x + ?sz x \<le> ubrk m" "\<forall>x \<in> set F. x \<noteq> ?b \<longrightarrow> 0 < ?sz x"
    using h by (auto simp: heap_ok_def)
  obtain f where f: "freep m = Some f" "f \<in> set F" using h by (auto simp: heap_ok_def)
  have B: "?b < bp" "0 < ?sz bp" "bp + ?sz bp \<le> ubrk m" "{bp ..< bp + ?sz bp} \<inter> units ?sz F = {}"
    using u by (auto simp: used_block_def)
  have nF: "bp \<notin> set F"
  proof
    assume "bp \<in> set F"
    then have "bp \<in> units ?sz F" using B(2) by (force simp: units_def)
    moreover have "bp \<in> {bp ..< bp + ?sz bp}" using B(2) by simp
    ultimately show False using B(4) by blast
  qed
  from sorted_split [OF below_less [OF F(4)] F(1) _ nF] F(2) B(1) obtain us q vs
    where sp: "F = us @ q # vs" "q < bp" "\<forall>v \<in> set vs. bp < v" by metis
  have q: "q + ?sz q \<le> bp"
  proof (rule ccontr)
    assume "\<not> q + ?sz q \<le> bp"
    then have "bp \<in> units ?sz F" using sp(1,2) by auto
    moreover have "bp \<in> {bp ..< bp + ?sz bp}" using B(2) by simp
    ultimately show False using B(4) by blast
  qed
  have v: "\<forall>v \<in> set vs. bp + ?sz bp \<le> v"
  proof
    fix v assume vs: "v \<in> set vs"
    show "bp + ?sz bp \<le> v"
    proof (rule ccontr)
      assume a: "\<not> bp + ?sz bp \<le> v"
      have "v \<noteq> ?b" "v \<in> set F" using vs sp B(1) by auto
      then have "v \<in> units ?sz F" using F(7) by (force simp: units_def)
      moreover have "v \<in> {bp ..< bp + ?sz bp}" using a vs sp(3) by auto
      ultimately show False using B(4) by blast
    qed
  qed
  have pl: "free_place (uptr m) bp f = Some q"
    by (rule free_place_ok [of _ ?b us q vs]) (use F sp f below_less [OF F(4)] in auto)
  define m1 where "m1 = join_upper bp q m"
  obtain ws where w: "seg (uptr m1) ?b (us @ [q]) (uptr m q)" "seg (uptr m1) (uptr m1 bp) ws ?b"
    "set ws \<subseteq> set vs" "sorted_wrt (below ?sz) (us @ q # ws)" "\<forall>w \<in> set ws. bp + usize m1 bp < w"
    "\<forall>a. a \<noteq> bp \<longrightarrow> usize m1 a = ?sz a" "?sz bp \<le> usize m1 bp" "bp + usize m1 bp \<le> ubrk m"
    "{bp ..< bp + usize m1 bp} \<union> units ?sz ws = {bp ..< bp + ?sz bp} \<union> units ?sz vs"
    "ubase m1 = ?b" "ubrk m1 = ubrk m"
    by (rule join_upper_ok [OF F(3) [unfolded sp(1)] F(4) [unfolded sp(1)] nF [unfolded sp(1)] B(1) v B(3) _ m1_def])
      (use F(6) sp(1) in auto)
  have nw: "bp \<notin> set (us @ q # ws)" using nF sp(1) w(3) by auto
  have same: "x \<in> set (us @ q # ws) \<Longrightarrow> usize m1 x = ?sz x" for x using w(6) nw by auto
  have sw: "sorted_wrt (below (usize m1)) (us @ q # ws)" 
    using w(4) below_cong [of "us @ q # ws" "usize m1" ?sz] same by blast
  define m2 where "m2 = join_lower bp q m1"
  have q1: "q + usize m1 q \<le> bp" "0 < usize m1 bp" using q w(6,7) B(2) sp(2) by auto
  obtain F' where F': "seg (uptr m2) ?b F' ?b" "sorted_wrt (below (usize m2)) F'" "hd F' = hd (us @ [q])" "F' \<noteq> []" "q \<in> set F'"
    "units (usize m2) F' = units (usize m1) (us @ q # ws) \<union> {bp ..< bp + usize m1 bp}"
    "set F' \<subseteq> insert bp (set (us @ q # ws))" "\<forall>a. a \<noteq> q \<longrightarrow> usize m2 a = usize m1 a"
    "usize m2 q = (if q + usize m1 q = bp then usize m1 q + usize m1 bp else usize m1 q)"
    "ubase m2 = ubase m1" "ubrk m2 = ubrk m1"
    by (rule join_lower_ok [OF w(1,2) sw w(5) q1(1) nw q1(2) m2_def])
  define m' where "m' = m2\<lparr>freep := Some q\<rparr>"
  have qb: "usize m1 q = ?sz q" using same by simp
  have base: "usize m2 ?b = 0"
  proof (cases "q = ?b")
    case True
    then show ?thesis using F'(9) qb F(5) B(1) by simp
  next
    case False
    then show ?thesis using F'(8) w(6) F(5) B(1) by simp
  qed
  have bound: "x + usize m2 x \<le> ubrk m \<and> (x \<noteq> ?b \<longrightarrow> 0 < usize m2 x)" if "x \<in> set F'" for x
  proof (cases "x = q")
    case True
    have "q \<noteq> ?b \<longrightarrow> 0 < ?sz q" "q + ?sz q \<le> ubrk m" using F(6,7) sp(1) by auto
    then show ?thesis using True F'(9) w(8) qb by auto
  next
    case xq: False
    show ?thesis
    proof (cases "x = bp")
      case True
      then show ?thesis using xq F'(8) w(8) q1(2) by auto
    next
      case False
      then have "x \<in> set F" using that F'(7) sp(1) w(3) by auto
      then show ?thesis using F(6,7) False xq F'(8) w(6) by auto
    qed
  qed
  have "heap_ok m' F'"
    using F' base bound w(10,11) F(2) sp(1) h by (auto simp: heap_ok_def m'_def hd_append split: if_splits)
  moreover have "free bp m = Some m'" by (simp add: free_def f pl m'_def m2_def m1_def free_link_def)
  moreover have "units (usize m') F' = units ?sz F \<union> {bp ..< bp + ?sz bp}"
  proof -
    have "units (usize m1) (us @ q # ws) = units ?sz (us @ q # ws)" by (rule units_cong) (rule same)
    then have "units (usize m') F' = units ?sz (us @ [q]) \<union> ({bp ..< bp + usize m1 bp} \<union> units ?sz ws)"
      using F'(6) by (auto simp: m'_def)
    then show ?thesis unfolding w(9) sp(1) by auto
  qed
  moreover have "\<forall>a. a \<notin> set F \<longrightarrow> a \<noteq> bp \<longrightarrow> usize m' a = ?sz a"
    using F'(8) w(6) sp(1) by (auto simp: m'_def)
  ultimately show thesis using that F'(10,11) w(10,11) by (simp add: m'_def)
qed

subsection \<open>malloc\<close>

text \<open>Taking a block: its units leave the list, which stays well-formed.\<close>

lemma carve_ok:
  assumes h: "heap_ok m (us @ p # x # vs)" and n: "0 < n" "n \<le> usize m x"
    and c: "carve n p x m = (r, m')"
  obtains F' where "heap_ok m' F'" "units (usize m') F' = units (usize m) (us @ p # x # vs) - {r ..< r + n}"
    "{r ..< r + n} \<subseteq> units (usize m) (us @ p # x # vs)" "usize m' r = n" "ubase m' = ubase m" "ubrk m' = ubrk m"
    "\<forall>a. a \<notin> set (us @ p # x # vs) \<longrightarrow> a \<noteq> r \<longrightarrow> usize m' a = usize m a"
proof -
  let ?F = "us @ p # x # vs" and ?sz = "usize m" and ?b = "ubase m"
  have F: "hd ?F = ?b" "seg (uptr m) ?b ?F ?b" "sorted_wrt (below ?sz) ?F" "?sz ?b = 0"
    "\<forall>y \<in> set ?F. y + ?sz y \<le> ubrk m" "\<forall>y \<in> set ?F. y \<noteq> ?b \<longrightarrow> 0 < ?sz y"
    "?b < ubrk m" using h by (simp_all add: heap_ok_def)
  have lo: "\<forall>z \<in> set us \<union> {p}. z + ?sz z < x" and hi: "\<forall>z \<in> set vs. x + ?sz x < z"
    using F(3) by (simp_all add: sorted_wrt_append below_def)
  have pu: "p \<notin> set us" "p \<notin> set vs"
    using below_less [OF F(3)] by (auto simp: sorted_wrt_append)
  have d: "x \<notin> set us" "x \<noteq> p" "x \<notin> set vs" using lo hi by (force, force, force)
  have xb: "x \<noteq> ?b" using n F(4) by auto
  have out: "units ?sz (us @ p # vs) \<inter> {x ..< x + ?sz x} = {}"
  proof -
    have "{z ..< z + ?sz z} \<inter> {x ..< x + ?sz x} = {}" if "z \<in> set (us @ p # vs)" for z
    proof (cases "z \<in> set vs")
      case True
      then have "x + ?sz x < z" using hi by blast
      then show ?thesis by auto
    next
      case False
      then have "z + ?sz z < x" using lo that by auto
      then show ?thesis by auto
    qed
    then show ?thesis unfolding units_def by blast
  qed
  have un: "units ?sz ?F = units ?sz (us @ p # vs) \<union> {x ..< x + ?sz x}" by (simp add: Un_ac)
  have sg: "seg (uptr m) ?b us p" "uptr m p = x" "seg (uptr m) (uptr m x) vs ?b" using F(2) by (auto simp: seg_append)
  show thesis
  proof (cases "?sz x = n")
    case True
    then have e: "r = x" "m' = m\<lparr>uptr := (uptr m)(p := uptr m x), freep := Some p\<rparr>"
      using c by (auto simp: carve_def)
    have 1: "hd (us @ p # vs) = ?b" using F(1) by (cases us) simp_all
    have 2: "seg (uptr m') ?b (us @ p # vs) ?b" using sg pu by (simp add: e seg_append)
    have 3: "sorted_wrt (below ?sz) (us @ p # vs)" using F(3) by (simp add: sorted_wrt_append)
    have "heap_ok m' (us @ p # vs)"
      using 1 2 3 F(4-7) by (simp add: heap_ok_def e)
    moreover have "units ?sz (us @ p # vs) = units ?sz ?F - {x ..< x + n}"
      using out un True by blast
    moreover have "{x ..< x + n} \<subseteq> units ?sz ?F" using un True by blast
    ultimately show ?thesis using True by (intro that [of "us @ p # vs"]) (simp_all add: e)
  next
    case False
    let ?k = "?sz x - n"
    have r: "r = x + ?k" and m': "m' = m\<lparr>usize := (?sz(x := ?k))(r := n), freep := Some p\<rparr>"
      using c False by (auto simp: carve_def Let_def)
    have k: "0 < ?k" "?k < ?sz x" "?k + n = ?sz x" using n False by auto
    have rx: "r \<noteq> x" "r < x + ?sz x" "x < r" using k r by linarith+
    have rF: "r \<notin> set ?F"
    proof
      assume "r \<in> set ?F"
      then consider "r \<in> set us \<union> {p}" | "r \<in> set vs" using rx(1) by auto
      then show False
      proof cases
        case 1
        then have "r + ?sz r < x" using lo by blast
        then show False using rx(3) by linarith
      next
        case 2
        then have "x + ?sz x < r" using hi by blast
        then show False using rx(2) by linarith
      qed
    qed
    have bF: "?b \<in> set ?F" using F(1) hd_in_set [of ?F] by (metis append_is_Nil_conv list.distinct(1))
    then have rb: "r \<noteq> ?b" using rF by blast
    have s1: "sorted_wrt (below (?sz(x := ?k))) ?F"
    proof -
      have "\<forall>z \<in> set vs. x + ?k < z" using hi k(2) by fastforce
      then show ?thesis using F(3) d by (auto simp: sorted_wrt_append)
    qed
    have sz': "usize m' = (?sz(x := ?k))(r := n)" by (simp add: m')
    have "sorted_wrt (below (usize m')) ?F" unfolding sz' using s1 rF below_upd by blast
    moreover have "y + usize m' y \<le> ubrk m \<and> (y \<noteq> ?b \<longrightarrow> 0 < usize m' y)" if "y \<in> set ?F" for y
    proof -
      have "y + ?sz y \<le> ubrk m" "y \<noteq> ?b \<longrightarrow> 0 < ?sz y" "y \<noteq> r" using F(5,6) that rF by blast+
      then show ?thesis using k by (auto simp: sz')
    qed
    moreover have "usize m' ?b = 0" using rb xb F(4) by (simp add: sz')
    ultimately have "heap_ok m' ?F" using F(1,2,7) by (simp add: heap_ok_def m')
    moreover have "units (usize m') ?F = units (?sz(x := ?k)) ?F" unfolding sz' using rF units_upd by blast
    moreover have "units (?sz(x := ?k)) ?F = units ?sz (us @ p # vs) \<union> {x ..< r}"
      using d r by (simp add: Un_ac)
    moreover have "{x ..< r} = {x ..< x + ?sz x} - {r ..< r + n}" "{r ..< r + n} \<subseteq> {x ..< x + ?sz x}"
      using r k by auto
    ultimately have "heap_ok m' ?F" "units (usize m') ?F = units ?sz ?F - {r ..< r + n}" "{r ..< r + n} \<subseteq> units ?sz ?F"
      using out un by blast+
    then show ?thesis using rF k by (intro that [of ?F]) (simp_all add: m')
  qed
qed

text \<open>The walk from \<open>prv\<close> over \<open>xs\<close> stops at the first block that is large enough.\<close>

lemma malloc_walk:
  "seg (uptr m) (uptr m prv) (xs @ x # ys) b \<Longrightarrow> \<forall>y \<in> set xs. usize m y < n \<Longrightarrow> f \<notin> set xs \<Longrightarrow> freep m = Some f \<Longrightarrow>
    malloc_loop g n prv (uptr m prv) m = malloc_loop g n (last (prv # xs)) x m"
proof (induction xs arbitrary: prv)
  case Nil
  then show ?case by simp
next
  case (Cons y xs)
  have "malloc_loop g n prv y m = malloc_loop g n y (uptr m y) m"
    using Cons.prems by (subst malloc_loop.simps) auto
  with Cons show ?case by auto
qed

text \<open>From \<^verbatim>\<open>freep\<close>, the list visits everything once and comes back to \<^verbatim>\<open>freep\<close> last.\<close>

lemma rotate_seg:
  assumes "seg nx b (us @ f # vs) b"
  shows "seg nx (nx f) (vs @ us @ [f]) (nx f)"
  using assms by (auto simp: seg_append)

lemma malloc_lap:
  assumes h: "heap_ok m F" and n: "0 < n" and f: "freep m = Some f"
    and fit: "\<exists>x \<in> set F. n \<le> usize m x"
  obtains us p x vs where "F = us @ p # x # vs" "n \<le> usize m x"
    "malloc_loop g n f (uptr m f) m = (case carve n p x m of (r, m) \<Rightarrow> Some (Some r, m))"
proof -
  have F: "F \<noteq> []" "hd F = ubase m" "seg (uptr m) (ubase m) F (ubase m)" "sorted_wrt (below (usize m)) F" "usize m (ubase m) = 0"
    "f \<in> set F" using h f by (auto simp: heap_ok_def)
  then obtain A B where ab: "F = A @ f # B" by (meson split_list)
  have sg: "seg (uptr m) (uptr m f) (B @ A @ [f]) (uptr m f)" using F(3) ab by (intro rotate_seg) simp
  have d: "distinct F" using below_less [OF F(4)] strict_sorted_iff by blast
  have set: "set (B @ A @ [f]) = set F" using ab by auto
  with fit obtain xs x ys where sp: "B @ A @ [f] = xs @ x # ys" "n \<le> usize m x" "\<forall>y \<in> set xs. \<not> n \<le> usize m y"
    using split_list_first_prop [of "B @ A @ [f]" "\<lambda>x. n \<le> usize m x"] by (metis set)
  have dl: "distinct (xs @ x # ys)" using d ab unfolding sp(1) [symmetric] by auto
  have "last (xs @ x # ys) = f" unfolding sp(1) [symmetric] by simp
  then have "f \<in> set (x # ys)" by (metis last_appendR last_in_set list.distinct(1))
  with dl have nf: "f \<notin> set xs" by auto
  let ?p = "last (f # xs)"
  have "malloc_loop g n f (uptr m f) m = malloc_loop g n ?p x m"
    by (rule malloc_walk [of m f xs x ys "uptr m f" n f]) (use sg sp nf f in auto)
  also have "\<dots> = (case carve n ?p x m of (r, m) \<Rightarrow> Some (Some r, m))"
    using sp(2) by (subst malloc_loop.simps) simp
  finally have run: "malloc_loop g n f (uptr m f) m = (case carve n ?p x m of (r, m) \<Rightarrow> Some (Some r, m))" .
  have nx: "uptr m ?p = x" using sg sp(1) by (cases xs rule: rev_cases) (auto simp: seg_append)
  have pF: "?p \<in> set F" using set sp(1) ab by (cases xs rule: rev_cases) auto
  then obtain us vs where p: "F = us @ ?p # vs" by (meson split_list)
  have xb: "x \<noteq> ubase m" using n sp(2) F(5) by auto
  from F(3) p have "seg (uptr m) (uptr m ?p) vs (ubase m)" by (metis seg.simps(2) seg_append)
  then obtain vs' where "vs = x # vs'" using nx xb by (cases vs) auto
  with p run sp(2) that show thesis by blast
qed

lemma malloc_no_fit:
  assumes h: "heap_ok m F" and f: "freep m = Some f" and no: "\<forall>x \<in> set F. usize m x < n"
  shows "malloc_loop g n f (uptr m f) m =
    (case morecore g n m of None \<Rightarrow> None | Some (None, m) \<Rightarrow> Some (None, m)
     | Some (Some p, m) \<Rightarrow> malloc_loop g n p (uptr m p) m)"
proof -
  have F: "seg (uptr m) (ubase m) F (ubase m)" "sorted_wrt (below (usize m)) F" "f \<in> set F"
    using h f by (auto simp: heap_ok_def)
  then obtain A B where ab: "F = A @ f # B" by (meson split_list)
  have sg: "seg (uptr m) (uptr m f) ((B @ A) @ [f]) (uptr m f)"
    using F(1) ab rotate_seg [of "uptr m" "ubase m" A f B] by simp
  have "distinct F" using below_less [OF F(2)] strict_sorted_iff by blast
  then have "f \<notin> set (B @ A)" using ab by auto
  have nf: "\<not> n \<le> usize m f" using no F(3) by auto
  from \<open>f \<notin> set (B @ A)\<close> have "malloc_loop g n f (uptr m f) m = malloc_loop g n (last (f # B @ A)) f m"
    by (intro malloc_walk [OF sg _ _ f]) (use no ab in auto)
  also have "\<dots> = (case morecore g n m of None \<Rightarrow> None | Some (None, m) \<Rightarrow> Some (None, m)
     | Some (Some p, m) \<Rightarrow> malloc_loop g n p (uptr m p) m)"
    using nf f by (subst malloc_loop.simps) simp
  finally show ?thesis .
qed

text \<open>A range of free units lies in one block, since blocks do not touch.\<close>

lemma range_in_block:
  assumes "sorted_wrt (below sz) F" "{a ..< a + k} \<subseteq> units sz F" "0 < (k :: nat)"
  shows "\<exists>x \<in> set F. k \<le> sz x"
proof -
  have "a \<in> units sz F" using assms(2,3) by auto
  then obtain x where x: "x \<in> set F" "x \<le> a" "a < x + sz x" by (auto simp: units_def)
  have "a + k \<le> x + sz x"
  proof (rule ccontr)
    assume "\<not> a + k \<le> x + sz x"
    then have "x + sz x \<in> units sz F" using assms(2) x by auto
    then obtain y where y: "y \<in> set F" "y \<le> x + sz x" "x + sz x < y + sz y" by (auto simp: units_def)
    have "below sz x y \<or> below sz y x \<or> x = y"
      using assms(1) x(1) y(1) by (induction F) auto
    then show False using x y by (auto simp: below_def)
  qed
  then have "k \<le> sz x" using x(2) by linarith
  with x(1) show ?thesis by blast
qed

lemma units_below_brk: "heap_ok m F \<Longrightarrow> units (usize m) F \<subseteq> {..< ubrk m}"
  by (force simp: heap_ok_def units_def)

lemma morecore_ok:
  assumes h: "heap_ok m F" and g: "g (ubrk m) (int nu) \<noteq> None" and nu: "nu = (if n < 4096 then 4096 else n)" "grows g \<and> n < 2 ^ 28"
  obtains q m' F' where "morecore g n m = Some (Some q, m')" "freep m' = Some q" "heap_ok m' F'"
    "units (usize m') F' = units (usize m) F \<union> {ubrk m ..< ubrk m + nu}" "ubase m' = ubase m"
    "ubrk m' = ubrk m + nu" "\<forall>a. a \<notin> set F \<longrightarrow> a < ubrk m \<longrightarrow> usize m' a = usize m a"
proof -
  let ?m = "m\<lparr>ubrk := ubrk m + nu, usize := (usize m)(ubrk m := nu)\<rparr>"
  have md: "0 < nu" "int nu < 2 ^ 28" "grows g" using nu by auto
  then have sg: "signed_take_bit 28 (int nu) = int nu" by (intro signed_take_bit_int_eq_self) auto
  have gb: "g (ubrk m) (int nu) = Some (ubrk m + nu)" 
    using g md(3) unfolding grows_def by (metis int_nat_eq nat_int not_None_eq of_nat_0_le_iff)
  have hb: "ubase m < ubrk m" "\<forall>x \<in> set F. x + usize m x \<le> ubrk m" "\<forall>x \<in> set F. x \<noteq> ubase m \<longrightarrow> 0 < usize m x"
    using h by (auto simp: heap_ok_def)
  have nF: "ubrk m \<notin> set F" using hb by fastforce
  then have u: "units (usize ?m) F = units (usize m) F" by simp
  have "heap_ok ?m F" using h nF hb by (auto simp: heap_ok_def)
  moreover have "used_block ?m F (ubrk m)"
    using units_below_brk [OF h] hb(1) md(1) u by (auto simp: used_block_def)
  ultimately obtain m' F' where f: "free (ubrk m) ?m = Some m'" "heap_ok m' F'"
    "units (usize m') F' = units (usize ?m) F \<union> {ubrk m ..< ubrk m + usize ?m (ubrk m)}"
    "ubase m' = ubase ?m" "ubrk m' = ubrk ?m" "\<forall>a. a \<notin> set F \<longrightarrow> a \<noteq> ubrk m \<longrightarrow> usize m' a = usize ?m a"
    by (rule free_ok)
  obtain q where q: "freep m' = Some q" using f(2) by (auto simp: heap_ok_def)
  have "morecore g n m = Some (Some q, m')"
    using gb sg nu(1) f(1) q by (simp add: morecore_def Let_def)
  then show thesis using that q f u by auto
qed

lemma malloc_take:
  assumes h: "heap_ok m F" and n: "0 < n" and f: "freep m = Some f" and fit: "\<exists>x \<in> set F. n \<le> usize m x"
  obtains r m' F' where "malloc_loop g n f (uptr m f) m = Some (Some r, m')" "heap_ok m' F'" "usize m' r = n"
    "units (usize m') F' = units (usize m) F - {r ..< r + n}" "{r ..< r + n} \<subseteq> units (usize m) F"
    "ubase m' = ubase m" "ubrk m' = ubrk m" "\<forall>a. a \<notin> set F \<longrightarrow> a \<noteq> r \<longrightarrow> usize m' a = usize m a"
proof -
  obtain us p x vs where l: "F = us @ p # x # vs" "n \<le> usize m x"
    "malloc_loop g n f (uptr m f) m = (case carve n p x m of (r, m) \<Rightarrow> Some (Some r, m))"
    by (rule malloc_lap [OF h n f fit])
  obtain r m' where c: "carve n p x m = (r, m')" by fastforce
  show thesis
    by (rule carve_ok [OF h [unfolded l(1)] n l(2) c]) (use that l c in simp)
qed

text \<open>What one call does to the free units: a null pointer only if nothing fits and the break cannot
  grow, and else a block of the size asked for, out of the free units and those of a new block.\<close>

lemma malloc_loop_ok:
  assumes h: "heap_ok m F" and n: "0 < n" "grows g \<and> n < 2 ^ 28" and f: "freep m = Some f"
  shows "malloc_loop g n f (uptr m f) m = Some (None, m) \<and> g (ubrk m) (int (if n < 4096 then 4096 else n)) = None \<or>
    (\<exists>r m' F'. malloc_loop g n f (uptr m f) m = Some (Some r, m') \<and> heap_ok m' F' \<and> usize m' r = n \<and>
      units (usize m') F' = units (usize m) F \<union> {ubrk m ..< ubrk m'} - {r ..< r + n} \<and>
      {r ..< r + n} \<subseteq> units (usize m) F \<union> {ubrk m ..< ubrk m'} \<and>
      ubase m' = ubase m \<and> ubrk m \<le> ubrk m' \<and>
      (\<forall>a. a \<notin> set F \<longrightarrow> a \<notin> units (usize m) F \<longrightarrow> a < ubrk m \<longrightarrow> usize m' a = usize m a))"
proof (cases "\<exists>x \<in> set F. n \<le> usize m x")
  case True
  obtain r m' F' where t: "malloc_loop g n f (uptr m f) m = Some (Some r, m')" "heap_ok m' F'" "usize m' r = n"
    "units (usize m') F' = units (usize m) F - {r ..< r + n}" "{r ..< r + n} \<subseteq> units (usize m) F"
    "ubase m' = ubase m" "ubrk m' = ubrk m" "\<forall>a. a \<notin> set F \<longrightarrow> a \<noteq> r \<longrightarrow> usize m' a = usize m a"
    by (rule malloc_take [OF h n(1) f True])
  have "r \<in> units (usize m) F" using t(5) n(1) by auto
  then show ?thesis using t by (intro disjI2 exI [of _ r] exI [of _ m'] exI [of _ F']) auto
next
  case False
  then have no: "\<forall>x \<in> set F. usize m x < n" by auto
  define nu where "nu = (if n < 4096 then 4096 else n)"
  show ?thesis
  proof (cases "g (ubrk m) (int nu) \<noteq> None")
    case False
    have "int nu < 2 ^ 28" using n(2) by (auto simp: nu_def)
    then have "signed_take_bit 28 (int nu) = int nu" by (intro signed_take_bit_int_eq_self) auto
    then have "morecore g n m = Some (None, m)" using False by (simp add: morecore_def nu_def Let_def)
    then show ?thesis using malloc_no_fit [OF h f no] False by (simp add: nu_def)
  next
    case True
    obtain q m1 F1 where m1: "morecore g n m = Some (Some q, m1)" "freep m1 = Some q" "heap_ok m1 F1"
      "units (usize m1) F1 = units (usize m) F \<union> {ubrk m ..< ubrk m + nu}" "ubase m1 = ubase m"
      "ubrk m1 = ubrk m + nu" "\<forall>a. a \<notin> set F \<longrightarrow> a < ubrk m \<longrightarrow> usize m1 a = usize m a"
      by (rule morecore_ok [of m F g nu n, OF h True nu_def n(2)])
    have "{ubrk m ..< ubrk m + nu} \<subseteq> units (usize m1) F1" "0 < nu" "n \<le> nu" using m1(4) n(1) by (auto simp: nu_def)
    moreover have "sorted_wrt (below (usize m1)) F1" using m1(3) by (simp add: heap_ok_def)
    ultimately have fit: "\<exists>x \<in> set F1. n \<le> usize m1 x" using range_in_block order_trans by metis
    obtain r m' F' where t: "malloc_loop g n q (uptr m1 q) m1 = Some (Some r, m')" "heap_ok m' F'" "usize m' r = n"
      "units (usize m') F' = units (usize m1) F1 - {r ..< r + n}" "{r ..< r + n} \<subseteq> units (usize m1) F1"
      "ubase m' = ubase m1" "ubrk m' = ubrk m1" "\<forall>a. a \<notin> set F1 \<longrightarrow> a \<noteq> r \<longrightarrow> usize m' a = usize m1 a"
      by (rule malloc_take [OF m1(3) n(1) m1(2) fit])
    have r: "r \<in> units (usize m1) F1" using t(5) n(1) by auto
    have keep: "usize m' a = usize m a" if "a \<notin> set F" "a \<notin> units (usize m) F" "a < ubrk m" for a
    proof -
      have nu1: "a \<notin> units (usize m1) F1" using that m1(4) by auto
      then have ar: "a \<noteq> r" using r by auto
      show ?thesis
      proof (cases "a \<in> set F1")
        case True
        have b: "a = ubase m" using nu1 True m1(3,5) by (force simp: heap_ok_def units_def)
        then have "a \<in> set F" using h hd_in_set [of F] by (auto simp: heap_ok_def)
        with that show ?thesis by simp
      next
        case False
        then show ?thesis using t(8) ar m1(7) that by auto
      qed
    qed
    show ?thesis
      using malloc_no_fit [OF h f no, of g] m1 t keep
      by (intro disjI2 exI [of _ r] exI [of _ m'] exI [of _ F']) auto
  qed
qed

subsection \<open>Histories\<close>

text \<open>
  The histories of a program that frees only blocks it has been given and not freed yet: \<open>A\<close> is the
  list of the blocks it holds. It starts with the free list not yet set up.
\<close>

inductive heap_run :: "umem \<Rightarrow> umem \<Rightarrow> nat list \<Rightarrow> bool" for m0 where
  Start: "heap_run m0 m0 []"
| Malloc: "heap_run m0 m A \<Longrightarrow> grows g \<and> nunits nb < 2 ^ 28 \<Longrightarrow> malloc g nb m = Some (Some r, m') \<Longrightarrow> heap_run m0 m' (r # A)"
| Refused: "heap_run m0 m A \<Longrightarrow> grows g \<and> nunits nb < 2 ^ 28 \<Longrightarrow> malloc g nb m = Some (None, m') \<Longrightarrow> heap_run m0 m' A"
| Free: "heap_run m0 m A \<Longrightarrow> bp \<in> set A \<Longrightarrow> free bp m = Some m' \<Longrightarrow> heap_run m0 m' (remove1 bp A)"

definition block :: "umem \<Rightarrow> nat \<Rightarrow> nat set" where
  "block m a = {a ..< a + usize m a}"

text \<open>The blocks held are apart from each other and from the free units, and together with those make
  up the heap between its start and the break.\<close>

definition heap_inv :: "nat \<Rightarrow> umem \<Rightarrow> nat list \<Rightarrow> nat list \<Rightarrow> bool" where
  "heap_inv start m F A \<longleftrightarrow> heap_ok m F \<and> ubase m < start \<and> start \<le> ubrk m \<and> distinct A \<and>
     (\<forall>a \<in> set A. used_block m F a) \<and>
     (\<forall>a \<in> set A. \<forall>b \<in> set A. a \<noteq> b \<longrightarrow> block m a \<inter> block m b = {}) \<and>
     units (usize m) F \<union> (\<Union>a \<in> set A. block m a) = {start ..< ubrk m}"

lemma nunits_pos: "0 < nunits nb"
proof -
  define x where "x = nb + 8 - 1"
  define w where "w = x div 8"
  have "unat w = unat x div 8" by (simp add: w_def unat_div)
  moreover have "unat x < 2 ^ 32" using unsigned_less [where 'a = nat and w = x] by simp
  ultimately have "unat w + 1 < 2 ^ 32" by simp
  then have "unat (w + 1) = unat w + 1" by (simp add: unat_word_ariths)
  then show ?thesis by (simp add: nunits_def w_def x_def)
qed

lemma used_block_start: "used_block m F a \<Longrightarrow> a \<in> block m a \<and> a \<notin> units (usize m) F \<and> a < ubrk m"
  by (force simp: used_block_def block_def)

lemma used_not_in_list: "heap_ok m F \<Longrightarrow> used_block m F a \<Longrightarrow> a \<notin> set F"
proof
  assume h: "heap_ok m F" "used_block m F a" "a \<in> set F"
  then have "a \<in> units (usize m) F" unfolding units_def used_block_def by (intro UN_I) auto
  then show False using used_block_start [OF h(2)] by blast
qed

lemma heap_inv_malloc:
  assumes i: "heap_inv start m F A" and n: "0 < n" "grows g \<and> n < 2 ^ 28" and f: "freep m = Some f"
  shows "malloc_loop g n f (uptr m f) m = Some (None, m) \<and> g (ubrk m) (int (if n < 4096 then 4096 else n)) = None \<or>
    (\<exists>r m' F'. malloc_loop g n f (uptr m f) m = Some (Some r, m') \<and> heap_inv start m' F' (r # A) \<and>
      usize m' r = n \<and> (\<forall>a \<in> set A. usize m' a = usize m a))"
proof -
  have I: "heap_ok m F" "ubase m < start" "start \<le> ubrk m" "distinct A" "\<forall>a \<in> set A. used_block m F a"
    "\<forall>a \<in> set A. \<forall>b \<in> set A. a \<noteq> b \<longrightarrow> block m a \<inter> block m b = {}"
    "units (usize m) F \<union> (\<Union>a \<in> set A. block m a) = {start ..< ubrk m}"
    using i by (simp_all add: heap_inv_def)
  let ?U = "units (usize m) F"
  from malloc_loop_ok [OF I(1) n f] show ?thesis
  proof (elim disjE)
    assume "\<exists>r m' F'. malloc_loop g n f (uptr m f) m = Some (Some r, m') \<and> heap_ok m' F' \<and> usize m' r = n \<and>
      units (usize m') F' = ?U \<union> {ubrk m ..< ubrk m'} - {r ..< r + n} \<and>
      {r ..< r + n} \<subseteq> ?U \<union> {ubrk m ..< ubrk m'} \<and> ubase m' = ubase m \<and> ubrk m \<le> ubrk m' \<and>
      (\<forall>a. a \<notin> set F \<longrightarrow> a \<notin> ?U \<longrightarrow> a < ubrk m \<longrightarrow> usize m' a = usize m a)"
    then obtain r m' F' where R: "malloc_loop g n f (uptr m f) m = Some (Some r, m')" "heap_ok m' F'" "usize m' r = n"
      "units (usize m') F' = ?U \<union> {ubrk m ..< ubrk m'} - {r ..< r + n}"
      "{r ..< r + n} \<subseteq> ?U \<union> {ubrk m ..< ubrk m'}" "ubase m' = ubase m" "ubrk m \<le> ubrk m'"
      "\<forall>a. a \<notin> set F \<longrightarrow> a \<notin> ?U \<longrightarrow> a < ubrk m \<longrightarrow> usize m' a = usize m a" by blast
    have sz: "usize m' a = usize m a" if "a \<in> set A" for a
      using R(8) used_not_in_list [OF I(1)] used_block_start I(5) that by blast
    then have bl: "block m' a = block m a" if "a \<in> set A" for a using that by (simp add: block_def)
    have br: "block m' r = {r ..< r + n}" by (simp add: block_def R(3))
    have old: "block m a \<inter> ?U = {}" "block m a \<subseteq> {start ..< ubrk m}" if "a \<in> set A" for a
    proof -
      show "block m a \<inter> ?U = {}" using I(5) that by (auto simp: used_block_def block_def)
      show "block m a \<subseteq> {start ..< ubrk m}" using I(7) that by blast
    qed
    have apart: "block m a \<inter> {r ..< r + n} = {}" if "a \<in> set A" for a
    proof (rule equals0I)
      fix y assume y: "y \<in> block m a \<inter> {r ..< r + n}"
      then have "y < ubrk m" "y \<notin> ?U" using old [OF that] by auto
      moreover have "y \<in> ?U \<union> {ubrk m ..< ubrk m'}" using y R(5) by blast
      ultimately show False by simp
    qed
    have rin: "r \<in> {r ..< r + n}" using n(1) by simp
    then have rA: "r \<notin> set A" using apart used_block_start I(5) by blast
    have top: "{r ..< r + n} \<subseteq> {start ..< ubrk m'}"
    proof
      fix y assume "y \<in> {r ..< r + n}"
      then have "y \<in> ?U \<or> y \<in> {ubrk m ..< ubrk m'}" using R(5) by blast
      moreover have "?U \<subseteq> {start ..< ubrk m}" using I(7) by blast
      ultimately show "y \<in> {start ..< ubrk m'}" using I(3) R(7) by auto
    qed
    have ub: "used_block m' F' r"
    proof -
      have "r + n - 1 \<in> {r ..< r + n}" using n(1) by auto
      then have "r + n - 1 < ubrk m'" using top by auto
      moreover have "start \<le> r" using top rin by auto
      ultimately have "ubase m < r" "r + n \<le> ubrk m'" using I(2) n(1) by linarith+
      moreover have "{r ..< r + n} \<inter> units (usize m') F' = {}" unfolding R(4) by blast
      ultimately show ?thesis unfolding used_block_def R(3,6) using n(1) by simp
    qed
    have ua: "used_block m' F' a" if "a \<in> set A" for a
    proof -
      have u: "ubase m < a" "0 < usize m a" "a + usize m a \<le> ubrk m" using I(5) that by (auto simp: used_block_def)
      have "block m a \<inter> {ubrk m ..< ubrk m'} = {}" using old(2) [OF that] by auto
      then have "block m a \<inter> units (usize m') F' = {}" unfolding R(4) using old(1) [OF that] by blast
      then show ?thesis unfolding used_block_def sz [OF that] R(6) using u R(7) by (simp add: block_def)
    qed
    have "units (usize m') F' \<union> (\<Union>a \<in> set (r # A). block m' a) = {start ..< ubrk m'}"
    proof -
      have "(\<Union>a \<in> set (r # A). block m' a) = {r ..< r + n} \<union> (\<Union>a \<in> set A. block m a)" using bl br by simp
      then have "units (usize m') F' \<union> (\<Union>a \<in> set (r # A). block m' a) =
          ?U \<union> {ubrk m ..< ubrk m'} \<union> (\<Union>a \<in> set A. block m a)"
        unfolding R(4) using R(5) by blast
      also have "\<dots> = {start ..< ubrk m} \<union> {ubrk m ..< ubrk m'}" using I(7) by blast
      finally show ?thesis using I(3) R(7) by (simp add: ivl_disj_un_two(3))
    qed
    moreover have "\<forall>a \<in> set (r # A). \<forall>b \<in> set (r # A). a \<noteq> b \<longrightarrow> block m' a \<inter> block m' b = {}"
    proof (intro ballI impI)
      fix a b assume ab: "a \<in> set (r # A)" "b \<in> set (r # A)" "a \<noteq> b"
      then consider "a = r" "b \<in> set A" | "b = r" "a \<in> set A" | "a \<in> set A" "b \<in> set A" by auto
      then show "block m' a \<inter> block m' b = {}"
        by cases (use ab I(6) bl br apart in blast)+
    qed
    ultimately have "heap_inv start m' F' (r # A)"
      using I(2-4) R(2,6,7) rA ub ua by (simp add: heap_inv_def)
    with R(1,3) sz show ?thesis by blast
  qed simp
qed

lemma heap_inv_free:
  assumes i: "heap_inv start m F A" and a: "bp \<in> set A"
  shows "\<exists>m' F'. free bp m = Some m' \<and> heap_inv start m' F' (remove1 bp A)"
proof -
  have I: "heap_ok m F" "ubase m < start" "start \<le> ubrk m" "distinct A" "\<forall>a \<in> set A. used_block m F a"
    "\<forall>a \<in> set A. \<forall>b \<in> set A. a \<noteq> b \<longrightarrow> block m a \<inter> block m b = {}"
    "units (usize m) F \<union> (\<Union>a \<in> set A. block m a) = {start ..< ubrk m}"
    using i by (simp_all add: heap_inv_def)
  have u: "used_block m F bp" using I(5) a by blast
  obtain m' F' where f: "free bp m = Some m'" "heap_ok m' F'"
    "units (usize m') F' = units (usize m) F \<union> block m bp"
    "ubase m' = ubase m" "ubrk m' = ubrk m" "\<forall>a. a \<notin> set F \<longrightarrow> a \<noteq> bp \<longrightarrow> usize m' a = usize m a"
    by (rule free_ok [OF I(1) u]) (simp add: block_def)
  let ?A = "remove1 bp A"
  have sA: "set ?A = set A - {bp}" using I(4) by (simp add: set_remove1_eq)
  have sz: "usize m' a = usize m a" if "a \<in> set ?A" for a
    using f(6) used_not_in_list [OF I(1)] I(5) that sA by blast
  then have bl: "block m' a = block m a" if "a \<in> set ?A" for a using that by (simp add: block_def)
  have "used_block m' F' a" if "a \<in> set ?A" for a
  proof -
    have "block m a \<inter> block m bp = {}" "used_block m F a" using I(5,6) a that sA by blast+
    then show ?thesis unfolding used_block_def sz [OF that] f(3-5) by (auto simp: block_def)
  qed
  moreover have "units (usize m') F' \<union> (\<Union>a \<in> set ?A. block m' a) = {start ..< ubrk m'}"
  proof -
    have "(\<Union>a \<in> set ?A. block m' a) = (\<Union>a \<in> set A - {bp}. block m a)" using bl sA by auto
    then show ?thesis unfolding f(3,5) I(7) [symmetric] using a by blast
  qed
  moreover have "\<forall>a \<in> set ?A. \<forall>b \<in> set ?A. a \<noteq> b \<longrightarrow> block m' a \<inter> block m' b = {}"
    using I(6) bl sA by auto
  ultimately have "heap_inv start m' F' ?A"
    using I(2-4) f(2,4,5) by (simp add: heap_inv_def)
  with f(1) show ?thesis by blast
qed

text \<open>Before the first \<^verbatim>\<open>malloc\<close> there is no free list; the first call sets it up with \<open>base\<close> alone.\<close>

definition fresh :: "umem \<Rightarrow> bool" where
  "fresh m \<longleftrightarrow> freep m = None \<and> ubase m < ubrk m"

definition heap_state :: "umem \<Rightarrow> umem \<Rightarrow> nat list \<Rightarrow> bool" where
  "heap_state m0 m A \<longleftrightarrow> m = m0 \<and> A = [] \<or> (\<exists>F. heap_inv (ubrk m0) m F A)"

lemma malloc_state:
  assumes "fresh m0" "heap_state m0 m A" "grows g \<and> nunits nb < 2 ^ 28"
  shows "(\<exists>m'. malloc g nb m = Some (None, m') \<and> heap_state m0 m' A \<and>
      g (ubrk m) (int (if nunits nb < 4096 then 4096 else nunits nb)) = None) \<or>
    (\<exists>r m'. malloc g nb m = Some (Some r, m') \<and> heap_state m0 m' (r # A) \<and> usize m' r = nunits nb \<and>
      (\<forall>a \<in> set A. usize m' a = usize m a))"
proof -
  let ?n = "nunits nb"
  obtain m1 f F where m1: "malloc g nb m = malloc_loop g ?n f (uptr m1 f) m1" "freep m1 = Some f"
    "heap_inv (ubrk m0) m1 F A" "\<forall>a \<in> set A. usize m1 a = usize m a" "ubrk m1 = ubrk m"
  proof (cases "freep m")
    case None
    then have m: "m = m0" "A = []"
      using assms(2) by (auto simp: heap_state_def heap_inv_def heap_ok_def)
    let ?m = "set_size (ubase m) 0 (set_ptr (ubase m) (ubase m) (m\<lparr>freep := Some (ubase m)\<rparr>))"
    have "heap_inv (ubrk m0) ?m [ubase m] A"
      using assms(1) m by (auto simp: heap_inv_def heap_ok_def fresh_def)
    then show thesis using that [of "ubase m" ?m "[ubase m]"] None m by (simp add: malloc_def Let_def)
  next
    case (Some q)
    then have "m \<noteq> m0" using assms(1) by (auto simp: fresh_def)
    then obtain F where "heap_inv (ubrk m0) m F A" using assms(2) by (auto simp: heap_state_def)
    then show thesis using that [of q m F] Some by (simp add: malloc_def)
  qed
  from heap_inv_malloc [OF m1(3) nunits_pos assms(3) m1(2)] show ?thesis
  proof (elim disjE exE conjE)
    assume "malloc_loop g ?n f (uptr m1 f) m1 = Some (None, m1)" "g (ubrk m1) (int (if ?n < 4096 then 4096 else ?n)) = None"
    moreover have "heap_state m0 m1 A" unfolding heap_state_def using m1(3) by blast
    ultimately show ?thesis using m1(1,5) by auto
  next
    fix r m' F'
    assume "malloc_loop g ?n f (uptr m1 f) m1 = Some (Some r, m')" "heap_inv (ubrk m0) m' F' (r # A)" "usize m' r = ?n"
      "\<forall>a \<in> set A. usize m' a = usize m1 a"
    moreover from this have "heap_state m0 m' (r # A)" unfolding heap_state_def by blast
    ultimately show ?thesis using m1(1,4) by auto
  qed
qed

lemma free_state:
  assumes "heap_state m0 m A" "bp \<in> set A"
  shows "\<exists>m'. free bp m = Some m' \<and> heap_state m0 m' (remove1 bp A)"
proof -
  obtain F where "heap_inv (ubrk m0) m F A" using assms by (auto simp: heap_state_def)
  from heap_inv_free [OF this assms(2)] show ?thesis unfolding heap_state_def by blast
qed

lemma heap_run_state: "heap_run m0 m A \<Longrightarrow> fresh m0 \<Longrightarrow> heap_state m0 m A"
proof (induction rule: heap_run.induct)
  case Start
  then show ?case by (simp add: heap_state_def)
next
  case (Malloc m A nb g r m')
  then show ?case using malloc_state [of m0 m A nb g] by auto
next
  case (Refused m A nb g m')
  then show ?case using malloc_state [of m0 m A nb g] by auto
next
  case (Free m A bp m')
  then show ?case using free_state by fastforce
qed

text \<open>C39: the allocator never hands out memory twice. Over every history of \<^verbatim>\<open>malloc\<close> and \<^verbatim>\<open>free\<close> by a program
  that frees only blocks it holds, the blocks it holds do not overlap each other or the free list, and
  together with the free blocks they are the whole heap, so that nothing is lost. Each call returns,
  although it runs around a circular list: a \<^verbatim>\<open>free\<close> always, and a \<^verbatim>\<open>malloc\<close> of less than two gigabytes
  with a block of exactly the size asked for, leaving the sizes of the blocks held as they were, or with
  a null pointer if the break could not be moved.\<close>

theorem malloc_safe:
  assumes "fresh m0" "heap_run m0 m A"
  shows "(m = m0 \<and> A = [] \<or> (\<exists>F. heap_inv (ubrk m0) m F A)) \<and>
    (\<forall>bp \<in> set A. free bp m \<noteq> None) \<and>
    (\<forall>g nb. grows g \<and> nunits nb < 2 ^ 28 \<longrightarrow>
      (\<exists>m'. malloc g nb m = Some (None, m') \<and> g (ubrk m) (int (if nunits nb < 4096 then 4096 else nunits nb)) = None) \<or>
      (\<exists>r m'. malloc g nb m = Some (Some r, m') \<and> usize m' r = nunits nb \<and> (\<forall>a \<in> set A. usize m' a = usize m a)))"
proof -
  have s: "heap_state m0 m A" using heap_run_state [OF assms(2,1)] .
  have 1: "m = m0 \<and> A = [] \<or> (\<exists>F. heap_inv (ubrk m0) m F A)" using s unfolding heap_state_def .
  have 2: "\<forall>bp \<in> set A. free bp m \<noteq> None" using free_state [OF s] by fastforce
  have "(\<exists>m'. malloc g nb m = Some (None, m') \<and> g (ubrk m) (int (if nunits nb < 4096 then 4096 else nunits nb)) = None) \<or>
      (\<exists>r m'. malloc g nb m = Some (Some r, m') \<and> usize m' r = nunits nb \<and> (\<forall>a \<in> set A. usize m' a = usize m a))"
    if "grows g \<and> nunits nb < 2 ^ 28" for g nb
    using malloc_state [OF assms(1) s that] by blast
  with 1 2 show ?thesis by blast
qed

definition new_heap :: umem where
  "new_heap = \<lparr>uptr = (\<lambda>_. 0), usize = (\<lambda>_. 0), freep = None, ubase = 4, ubrk = 512\<rparr>"

definition always :: "nat \<Rightarrow> int \<Rightarrow> nat option" where
  "always b n = Some (nat (int b + n))"

theorem malloc_safe_witness:
  "\<exists>r m F. malloc always 100 new_heap = Some (Some r, m) \<and> usize m r = 14 \<and> heap_inv 512 m F [r]"
proof -
  have f: "fresh new_heap" by (simp add: fresh_def new_heap_def)
  have n: "nunits 100 = 14" by (simp add: nunits_def)
  have g: "grows always" by (auto simp: grows_def always_def)
  from malloc_safe [OF f Start] have
    all: "\<forall>g nb. grows g \<and> nunits nb < 2 ^ 28 \<longrightarrow>
      (\<exists>m'. malloc g nb new_heap = Some (None, m') \<and>
        g (ubrk new_heap) (int (if nunits nb < 4096 then 4096 else nunits nb)) = None) \<or>
      (\<exists>r m'. malloc g nb new_heap = Some (Some r, m') \<and> usize m' r = nunits nb \<and>
        (\<forall>a \<in> set []. usize m' a = usize new_heap a))" by (rule conjunct2 [OF conjunct2])
  obtain r m where m: "malloc always 100 new_heap = Some (Some r, m)" "usize m r = 14"
    using spec [OF spec [OF all, of always], of 100] g unfolding n by (auto simp: always_def)
  have "heap_run new_heap m [r]" by (rule Malloc [OF Start _ m(1)]) (simp add: n g)
  from malloc_safe [OF f this] m show ?thesis by (auto simp: new_heap_def)
qed

end
