(* ===== verification/Gates.thy ===== *)
theory Gates
  imports Xv6_Prelude
begin

text \<open>
  The descriptor tables of the processor: \<^verbatim>\<open>struct segdesc\<close>, \<^verbatim>\<open>struct gatedesc\<close> and their macros of \<^verbatim>\<open>mmu.h\<close>,
  \<^verbatim>\<open>tvinit\<close> of \<^verbatim>\<open>trap.c\<close> and \<^verbatim>\<open>seginit\<close> of \<^verbatim>\<open>vm.c\<close>. Bit fields are words of their width. The addresses of the
  256 entry points in \<^verbatim>\<open>vectors.S\<close> are an input. Loading the tables (\<^verbatim>\<open>lidt\<close>, \<^verbatim>\<open>lgdt\<close>) is left out. Shown: user
  programs can enter the kernel by an interrupt instruction only through the system call gate, every
  vector leads to its entry point, and the segments are flat.
\<close>

unbundle bit_operations_syntax

subsection \<open>Descriptors\<close>

record segdesc =
  lim_15_0 :: u16
  base_15_0 :: u16
  base_23_16 :: u8
  seg_type :: "4 word"
  seg_s :: "1 word"
  seg_dpl :: "2 word"
  seg_p :: "1 word"
  lim_19_16 :: "4 word"
  avl :: "1 word"
  seg_rsv1 :: "1 word"
  db :: "1 word"
  gran :: "1 word"
  base_31_24 :: u8

record gatedesc =
  off_15_0 :: u16
  gate_cs :: u16
  args :: "5 word"
  gate_rsv1 :: "3 word"
  gate_type :: "4 word"
  gate_s :: "1 word"
  gate_dpl :: "2 word"
  gate_p :: "1 word"
  off_31_16 :: u16

abbreviation (input) SEG_KCODE :: nat where "SEG_KCODE \<equiv> 1"
abbreviation (input) SEG_KDATA :: nat where "SEG_KDATA \<equiv> 2"
abbreviation (input) SEG_UCODE :: nat where "SEG_UCODE \<equiv> 3"
abbreviation (input) SEG_UDATA :: nat where "SEG_UDATA \<equiv> 4"
abbreviation (input) NSEGS :: nat where "NSEGS \<equiv> 6"
abbreviation (input) DPL_USER :: "2 word" where "DPL_USER \<equiv> 3"
abbreviation (input) STA_X :: "4 word" where "STA_X \<equiv> 8"
abbreviation (input) STA_W :: "4 word" where "STA_W \<equiv> 2"
abbreviation (input) STA_R :: "4 word" where "STA_R \<equiv> 2"
abbreviation (input) STS_IG32 :: "4 word" where "STS_IG32 \<equiv> 0xE"
abbreviation (input) STS_TG32 :: "4 word" where "STS_TG32 \<equiv> 0xF"
abbreviation (input) T_SYSCALL :: nat where "T_SYSCALL \<equiv> 64"

definition SEG :: "4 word \<Rightarrow> u32 \<Rightarrow> u32 \<Rightarrow> 2 word \<Rightarrow> segdesc" where
  "SEG ty bs lim d =
     \<lparr>lim_15_0 = ucast (drop_bit 12 lim AND 0xffff), base_15_0 = ucast (bs AND 0xffff),
      base_23_16 = ucast (drop_bit 16 bs AND 0xff), seg_type = ty, seg_s = 1, seg_dpl = d, seg_p = 1,
      lim_19_16 = ucast (drop_bit 28 lim), avl = 0, seg_rsv1 = 0, db = 1, gran = 1,
      base_31_24 = ucast (drop_bit 24 bs)\<rparr>"

definition SEG16 :: "4 word \<Rightarrow> u32 \<Rightarrow> u32 \<Rightarrow> 2 word \<Rightarrow> segdesc" where
  "SEG16 ty bs lim d =
     \<lparr>lim_15_0 = ucast (lim AND 0xffff), base_15_0 = ucast (bs AND 0xffff),
      base_23_16 = ucast (drop_bit 16 bs AND 0xff), seg_type = ty, seg_s = 1, seg_dpl = d, seg_p = 1,
      lim_19_16 = ucast (drop_bit 16 lim), avl = 0, seg_rsv1 = 0, db = 1, gran = 0,
      base_31_24 = ucast (drop_bit 24 bs)\<rparr>"

definition SETGATE :: "bool \<Rightarrow> u16 \<Rightarrow> u32 \<Rightarrow> 2 word \<Rightarrow> gatedesc" where
  "SETGATE istrap sel off d =
     \<lparr>off_15_0 = ucast (off AND 0xffff), gate_cs = sel, args = 0, gate_rsv1 = 0,
      gate_type = (if istrap then STS_TG32 else STS_IG32), gate_s = 0, gate_dpl = d, gate_p = 1,
      off_31_16 = ucast (drop_bit 16 off)\<rparr>"

subsection \<open>Filling the tables\<close>

fun tvinit_loop :: "nat list \<Rightarrow> u32 list \<Rightarrow> gatedesc list \<Rightarrow> gatedesc list" where
  "tvinit_loop [] vectors idt = idt"
| "tvinit_loop (i # is) vectors idt =
     tvinit_loop is vectors (idt[i := SETGATE False (push_bit 3 1) (vectors ! i) 0])"

definition tvinit :: "u32 list \<Rightarrow> gatedesc list \<Rightarrow> gatedesc list" where
  "tvinit vectors idt =
     (let idt = tvinit_loop [0..<256] vectors idt
      in idt[T_SYSCALL := SETGATE True (push_bit 3 1) (vectors ! T_SYSCALL) DPL_USER])"

definition seginit :: "segdesc list \<Rightarrow> segdesc list" where
  "seginit gdt =
     (let gdt = gdt[SEG_KCODE := SEG (STA_X OR STA_R) 0 0xffffffff 0];
          gdt = gdt[SEG_KDATA := SEG STA_W 0 0xffffffff 0];
          gdt = gdt[SEG_UCODE := SEG (STA_X OR STA_R) 0 0xffffffff DPL_USER]
      in gdt[SEG_UDATA := SEG STA_W 0 0xffffffff DPL_USER])"

subsection \<open>What the processor reads\<close>

definition gate_offset :: "gatedesc \<Rightarrow> u32" where
  "gate_offset g = ucast (off_15_0 g) OR push_bit 16 (ucast (off_31_16 g))"

text \<open>An interrupt instruction at privilege level \<open>cpl\<close> may use the gate; an interrupt gate masks
  interrupts.\<close>

definition may_invoke :: "2 word \<Rightarrow> gatedesc \<Rightarrow> bool" where
  "may_invoke cpl g \<longleftrightarrow> gate_p g = 1 \<and> cpl \<le> gate_dpl g"

definition masks_interrupts :: "gatedesc \<Rightarrow> bool" where
  "masks_interrupts g \<longleftrightarrow> gate_type g = STS_IG32"

definition seg_base :: "segdesc \<Rightarrow> u32" where
  "seg_base d = ucast (base_15_0 d) OR push_bit 16 (ucast (base_23_16 d)) OR push_bit 24 (ucast (base_31_24 d))"

definition seg_limit :: "segdesc \<Rightarrow> u32" where
  "seg_limit d =
     (let l = ucast (lim_15_0 d) OR push_bit 16 (ucast (lim_19_16 d))
      in if gran d = 1 then push_bit 12 l OR 0xfff else l)"

lemma low_bits:
  "bit (0xffff :: int) n \<longleftrightarrow> n < 16" "bit (0xfff :: int) n \<longleftrightarrow> n < 12" "bit (0xff :: int) n \<longleftrightarrow> n < 8"
proof -
  have e: "(0xffff :: int) = mask 16" "(0xfff :: int) = mask 12" "(0xff :: int) = mask 8"
    by (simp_all add: mask_eq_exp_minus_1)
  show "bit (0xffff :: int) n \<longleftrightarrow> n < 16" "bit (0xfff :: int) n \<longleftrightarrow> n < 12" "bit (0xff :: int) n \<longleftrightarrow> n < 8"
    unfolding e bit_mask_iff by auto
qed

lemmas field_bits = bit_or_iff bit_unsigned_iff bit_push_bit_iff bit_drop_bit_eq bit_and_iff low_bits

lemma SETGATE_offset: "gate_offset (SETGATE t sel off d) = off"
proof (rule bit_word_eqI)
  fix n assume "n < LENGTH(32)"
  then show "bit (gate_offset (SETGATE t sel off d)) n = bit off n"
    by (cases "n < 16") (auto simp: gate_offset_def SETGATE_def field_bits)
qed

lemma SEG_base: "seg_base (SEG t b l d) = b"
proof (rule bit_word_eqI)
  fix n assume n: "n < LENGTH(32)"
  consider "n < 16" | "16 \<le> n" "n < 24" | "24 \<le> n" by linarith
  then show "bit (seg_base (SEG t b l d)) n = bit b n"
    by cases (use n in \<open>auto simp: seg_base_def SEG_def field_bits\<close>)
qed

lemma SEG_limit: "seg_limit (SEG t b l d) = l OR 0xfff"
proof (rule bit_word_eqI)
  fix n assume n: "n < LENGTH(32)"
  consider "n < 12" | "12 \<le> n" "n < 28" | "28 \<le> n" by linarith
  then show "bit (seg_limit (SEG t b l d)) n = bit (l OR 0xfff) n"
    by cases (use n in \<open>auto simp: seg_limit_def SEG_def field_bits Let_def\<close>)
qed

lemma tvinit_loop_nth:
  "distinct is \<Longrightarrow> \<forall>i \<in> set is. i < length idt \<Longrightarrow> n < length idt \<Longrightarrow>
    length (tvinit_loop is vs idt) = length idt \<and>
    tvinit_loop is vs idt ! n = (if n \<in> set is then SETGATE False (push_bit 3 1) (vs ! n) 0 else idt ! n)"
  by (induction "is" vs idt rule: tvinit_loop.induct) auto

text \<open>C40: the system call gate is the only door. After \<^verbatim>\<open>tvinit\<close>, whatever the table held before, each of the
  256 vectors leads to its own entry point in the kernel code segment; an interrupt instruction in a
  user program may use a vector exactly if it is the system call's, and exactly that vector leaves
  interrupts enabled.\<close>

theorem user_gate:
  assumes "length idt = 256" "n < 256"
  shows "gate_offset (tvinit vectors idt ! n) = vectors ! n \<and> gate_cs (tvinit vectors idt ! n) = 8 \<and>
    (may_invoke 3 (tvinit vectors idt ! n) \<longleftrightarrow> n = T_SYSCALL) \<and>
    (masks_interrupts (tvinit vectors idt ! n) \<longleftrightarrow> n \<noteq> T_SYSCALL)"
proof -
  have "length (tvinit_loop [0..<256] vectors idt) = 256 \<and>
      tvinit_loop [0..<256] vectors idt ! n = SETGATE False (push_bit 3 1) (vectors ! n) 0"
    using tvinit_loop_nth [of "[0..<256]" idt n vectors] assms by (simp del: upt_rec_numeral)
  then have "tvinit vectors idt ! n =
      (if n = T_SYSCALL then SETGATE True 8 (vectors ! n) 3 else SETGATE False 8 (vectors ! n) 0)"
    by (simp add: tvinit_def del: upt_rec_numeral)
  then show ?thesis
    by (auto simp: SETGATE_offset) (simp_all add: SETGATE_def may_invoke_def masks_interrupts_def)
qed

definition zero_gate :: gatedesc where
  "zero_gate = \<lparr>off_15_0 = 0, gate_cs = 0, args = 0, gate_rsv1 = 0, gate_type = 0, gate_s = 0, gate_dpl = 0,
     gate_p = 0, off_31_16 = 0\<rparr>"

theorem user_gate_witness:
  "may_invoke 3 (tvinit (replicate 256 0x80105000) (replicate 256 zero_gate) ! 64) \<and>
   \<not> may_invoke 3 (tvinit (replicate 256 0x80105000) (replicate 256 zero_gate) ! 14)"
  using user_gate [of "replicate 256 zero_gate" 64] user_gate [of "replicate 256 zero_gate" 14] by simp

lemma seginit_flat:
  assumes "length gdt = NSEGS" "i \<in> {SEG_KCODE, SEG_KDATA, SEG_UCODE, SEG_UDATA}"
  shows "seg_base (seginit gdt ! i) = 0 \<and> seg_limit (seginit gdt ! i) = 0xffffffff \<and>
    seg_dpl (seginit gdt ! i) = (if i \<in> {SEG_UCODE, SEG_UDATA} then 3 else 0)"
proof -
  obtain t where "seginit gdt ! i = SEG t 0 0xffffffff (if i \<in> {SEG_UCODE, SEG_UDATA} then 3 else 0)"
    using assms by (auto simp: seginit_def nth_list_update)
  then show ?thesis by (simp add: SEG_base SEG_limit) (simp add: SEG_def)
qed

end
