(* ===== verification/Spec2Isabelle.thy ===== *)
theory Spec2Isabelle
  imports Xv6_Prelude CMem Spinlock Kalloc Cprintf Vm AddrSpace Proc Proc_Inv Bio Bio_Inv Bio_View Log Inode Console Fs File Process Exec Rtc Sysargs Sysfile Syscall Ring Pipe_Inv Console_Inv Fs_Inv Sched_Inv Grep Shell Kbd Links StateList Ide Ulib Umalloc Gates
begin

text \<open>
  A verification development for the xv6 kernel of \<^verbatim>\<open>src/xv6\<close> (the PDX variant with the added system
  calls \<^verbatim>\<open>cps\<close>, \<^verbatim>\<open>getppid\<close>, \<^verbatim>\<open>getsz\<close>, \<^verbatim>\<open>chpr\<close>, \<^verbatim>\<open>getcount\<close>, \<^verbatim>\<open>time\<close>, \<^verbatim>\<open>utctime\<close> and \<^verbatim>\<open>dup2\<close>) and for some of
  its user programs, built as the default Makefile builds it (\<^verbatim>\<open>PDX_XV6\<close> defined, \<^verbatim>\<open>CS333_PROJECT\<close> 0).

  \<^bold>\<open>The program.\<close> The kernel runs processes on several CPUs. Pages come from \<^verbatim>\<open>kalloc.c\<close>, address spaces
  are built from them by \<^verbatim>\<open>vm.c\<close>, and \<^verbatim>\<open>proc.c\<close> keeps the table of processes and schedules them. Blocks of
  the disk (\<^verbatim>\<open>ide.c\<close>, or \<^verbatim>\<open>memide.c\<close> in the kernel that carries its disk in memory) are cached by \<^verbatim>\<open>bio.c\<close>,
  grouped into transactions by \<^verbatim>\<open>log.c\<close>, and made into inodes, directories and paths by \<^verbatim>\<open>fs.c\<close>. \<^verbatim>\<open>file.c\<close>
  and \<^verbatim>\<open>pipe.c\<close> are open files; \<^verbatim>\<open>console.c\<close> with \<^verbatim>\<open>kbd.c\<close> is the terminal. A trap (\<^verbatim>\<open>trap.c\<close>) leads to a
  system call (\<^verbatim>\<open>syscall.c\<close>, \<^verbatim>\<open>sysproc.c\<close>, \<^verbatim>\<open>sysfile.c\<close>, \<^verbatim>\<open>exec.c\<close>), to a device or to the end of the process.

  \<^bold>\<open>State and conventions.\<close> The kernel's variables are one record that each component extends: CPUs
  (\<open>Spinlock\<close>), physical memory and console output (\<open>Kalloc\<close>, \<open>Cprintf\<close>), page tables (\<open>Vm\<close>), processes
  (\<open>Proc\<close>), disk and buffers (\<open>Bio\<close>), log (\<open>Log\<close>), inodes (\<open>Inode\<close>), console (\<open>Console\<close>), files and pipes
  (\<open>File\<close>), threads (\<open>Process\<close>), devices (\<open>Syscall\<close>). An operation takes the state and returns it updated
  with its result, or an error: \<open>Panic m\<close> is a call of \<^verbatim>\<open>panic\<close>, \<open>Fault\<close> an access outside the object
  meant, \<open>Block\<close> a wait in the middle of a longer operation. An operation that goes to sleep as its last
  act returns \<open>SleepOn\<close> and the channel. Physical memory is bytes, and what the code keeps in memory
  (the free list, page tables) is kept there; user memory is reached through the page table. Words
  have their machine width. Sections under a spin lock are atomic, which the mutual exclusion of
  \<open>Spinlock\<close> justifies; operations that switch stacks are cut at \<^verbatim>\<open>swtch\<close>.
  Interfaces with several clients are locales: \<open>page_allocator\<close>, which \<open>Kalloc\<close> implements, and
  \<open>ring_buffer\<close>, interpreted for pipes and for console input.

  \<^bold>\<open>Theories of the kernel.\<close>
  \<^item> \<open>Xv6_Prelude\<close>: machine types, constants, results, generic lemmas. \<open>CMem\<close>: byte memory and \<^verbatim>\<open>string.c\<close>;
    \<^verbatim>\<open>memmove\<close> copies also between overlapping ranges. \<open>Links\<close>: lists threaded through a table.
    \<open>Ring\<close>: rings with free-running indices.
  \<^item> \<open>Spinlock\<close> (\<^verbatim>\<open>spinlock.c\<close>): at most one CPU is in a critical section, with interrupts off.
  \<^item> \<open>Kalloc\<close> (\<^verbatim>\<open>kalloc.c\<close>): pages allocated are distinct and were free, none is lost; \<^verbatim>\<open>kinit1\<close> frees its
    whole range. \<open>Vm\<close> (\<^verbatim>\<open>vm.c\<close>) and \<open>AddrSpace\<close>: \<^verbatim>\<open>mappages\<close> changes exactly the mappings it is asked for.
  \<^item> \<open>Cprintf\<close>, \<open>Console\<close>, \<open>Console_Inv\<close> (\<^verbatim>\<open>console.c\<close>): printed numbers denote their value, input is a
    queue of committed lines, the screen is never overrun. \<open>Kbd\<close> (\<^verbatim>\<open>kbd.c\<close>, \<^verbatim>\<open>kbd.h\<close>): modifiers follow the
    keys held down; results and state keep to their types.
  \<^item> \<open>Proc\<close>, \<open>Proc_Inv\<close>, \<open>Process\<close>, \<open>Sched_Inv\<close> (\<^verbatim>\<open>proc.c\<close>): process ids are unique, \<^verbatim>\<open>kill\<close> reaches exactly
    its process, \<^verbatim>\<open>time\<close> is \<^verbatim>\<open>wait\<close> with two stores, the scheduler's scan is fair. \<open>StateList\<close>: the process
    lists of the later builds are lists.
  \<^item> \<open>Bio\<close>, \<open>Bio_Inv\<close>, \<open>Bio_View\<close> (\<^verbatim>\<open>sleeplock.c\<close>, \<^verbatim>\<open>bio.c\<close>, \<^verbatim>\<open>memide.c\<close>): a read returns the current content of
    a block, and the least recently used buffer is recycled. \<open>Ide\<close> (\<^verbatim>\<open>ide.c\<close>): requests are served in
    order, and have the effect they have on the memory disk.
  \<^item> \<open>Log\<close> (\<^verbatim>\<open>log.c\<close>), \<open>Inode\<close>, \<open>Fs\<close>, \<open>Fs_Inv\<close> (\<^verbatim>\<open>fs.c\<close>): the whole code; inodes and directory entries
    survive being written and read back, paths are split at their slashes.
  \<^item> \<open>File\<close>, \<open>Pipe_Inv\<close> (\<^verbatim>\<open>file.c\<close>, \<^verbatim>\<open>pipe.c\<close>): a pipe is a bounded queue over any history of reads and writes.
  \<^item> \<open>Exec\<close> (\<^verbatim>\<open>exec.c\<close>), \<open>Rtc\<close> (\<^verbatim>\<open>lapic.c\<close>, the clock), \<open>Sysargs\<close>, \<open>Sysfile\<close>, \<open>Syscall\<close> (\<^verbatim>\<open>syscall.c\<close>, \<^verbatim>\<open>sysfile.c\<close>,
    \<^verbatim>\<open>sysproc.c\<close>, \<^verbatim>\<open>trap.c\<close>): all system calls, the dispatcher and the trap handler, executable.
    \<open>Gates\<close> (\<^verbatim>\<open>mmu.h\<close>, \<^verbatim>\<open>tvinit\<close>, \<^verbatim>\<open>seginit\<close>): user programs enter the kernel only through the system call
    gate, and segments are flat.

  \<^bold>\<open>Theories of user programs.\<close>
  \<^item> \<open>Shell\<close> (\<^verbatim>\<open>sh.c\<close>): the parser returns on every line, words are terminated without damage, programs
    start with exactly three descriptors open. \<open>Grep\<close> (\<^verbatim>\<open>grep.c\<close>): the matcher accepts the language of the
    pattern; lines that arrive in pieces are lost.
  \<^item> \<open>Ulib\<close> (\<^verbatim>\<open>ulib.c\<close>, \<^verbatim>\<open>printf.c\<close>, \<^verbatim>\<open>wc.c\<close>): the two \<^verbatim>\<open>printf\<close>s agree, \<^verbatim>\<open>atoi\<close> reads back printed numbers,
    \<^verbatim>\<open>wc\<close> counts whatever the pieces, \<^verbatim>\<open>memmove\<close> is right only downwards.
  \<^item> \<open>Umalloc\<close> (\<^verbatim>\<open>umalloc.c\<close>): the free list stays sorted and merged, and blocks handed out never overlap.

  \<^bold>\<open>Loops and fuel.\<close> Loops over a table, a range of addresses or a byte list recurse over it. The scans
  of the buffer cache's list carry fuel 31, more than its length (\<open>Bio_Inv\<close> shows that the fuel does not
  run out). The shell's parser carries a bound on the depth of its calls, four times the length of the
  line plus four; it is shown never to be reached. The searches through
  linked lists that could be cyclic (\<open>find_proc\<close>, \<open>queue_end\<close>, the loops of \<^verbatim>\<open>free\<close> and \<^verbatim>\<open>malloc\<close>) are partial functions, and
  the theorems about them state that they return. Waiting for hardware consumes a finite stream of
  readings and is \<open>Block\<close> when it ends.

  \<^bold>\<open>Not modelled.\<close>
  \<^item> The assembly files (\<^verbatim>\<open>bootasm.S\<close>, \<^verbatim>\<open>entry.S\<close>, \<^verbatim>\<open>entryother.S\<close>, \<^verbatim>\<open>swtch.S\<close>, \<^verbatim>\<open>trapasm.S\<close>, \<^verbatim>\<open>vectors.S\<close>, \<^verbatim>\<open>usys.S\<close>,
    \<^verbatim>\<open>initcode.S\<close>) and the boot loader \<^verbatim>\<open>bootmain.c\<close>: they are about the processor, not about kernel state.
  \<^item> \<^verbatim>\<open>main.c\<close>, which calls the initialisation functions; the instructions that load descriptor tables and
    the task register.
  \<^item> \<^verbatim>\<open>mp.c\<close>, \<^verbatim>\<open>ioapic.c\<close>, \<^verbatim>\<open>picirq.c\<close>, \<^verbatim>\<open>uart.c\<close> and the rest of \<^verbatim>\<open>lapic.c\<close>: discovery and programming of
    hardware, by writes to its registers.
  \<^item> \<^verbatim>\<open>mkfs.c\<close>, which runs on the host; the remaining user programs, which are sequences of system calls
    and messages; and the test programs (\<^verbatim>\<open>usertests.c\<close>, \<^verbatim>\<open>forktest.c\<close>, \<^verbatim>\<open>stressfs.c\<close>, \<^verbatim>\<open>schedstress.c\<close>, the
    \<^verbatim>\<open>p2\<close> to \<^verbatim>\<open>p5\<close> and \<^verbatim>\<open>test\<close> programs), which only drive the kernel.
  \<^item> The code of the course projects (\<^verbatim>\<open>CS333_P1\<close> to \<^verbatim>\<open>P5\<close>) that the default build leaves out, other than the
    process lists.
  \<^item> Memory ordering between CPUs: the model interleaves whole sections.
\<close>

end
